(* ===== verification/Prelude.thy ===== *)
theory Prelude
  imports Main "HOL-Library.List_Lexorder" "HOL-Library.Char_ord" "HOL-Library.AList"
    "HOL-Library.Multiset" "HOL-Library.Product_Lexorder"
begin

text \<open>
  Shared ground of the development: the hint collections, Go's maps as association lists
  with distinct keys, \<open>sort.Slice\<close> as a stable insertion sort with its contract as a
  locale, fixed-width integers, and the time arithmetic of package \<open>time\<close>.
\<close>

named_theorems gomap \<open>lookup, update and delete of association lists\<close>
named_theorems gostr \<open>string functions of package strings\<close>
named_theorems gosort \<open>facts about sorted slices\<close>

section \<open>Go maps\<close>

text \<open>
  A Go map is an association list with distinct keys. Reading is \<^const>\<open>map_of\<close>, writing is
  \<^const>\<open>AList.update\<close>, deleting is \<^const>\<open>AList.delete\<close>. Go iterates a map in an unspecified
  order: where the source ranges over a map the model ranges over the list, and the
  properties show that a permutation of the list gives the same answer.
\<close>

type_synonym ('k, 'v) gomap = "('k \<times> 'v) list"

abbreviation gm_wf :: "('k, 'v) gomap \<Rightarrow> bool" where
  "gm_wf m \<equiv> distinct (map fst m)"

abbreviation gm_put :: "'k \<Rightarrow> 'v \<Rightarrow> ('k, 'v) gomap \<Rightarrow> ('k, 'v) gomap" where
  "gm_put \<equiv> AList.update"

abbreviation gm_del :: "'k \<Rightarrow> ('k, 'v) gomap \<Rightarrow> ('k, 'v) gomap" where
  "gm_del \<equiv> AList.delete"

abbreviation gm_get :: "('k, 'v) gomap \<Rightarrow> 'k \<Rightarrow> 'v option" where
  "gm_get \<equiv> map_of"

lemma gm_get_put [gomap, simp]: "gm_get (gm_put k v m) k' = (if k' = k then Some v else gm_get m k')"
  by (simp add: update_conv')

lemma gm_get_del [gomap, simp]: "gm_get (gm_del k m) k' = (if k' = k then None else gm_get m k')"
  by (simp add: delete_conv')

lemma gm_wf_put [gomap, simp]: "gm_wf m \<Longrightarrow> gm_wf (gm_put k v m)"
  by (rule distinct_update)

lemma gm_wf_del [gomap, simp]: "gm_wf m \<Longrightarrow> gm_wf (gm_del k m)"
  by (rule distinct_delete)

lemma gm_in_iff: "gm_wf m \<Longrightarrow> (k, v) \<in> set m \<longleftrightarrow> gm_get m k = Some v"
  by simp

lemma gm_del_filter: "gm_del k m = filter (\<lambda>(k', _). k' \<noteq> k) m"
  by (simp add: AList.delete_eq case_prod_unfold eq_commute)

lemma gm_wf_filter [gomap, simp]: "gm_wf m \<Longrightarrow> gm_wf (filter P m)"
  by (induction m) auto

lemma gm_get_filter:
  "gm_wf m \<Longrightarrow> gm_get (filter P m) k =
     (case gm_get m k of Some v \<Rightarrow> if P (k, v) then Some v else None | None \<Rightarrow> None)"
  by (induction m) (auto split: option.splits dest: map_of_SomeD simp: rev_image_eqI)

lemma gm_perm_get: "gm_wf m \<Longrightarrow> mset m = mset m' \<Longrightarrow> gm_get m = gm_get m'"
  by (metis map_of_eqI mset_eq_setD set_map gm_in_iff map_of_inject_set mset_eq_imp_distinct_iff mset_map)

text \<open>
  The interface the stateful components rely on: what a lookup returns after an insert
  and after a delete, and that the key discipline is kept.
\<close>

locale keyed_store =
  fixes lookup :: "'m \<Rightarrow> 'k \<Rightarrow> 'v option"
    and insert_at :: "'k \<Rightarrow> 'v \<Rightarrow> 'm \<Rightarrow> 'm"
    and remove_at :: "'k \<Rightarrow> 'm \<Rightarrow> 'm"
    and wf :: "'m \<Rightarrow> bool"
  assumes lookup_insert: "wf m \<Longrightarrow> lookup (insert_at k v m) k' = (if k' = k then Some v else lookup m k')"
    and lookup_remove: "wf m \<Longrightarrow> lookup (remove_at k m) k' = (if k' = k then None else lookup m k')"
    and wf_insert: "wf m \<Longrightarrow> wf (insert_at k v m)"
    and wf_remove: "wf m \<Longrightarrow> wf (remove_at k m)"
begin

definition holds_all :: "('k \<Rightarrow> 'v \<Rightarrow> bool) \<Rightarrow> 'm \<Rightarrow> bool" where
  "holds_all P m \<longleftrightarrow> wf m \<and> (\<forall>k v. lookup m k = Some v \<longrightarrow> P k v)"

lemma holds_all_insert: "holds_all P m \<Longrightarrow> P k v \<Longrightarrow> holds_all P (insert_at k v m)"
  by (auto simp: holds_all_def lookup_insert wf_insert)

lemma holds_all_remove: "holds_all P m \<Longrightarrow> holds_all P (remove_at k m)"
  by (auto simp: holds_all_def lookup_remove wf_remove)

lemma holds_allD: "holds_all P m \<Longrightarrow> lookup m k = Some v \<Longrightarrow> P k v"
  by (simp add: holds_all_def)

lemma remove_insert_other: "wf m \<Longrightarrow> k \<noteq> k' \<Longrightarrow> lookup (remove_at k (insert_at k' v m)) k' = Some v"
  by (simp add: lookup_insert lookup_remove wf_insert)

end

interpretation gm: keyed_store map_of AList.update AList.delete "\<lambda>m. distinct (map fst m)"
  by unfold_locales simp_all

section \<open>sort.Slice and sort.SliceStable\<close>

text \<open>
  Sorting by a \<open>lt\<close> function: a stable insertion sort. \<open>sort.Slice\<close> promises no order
  among equal elements, so what the properties say of its result is either a statement about
  a comparison that separates the elements (the result is then the only sorted permutation)
  or one that does not depend on the order.
\<close>

fun sort_insert :: "('a \<Rightarrow> 'a \<Rightarrow> bool) \<Rightarrow> 'a \<Rightarrow> 'a list \<Rightarrow> 'a list" where
  "sort_insert lt x [] = [x]"
| "sort_insert lt x (y # ys) = (if lt y x then y # sort_insert lt x ys else x # y # ys)"

definition sort_slice :: "('a \<Rightarrow> 'a \<Rightarrow> bool) \<Rightarrow> 'a list \<Rightarrow> 'a list" where
  "sort_slice lt xs = foldr (sort_insert lt) xs []"

lemma sort_slice_simps [simp]:
  "sort_slice lt [] = []"
  "sort_slice lt (x # xs) = sort_insert lt x (sort_slice lt xs)"
  by (simp_all add: sort_slice_def)

lemma mset_sort_insert [simp]: "mset (sort_insert lt x xs) = add_mset x (mset xs)"
  by (induction xs) auto

lemma mset_sort_slice [gosort, simp]: "mset (sort_slice lt xs) = mset xs"
  by (induction xs) auto

lemma set_sort_slice [gosort, simp]: "set (sort_slice lt xs) = set xs"
  using mset_sort_slice by (metis set_mset_mset)

lemma length_sort_slice [gosort, simp]: "length (sort_slice lt xs) = length xs"
  by (metis mset_sort_slice size_mset)

lemma distinct_sort_slice [gosort, simp]: "distinct (map f (sort_slice lt xs)) = distinct (map f xs)"
  by (metis mset_eq_imp_distinct_iff mset_map mset_sort_slice)

text \<open>
  The contract of a comparison. \<open>slice_order\<close> is a strict weak order, what \<open>sort.Slice\<close>
  asks for; \<open>keyed_order\<close> is the shape every comparison of the program has: lt on a key.
\<close>

locale slice_order =
  fixes lt :: "'a \<Rightarrow> 'a \<Rightarrow> bool"
  assumes asym: "lt x y \<Longrightarrow> \<not> lt y x"
    and neg_trans: "\<not> lt x y \<Longrightarrow> \<not> lt y z \<Longrightarrow> \<not> lt x z"
begin

lemma sorted_insert:
  "sorted_wrt (\<lambda>x y. \<not> lt y x) xs \<Longrightarrow> sorted_wrt (\<lambda>x y. \<not> lt y x) (sort_insert lt x xs)"
proof (induction xs)
  case (Cons y ys)
  have eq: "set (sort_insert lt x ys) = insert x (set ys)"
    using mset_sort_insert [of lt x ys] by (metis set_mset_add_mset_insert set_mset_mset)
  show ?case
    using Cons eq by (auto dest: asym neg_trans)
qed simp

lemma sorted_slice: "sorted_wrt (\<lambda>x y. \<not> lt y x) (sort_slice lt xs)"
  by (induction xs) (simp_all add: sorted_insert)

end

locale keyed_order =
  fixes lt :: "'a \<Rightarrow> 'a \<Rightarrow> bool" and key :: "'a \<Rightarrow> 'k::linorder"
  assumes lt_key: "lt x y \<longleftrightarrow> key x < key y"

sublocale keyed_order \<subseteq> slice_order
  by unfold_locales (auto simp: lt_key)

context keyed_order begin

lemma sort_insert_insort: "sort_insert lt x xs = insort_key key x xs"
  by (induction xs) (auto simp: lt_key)

lemma sort_slice_sort_key: "sort_slice lt xs = sort_key key xs"
  by (induction xs) (simp_all add: sort_insert_insort)

lemma sorted_keys: "sorted (map key (sort_slice lt xs))"
  by (simp add: sort_slice_sort_key)

lemma sort_slice_perm:
  assumes "mset xs = mset ys" and "inj_on key (set xs)"
  shows "sort_slice lt xs = sort_slice lt ys"
  using assms unfolding sort_slice_sort_key
  by (metis mset_eq_setD properties_for_sort_key sorted_sort_key mset_sort sort_key_inj_key_eq)

lemma strictly_sorted_keys:
  assumes "distinct (map key xs)"
  shows "sorted_wrt (<) (map key (sort_slice lt xs))"
proof -
  have "distinct (map key (sort_slice lt xs))"
    using assms by simp
  then show ?thesis
    using sorted_keys [of xs] by (simp add: strict_sorted_iff)
qed

end

section \<open>Fixed-width integers and time\<close>

text \<open>
  \<open>int\<close> and \<open>time.Duration\<close> are 64-bit. Where the source's arithmetic can leave the range the
  wrap-around is written out; where it compares or copies, \<^typ>\<open>int\<close> is the value.
  \<open>time.Time\<close> is the number of nanoseconds since Go's zero time, whose value is 0;
  \<open>Time.Sub\<close> saturates.
\<close>

type_synonym time = int
type_synonym duration = int

definition wrap64 :: "int \<Rightarrow> int" where
  "wrap64 x = (x + 2 ^ 63) mod 2 ^ 64 - 2 ^ 63"

lemma wrap64_range: "- (2 ^ 63) \<le> wrap64 x \<and> wrap64 x < 2 ^ 63"
  by (simp add: wrap64_def)

lemma wrap64_id: "- (2 ^ 63) \<le> x \<Longrightarrow> x < 2 ^ 63 \<Longrightarrow> wrap64 x = x"
  by (simp add: wrap64_def)

definition max_duration :: duration where "max_duration = 2 ^ 63 - 1"
definition min_duration :: duration where "min_duration = - (2 ^ 63)"

definition time_sub :: "time \<Rightarrow> time \<Rightarrow> duration" where
  "time_sub t u = max min_duration (min max_duration (t - u))"

definition zero_time :: time where "zero_time = 0"

definition second :: duration where "second = 1000000000"
definition minute :: duration where "minute = 60 * second"

lemma time_sub_ge_iff:
  "min_duration < d \<Longrightarrow> d \<le> max_duration \<Longrightarrow> time_sub t u \<ge> d \<longleftrightarrow> t - u \<ge> d"
  by (auto simp: time_sub_def)

lemma time_sub_less_iff:
  "min_duration < d \<Longrightarrow> d \<le> max_duration \<Longrightarrow> time_sub t u < d \<longleftrightarrow> t - u < d"
  by (auto simp: time_sub_def)

lemma time_sub_refl [simp]: "time_sub t t = 0"
  by (simp add: time_sub_def min_duration_def max_duration_def)

end
