(* ===== verification/GoStrings.thy ===== *)
theory GoStrings
  imports Prelude "HOL-Library.Sublist"
begin

text \<open>
  The functions of packages \<open>strings\<close> and \<open>strconv\<close> the program calls. A Go string is a byte
  sequence: a \<^typ>\<open>string\<close> whose characters are bytes, with non-ASCII text in UTF-8.
  \<open>TrimSpace\<close> and the rune loop of \<open>strings.Map\<close> work on the encodings of Unicode characters as
  the library does; \<open>ToLower\<close> and \<open>EqualFold\<close> fold ASCII letters and leave other bytes alone.
\<close>

section \<open>Prefixes, suffixes, searching\<close>

definition trim_prefix :: "string \<Rightarrow> string \<Rightarrow> string" where
  "trim_prefix p s = (if prefix p s then drop (length p) s else s)"

definition trim_suffix :: "string \<Rightarrow> string \<Rightarrow> string" where
  "trim_suffix p s = (if suffix p s then take (length s - length p) s else s)"

definition cut_prefix :: "string \<Rightarrow> string \<Rightarrow> string option" where
  "cut_prefix p s = (if prefix p s then Some (drop (length p) s) else None)"

fun str_index :: "string \<Rightarrow> string \<Rightarrow> nat option" where
  "str_index sub [] = (if sub = [] then Some 0 else None)"
| "str_index sub (c # s) = (if prefix sub (c # s) then Some 0 else map_option Suc (str_index sub s))"

definition str_contains :: "string \<Rightarrow> string \<Rightarrow> bool" where
  "str_contains s sub \<longleftrightarrow> str_index sub s \<noteq> None"

lemma trim_prefix_append [gostr, simp]: "trim_prefix p (p @ s) = s"
  by (simp add: trim_prefix_def)

lemma trim_prefix_other [gostr]: "\<not> prefix p s \<Longrightarrow> trim_prefix p s = s"
  by (simp add: trim_prefix_def)

lemma trim_suffix_append [gostr, simp]: "trim_suffix p (s @ p) = s"
  by (simp add: trim_suffix_def suffix_def)

lemma trim_suffix_other [gostr]: "\<not> suffix p s \<Longrightarrow> trim_suffix p s = s"
  by (simp add: trim_suffix_def)

lemma cut_prefix_append [gostr, simp]: "cut_prefix p (p @ s) = Some s"
  by (simp add: cut_prefix_def)

lemma cut_prefix_Some: "cut_prefix p s = Some r \<longleftrightarrow> s = p @ r"
  by (auto simp: cut_prefix_def prefix_def)

lemma str_index_Some:
  "str_index sub s = Some i \<Longrightarrow> i + length sub \<le> length s \<and> prefix sub (drop i s)"
proof (induction sub s arbitrary: i rule: str_index.induct)
  case (2 sub c s)
  then show ?case
    by (auto split: if_splits dest: prefix_length_le)
qed (auto split: if_splits)

lemma str_index_None: "str_index sub s = None \<longleftrightarrow> \<not> sublist sub s"
  by (induction s) (auto simp: sublist_Cons_right)

lemma str_index_least:
  "str_index sub s = Some i \<Longrightarrow> j < i \<Longrightarrow> \<not> prefix sub (drop j s)"
proof (induction sub s arbitrary: i j rule: str_index.induct)
  case (2 sub c s)
  then show ?case by (cases j) (auto split: if_splits)
qed (auto split: if_splits)

text \<open>
  The first occurrence of \<open>sub\<close> in \<open>p @ sub @ r\<close> is after \<open>p\<close> when no occurrence starts
  inside \<open>p\<close>.
\<close>

lemma str_index_append:
  assumes "\<And>j. j < length p \<Longrightarrow> \<not> prefix sub (drop j (p @ sub @ r))"
  shows "str_index sub (p @ sub @ r) = Some (length p)"
  using assms
proof (induction p)
  case Nil
  then show ?case by (cases "sub @ r") (auto intro: prefixI [OF sym])
next
  case (Cons a p)
  have "\<not> prefix sub (drop j (p @ sub @ r))" if "j < length p" for j
    using Cons.prems [of "Suc j"] that by simp
  then have "str_index sub (p @ sub @ r) = Some (length p)"
    by (rule Cons.IH)
  then show ?case
    using Cons.prems [of 0] by simp
qed

section \<open>Case and space\<close>

definition lower_char :: "char \<Rightarrow> char" where
  "lower_char c = (let n = of_char c :: nat in if 65 \<le> n \<and> n \<le> 90 then char_of (n + 32) else c)"

definition to_lower :: "string \<Rightarrow> string" where
  "to_lower = map lower_char"

definition equal_fold :: "string \<Rightarrow> string \<Rightarrow> bool" where
  "equal_fold s t \<longleftrightarrow> to_lower s = to_lower t"

lemma length_to_lower [simp]: "length (to_lower s) = length s"
  by (simp add: to_lower_def)

lemma to_lower_append [simp]: "to_lower (s @ t) = to_lower s @ to_lower t"
  by (simp add: to_lower_def)

lemma to_lower_Nil_iff [simp]: "to_lower s = [] \<longleftrightarrow> s = []"
  by (simp add: to_lower_def)

lemma to_lower_idem [gostr, simp]: "to_lower (to_lower s) = to_lower s"
proof -
  have "lower_char (lower_char c) = lower_char c" for c
    by (auto simp: lower_char_def Let_def)
  then show ?thesis by (simp add: to_lower_def)
qed

text \<open>
  The encodings of the characters \<open>unicode.IsSpace\<close> accepts: the ASCII ones, U+0085, U+00A0,
  U+1680, U+2000 to U+200A, U+2028, U+2029, U+202F, U+205F and U+3000.
\<close>

definition space_seqs :: "string list" where
  "space_seqs =
     [[CHR 0x20], [CHR 0x09], [CHR 0x0A], [CHR 0x0B], [CHR 0x0C], [CHR 0x0D],
      [CHR 0xC2, CHR 0x85], [CHR 0xC2, CHR 0xA0], [CHR 0xE1, CHR 0x9A, CHR 0x80],
      [CHR 0xE2, CHR 0x80, CHR 0x80], [CHR 0xE2, CHR 0x80, CHR 0x81], [CHR 0xE2, CHR 0x80, CHR 0x82],
      [CHR 0xE2, CHR 0x80, CHR 0x83], [CHR 0xE2, CHR 0x80, CHR 0x84], [CHR 0xE2, CHR 0x80, CHR 0x85],
      [CHR 0xE2, CHR 0x80, CHR 0x86], [CHR 0xE2, CHR 0x80, CHR 0x87], [CHR 0xE2, CHR 0x80, CHR 0x88],
      [CHR 0xE2, CHR 0x80, CHR 0x89], [CHR 0xE2, CHR 0x80, CHR 0x8A], [CHR 0xE2, CHR 0x80, CHR 0xA8],
      [CHR 0xE2, CHR 0x80, CHR 0xA9], [CHR 0xE2, CHR 0x80, CHR 0xAF], [CHR 0xE2, CHR 0x81, CHR 0x9F],
      [CHR 0xE3, CHR 0x80, CHR 0x80]]"

text \<open>Drop leading members of a list of byte sequences, as long as one matches.\<close>

fun strip_step :: "string list \<Rightarrow> string \<Rightarrow> string option" where
  "strip_step [] s = None"
| "strip_step (q # qs) s = (if q \<noteq> [] \<and> prefix q s then Some (drop (length q) s) else strip_step qs s)"

lemma strip_step_length: "strip_step qs s = Some t \<Longrightarrow> length t < length s"
  by (induction qs) (auto split: if_splits simp: prefix_def)

function strip_seqs :: "string list \<Rightarrow> string \<Rightarrow> string" where
  "strip_seqs qs s = (case strip_step qs s of None \<Rightarrow> s | Some t \<Rightarrow> strip_seqs qs t)"
  by pat_completeness auto
termination
  by (relation "measure (\<lambda>(qs, s). length s)") (auto dest: strip_step_length)

declare strip_seqs.simps [simp del]

definition trim_left :: "string \<Rightarrow> string" where
  "trim_left s = strip_seqs space_seqs s"

definition trim_right :: "string \<Rightarrow> string" where
  "trim_right s = rev (strip_seqs (map rev space_seqs) (rev s))"

definition trim_space :: "string \<Rightarrow> string" where
  "trim_space s = trim_right (trim_left s)"

lemma strip_seqs_stop: "strip_step qs s = None \<Longrightarrow> strip_seqs qs s = s"
  by (simp add: strip_seqs.simps)

lemma strip_seqs_none: "strip_step qs (strip_seqs qs s) = None"
proof (induction qs s rule: strip_seqs.induct)
  case (1 qs s)
  then show ?case
    by (cases "strip_step qs s") (simp_all add: strip_seqs.simps [of qs s])
qed

lemma strip_seqs_idem: "strip_seqs qs (strip_seqs qs s) = strip_seqs qs s"
  by (rule strip_seqs_stop) (rule strip_seqs_none)

lemma strip_seqs_suffix: "suffix (strip_seqs qs s) s"
proof (induction qs s rule: strip_seqs.induct)
  case (1 qs s)
  show ?case
  proof (cases "strip_step qs s")
    case None
    then show ?thesis by (simp add: strip_seqs_stop)
  next
    case (Some t)
    have "suffix t s"
      using Some by (induction qs) (auto split: if_splits simp: suffix_drop)
    with 1 Some show ?thesis
      by (simp add: strip_seqs.simps [of qs s])
  qed
qed

lemma strip_step_prefix: "strip_step qs t = None \<Longrightarrow> prefix u t \<Longrightarrow> strip_step qs u = None"
proof (induction qs)
  case (Cons q qs)
  have "q = [] \<or> \<not> prefix q t" and rest: "strip_step qs t = None"
    using Cons.prems(1) by (auto split: if_splits)
  then have "q = [] \<or> \<not> prefix q u" using Cons.prems(2) prefix_order.trans by blast
  with Cons.IH [OF rest Cons.prems(2)] show ?case by simp
qed simp

lemma trim_space_idem: "trim_space (trim_space s) = trim_space s"
proof -
  let ?t = "trim_left s"
  have "suffix (strip_seqs (map rev space_seqs) (rev ?t)) (rev ?t)" by (rule strip_seqs_suffix)
  then have "prefix (trim_right ?t) ?t" by (simp add: trim_right_def suffix_to_prefix)
  moreover have none: "strip_step space_seqs ?t = None" unfolding trim_left_def by (rule strip_seqs_none)
  ultimately have "strip_step space_seqs (trim_right ?t) = None" by (intro strip_step_prefix [OF none])
  then have "trim_left (trim_right ?t) = trim_right ?t" by (simp only: trim_left_def strip_seqs_stop)
  moreover have "trim_right (trim_right ?t) = trim_right ?t" by (simp add: trim_right_def strip_seqs_idem)
  ultimately show ?thesis by (simp add: trim_space_def)
qed

lemma trim_space_Nil [simp]: "trim_space [] = []"
  by (simp add: trim_space_def trim_right_def trim_left_def space_seqs_def strip_seqs.simps)

section \<open>Split and Join\<close>

fun split_char :: "char \<Rightarrow> string \<Rightarrow> string list" where
  "split_char c [] = [[]]"
| "split_char c (x # xs) =
     (if x = c then [] # split_char c xs
      else (case split_char c xs of [] \<Rightarrow> [[x]] | w # ws \<Rightarrow> (x # w) # ws))"

fun str_join :: "string \<Rightarrow> string list \<Rightarrow> string" where
  "str_join sep [] = []"
| "str_join sep [s] = s"
| "str_join sep (s # t # ss) = s @ sep @ str_join sep (t # ss)"

text \<open>\<open>strings.SplitN(s, c, 2)\<close>: the part before the first \<open>c\<close>, and the rest when there is one.\<close>

fun split2 :: "char \<Rightarrow> string \<Rightarrow> string \<times> string option" where
  "split2 c [] = ([], None)"
| "split2 c (x # xs) = (if x = c then ([], Some xs) else (case split2 c xs of (a, b) \<Rightarrow> (x # a, b)))"

lemma split_char_not_Nil [simp]: "split_char c s \<noteq> []"
  by (induction s) (auto split: list.splits)

lemma split_char_no_sep: "w \<in> set (split_char c s) \<Longrightarrow> c \<notin> set w"
proof (induction s arbitrary: w)
  case (Cons x s)
  then show ?case by (cases "split_char c s") (auto split: if_splits)
qed simp

lemma join_split_char [gostr, simp]: "str_join [c] (split_char c s) = s"
proof (induction s)
  case (Cons x s)
  show ?case
  proof (cases "split_char c s")
    case (Cons w ws)
    with Cons.IH show ?thesis by (cases ws) auto
  qed simp
qed simp

lemma split_char_append: "c \<notin> set w \<Longrightarrow> split_char c (w @ c # s) = w # split_char c s"
  by (induction w) auto

lemma split_char_single: "c \<notin> set w \<Longrightarrow> split_char c w = [w]"
  by (induction w) auto

lemma split_join_char [gostr]:
  "ws \<noteq> [] \<Longrightarrow> \<forall>w \<in> set ws. c \<notin> set w \<Longrightarrow> split_char c (str_join [c] ws) = ws"
proof (induction "[c]" ws rule: str_join.induct)
  case (3 s t ss)
  then show ?case by (simp add: split_char_append)
qed (auto simp: split_char_single)

lemma split2_append: "c \<notin> set a \<Longrightarrow> split2 c (a @ c # b) = (a, Some b)"
  by (induction a) auto

lemma split2_none: "c \<notin> set s \<Longrightarrow> split2 c s = (s, None)"
  by (induction s) auto

section \<open>Runes\<close>

text \<open>
  The width in bytes of the first rune of a byte sequence, as \<open>utf8.DecodeRune\<close> reports it:
  a valid encoding is as long as its lead byte says, anything else is one invalid byte.
\<close>

definition byte_in :: "nat \<Rightarrow> nat \<Rightarrow> char \<Rightarrow> bool" where
  "byte_in lo hi c \<longleftrightarrow> lo \<le> of_char c \<and> of_char c \<le> (hi :: nat)"

definition rune_width :: "string \<Rightarrow> nat" where
  "rune_width s = (case s of
     [] \<Rightarrow> 0
   | a # s1 \<Rightarrow>
      (if byte_in 0xC2 0xDF a then
         (case s1 of b # _ \<Rightarrow> if byte_in 0x80 0xBF b then 2 else 1 | [] \<Rightarrow> 1)
       else if byte_in 0xE0 0xEF a then
         (case s1 of
            b # c # _ \<Rightarrow>
              if byte_in (if a = CHR 0xE0 then 0xA0 else 0x80) (if a = CHR 0xED then 0x9F else 0xBF) b
                 \<and> byte_in 0x80 0xBF c then 3 else 1
          | _ \<Rightarrow> 1)
       else if byte_in 0xF0 0xF4 a then
         (case s1 of
            b # c # d # _ \<Rightarrow>
              if byte_in (if a = CHR 0xF0 then 0x90 else 0x80) (if a = CHR 0xF4 then 0x8F else 0xBF) b
                 \<and> byte_in 0x80 0xBF c \<and> byte_in 0x80 0xBF d then 4 else 1
          | _ \<Rightarrow> 1)
       else 1))"

lemma rune_width_pos: "s \<noteq> [] \<Longrightarrow> 0 < rune_width s"
  by (cases s) (auto simp: rune_width_def split: list.splits)

function runes :: "string \<Rightarrow> string list" where
  "runes s = (if s = [] then [] else take (rune_width s) s # runes (drop (rune_width s) s))"
  by pat_completeness auto
termination
  by (relation "measure length") (auto intro!: diff_less rune_width_pos)

declare runes.simps [simp del]

lemma runes_Nil [simp]: "runes [] = []"
  by (simp add: runes.simps)

lemma concat_runes: "concat (runes s) = s"
proof (induction s rule: runes.induct)
  case (1 s)
  then show ?case by (subst runes.simps) simp
qed

lemma runes_nonempty: "r \<in> set (runes s) \<Longrightarrow> r \<noteq> []"
proof (induction s rule: runes.induct)
  case (1 s)
  show ?case
  proof (cases "s = []")
    case False
    then have eq: "runes s = take (rune_width s) s # runes (drop (rune_width s) s)"
      by (subst runes.simps) simp
    have "take (rune_width s) s \<noteq> []"
      using False rune_width_pos [OF False] by simp
    with 1 False show ?thesis
      unfolding eq by (metis set_ConsD)
  qed (use 1 in simp)
qed

lemma runes_Nil_iff [simp]: "runes s = [] \<longleftrightarrow> s = []"
  by (metis concat.simps(1) concat_runes runes_Nil)

definition ascii_char :: "char \<Rightarrow> bool" where
  "ascii_char c \<longleftrightarrow> of_char c < (0x80 :: nat)"

lemma rune_width_ascii: "ascii_char c \<Longrightarrow> rune_width (c # s) = 1"
  by (auto simp: rune_width_def ascii_char_def byte_in_def)

lemma runes_ascii: "ascii_char c \<Longrightarrow> runes (c # s) = [c] # runes s"
  by (subst runes.simps) (simp add: rune_width_ascii)

lemma runes_all_ascii: "\<forall>c \<in> set s. ascii_char c \<Longrightarrow> runes s = map (\<lambda>c. [c]) s"
  by (induction s) (simp_all add: runes_ascii)

text \<open>Solid characters are ASCII and no space: text that starts and ends with one is not trimmed.\<close>

definition solid_char :: "char \<Rightarrow> bool" where
  "solid_char c \<longleftrightarrow> ascii_char c \<and> [c] \<notin> set space_seqs"

lemma strip_step_none: "\<forall>q \<in> set qs. \<not> prefix q s \<Longrightarrow> strip_step qs s = None"
  by (induction qs) auto

lemma space_seqs_ends:
  "\<forall>q \<in> set space_seqs. (\<exists>c. q = [c]) \<or> (q \<noteq> [] \<and> \<not> ascii_char (hd q) \<and> \<not> ascii_char (last q))"
  by (simp add: space_seqs_def ascii_char_def)

lemma strip_step_solid: "solid_char c \<Longrightarrow> strip_step space_seqs (c # s) = None"
proof (rule strip_step_none, rule ballI)
  fix q assume "solid_char c" "q \<in> set space_seqs"
  with space_seqs_ends show "\<not> prefix q (c # s)"
    by (cases q) (auto simp: solid_char_def)
qed

lemma strip_step_rev_solid: "solid_char c \<Longrightarrow> strip_step (map rev space_seqs) (c # s) = None"
proof (rule strip_step_none, rule ballI)
  fix q assume "solid_char c" "q \<in> set (map rev space_seqs)"
  then obtain p where p: "p \<in> set space_seqs" "q = rev p" by auto
  show "\<not> prefix q (c # s)"
  proof (cases p rule: rev_cases)
    case Nil
    then show ?thesis using p(1) space_seqs_ends by auto
  next
    case (snoc r x)
    then show ?thesis using p \<open>solid_char c\<close> bspec [OF space_seqs_ends p(1)] by (auto simp: solid_char_def)
  qed
qed

lemma trim_left_solid: "s \<noteq> [] \<Longrightarrow> solid_char (hd s) \<Longrightarrow> trim_left s = s"
  by (cases s) (simp_all add: trim_left_def strip_seqs_stop strip_step_solid)

lemma trim_right_solid: "s \<noteq> [] \<Longrightarrow> solid_char (last s) \<Longrightarrow> trim_right s = s"
  by (cases s rule: rev_cases) (simp_all add: trim_right_def strip_seqs_stop strip_step_rev_solid)

lemma trim_left_blank: "trim_left (CHR 0x20 # s) = trim_left s"
  unfolding trim_left_def by (subst strip_seqs.simps) (simp add: space_seqs_def)

lemma trim_space_solid:
  "s \<noteq> [] \<Longrightarrow> solid_char (hd s) \<Longrightarrow> solid_char (last s) \<Longrightarrow> trim_space s = s"
  by (simp add: trim_space_def trim_left_solid trim_right_solid)

lemma trim_space_blank: "trim_space (CHR 0x20 # s) = trim_space s"
  by (simp add: trim_space_def trim_left_blank)

section \<open>Itoa and Atoi\<close>

definition digit_char :: "nat \<Rightarrow> char" where
  "digit_char d = char_of (48 + d)"

definition is_digit :: "char \<Rightarrow> bool" where
  "is_digit c \<longleftrightarrow> byte_in 48 57 c"

definition digit_val :: "char \<Rightarrow> nat" where
  "digit_val c = of_char c - 48"

fun show_nat :: "nat \<Rightarrow> string" where
  "show_nat n = (if n < 10 then [digit_char n] else show_nat (n div 10) @ [digit_char (n mod 10)])"

declare show_nat.simps [simp del]

definition itoa :: "int \<Rightarrow> string" where
  "itoa i = (if i < 0 then CHR ''-'' # show_nat (nat (- i)) else show_nat (nat i))"

definition digits_val :: "string \<Rightarrow> nat" where
  "digits_val s = foldl (\<lambda>n c. 10 * n + digit_val c) 0 s"

definition parse_nat :: "string \<Rightarrow> nat option" where
  "parse_nat s = (if s \<noteq> [] \<and> list_all is_digit s then Some (digits_val s) else None)"

definition atoi :: "string \<Rightarrow> int option" where
  "atoi s =
     (let (neg, body) = (case s of
            c # r \<Rightarrow> if c = CHR ''-'' then (True, r) else if c = CHR ''+'' then (False, r) else (False, s)
          | [] \<Rightarrow> (False, s))
      in case parse_nat body of
           None \<Rightarrow> None
         | Some n \<Rightarrow> let v = (if neg then - int n else int n) in
             if - (2 ^ 63) \<le> v \<and> v < 2 ^ 63 then Some v else None)"

lemma digit_char_simps:
  assumes "d < 10"
  shows "is_digit (digit_char d)" and "digit_val (digit_char d) = d"
proof -
  have "of_char (digit_char d) = 48 + d"
    using assms by (simp add: digit_char_def of_char_of)
  then show "is_digit (digit_char d)" and "digit_val (digit_char d) = d"
    using assms by (simp_all add: is_digit_def digit_val_def byte_in_def)
qed

lemma show_nat_digits: "list_all is_digit (show_nat n)"
proof (induction n rule: show_nat.induct)
  case (1 n)
  then show ?case
    by (cases "n < 10") (simp_all add: show_nat.simps [of n] digit_char_simps)
qed

lemma is_digit_solid: "is_digit c \<Longrightarrow> solid_char c"
  by (auto simp: is_digit_def byte_in_def solid_char_def ascii_char_def space_seqs_def)

lemma show_nat_not_Nil [simp]: "show_nat n \<noteq> []"
  by (subst show_nat.simps) simp

lemma digits_val_show_nat [simp]: "digits_val (show_nat n) = n"
proof (induction n rule: show_nat.induct)
  case (1 n)
  then show ?case
    by (cases "n < 10") (simp_all add: show_nat.simps [of n] digits_val_def digit_char_simps)
qed

lemma parse_show_nat [gostr, simp]: "parse_nat (show_nat n) = Some n"
  by (simp add: parse_nat_def show_nat_digits)

lemma show_nat_inj: "show_nat m = show_nat n \<longleftrightarrow> m = n"
  by (metis digits_val_show_nat)

lemma is_digit_not_sign: "is_digit c \<Longrightarrow> c \<noteq> CHR ''-'' \<and> c \<noteq> CHR ''+'' \<and> c \<noteq> CHR '':'' \<and> c \<noteq> CHR ''|''"
  by (auto simp: is_digit_def byte_in_def)

lemma show_nat_hd: "\<exists>c r. show_nat n = c # r \<and> is_digit c"
  using show_nat_digits [of n] by (cases "show_nat n") auto

lemma itoa_inj: "itoa i = itoa j \<longleftrightarrow> i = j"
  using show_nat_hd [of "nat i"] show_nat_hd [of "nat j"]
  by (auto simp: itoa_def show_nat_inj dest: is_digit_not_sign)

lemma itoa_chars: "c \<in> set (itoa i) \<Longrightarrow> is_digit c \<or> c = CHR ''-''"
  using show_nat_digits by (auto simp: itoa_def list_all_iff split: if_splits)

lemma itoa_not_Nil [simp]: "itoa i \<noteq> []"
  by (simp add: itoa_def)

lemma itoa_no_colon: "CHR '':'' \<notin> set (itoa i)"
  by (auto dest!: itoa_chars is_digit_not_sign)

lemma atoi_itoa [gostr]: "- (2 ^ 63) \<le> i \<Longrightarrow> i < 2 ^ 63 \<Longrightarrow> atoi (itoa i) = Some i"
proof -
  assume r: "- (2 ^ 63) \<le> i" "i < 2 ^ 63"
  show ?thesis
  proof (cases "i < 0")
    case True
    with r show ?thesis by (simp add: itoa_def atoi_def)
  next
    case False
    obtain c s where s: "show_nat (nat i) = c # s" and d: "is_digit c"
      using show_nat_hd by blast
    have "parse_nat (c # s) = Some (nat i)"
      by (metis parse_show_nat s)
    with False r s is_digit_not_sign [OF d] show ?thesis
      by (simp add: itoa_def atoi_def)
  qed
qed

end
