(* ===== verification/GoNet.thy ===== *)
theory GoNet
  imports GoStrings
begin

text \<open>
  The functions of package \<open>net\<close> the program calls: \<open>JoinHostPort\<close>, \<open>SplitHostPort\<close>,
  \<open>ParseIP\<close> and \<open>IP.IsLoopback\<close>. The callers only look at whether an error came back,
  so an error is \<^const>\<open>None\<close>.
\<close>

section \<open>Host and port\<close>

definition join_host_port :: "string \<Rightarrow> string \<Rightarrow> string" where
  "join_host_port host port =
     (if CHR '':'' \<in> set host then ''['' @ host @ '']:'' @ port else host @ '':'' @ port)"

fun split_last :: "char \<Rightarrow> string \<Rightarrow> (string \<times> string) option" where
  "split_last c [] = None"
| "split_last c (x # xs) =
     (case split_last c xs of
        Some (a, b) \<Rightarrow> Some (x # a, b)
      | None \<Rightarrow> if x = c then Some ([], xs) else None)"

definition split_host_port :: "string \<Rightarrow> (string \<times> string) option" where
  "split_host_port hp =
     (case split_last (CHR '':'') hp of
        None \<Rightarrow> None
      | Some (pre, port) \<Rightarrow>
          (if hd hp = CHR ''['' then
             (case split2 (CHR '']'') hp of
                (_, None) \<Rightarrow> None
              | (x, Some rest) \<Rightarrow>
                  (if Suc (length x) \<noteq> length pre then None
                   else if CHR ''['' \<in> set (tl hp) \<or> CHR '']'' \<in> set rest then None
                   else Some (tl x, port)))
           else if CHR '':'' \<in> set pre then None
           else if CHR ''['' \<in> set hp \<or> CHR '']'' \<in> set hp then None
           else Some (pre, port)))"

lemma split_last_append: "c \<notin> set b \<Longrightarrow> split_last c (a @ c # b) = Some (a, b)"
proof (induction a)
  case Nil
  have "c \<notin> set b \<Longrightarrow> split_last c b = None" by (induction b) auto
  with Nil show ?case by simp
qed simp

lemma split_last_Some: "split_last c s = Some (a, b) \<Longrightarrow> s = a @ c # b \<and> c \<notin> set b"
proof (induction s arbitrary: a)
  case (Cons x xs)
  have none: "split_last c xs = None \<Longrightarrow> c \<notin> set xs" for xs
    by (induction xs) (auto split: option.splits if_splits)
  from Cons show ?case
    by (auto split: option.splits if_splits dest: none)
qed simp

text \<open>What \<open>JoinHostPort\<close> builds, \<open>SplitHostPort\<close> takes apart, IPv6 literals included.\<close>

lemma split_join_host_port:
  assumes host: "CHR ''['' \<notin> set host" "CHR '']'' \<notin> set host"
    and port: "CHR '':'' \<notin> set port" "CHR ''['' \<notin> set port" "CHR '']'' \<notin> set port"
  shows "split_host_port (join_host_port host port) = Some (host, port)"
proof (cases "CHR '':'' \<in> set host")
  case True
  have s: "split_last (CHR '':'') (''['' @ host @ '']:'' @ port) = Some (''['' @ host @ '']'', port)"
    using split_last_append [OF port(1), of "''['' @ host @ '']''"] by simp
  have "split2 (CHR '']'') (''['' @ host @ '']:'' @ port) = (''['' @ host, Some ('':'' @ port))"
    using split2_append [of "CHR '']''" "''['' @ host" "'':'' @ port"] host by simp
  with s True host port show ?thesis
    by (simp add: join_host_port_def split_host_port_def)
next
  case False
  have s: "split_last (CHR '':'') (host @ '':'' @ port) = Some (host, port)"
    using split_last_append [OF port(1), of host] by simp
  have "hd (host @ '':'' @ port) \<noteq> CHR ''[''"
    using host by (cases host) auto
  with s False host port show ?thesis
    by (simp add: join_host_port_def split_host_port_def)
qed

lemma join_host_port_inj:
  assumes "CHR ''['' \<notin> set h" "CHR '']'' \<notin> set h" "CHR ''['' \<notin> set h'" "CHR '']'' \<notin> set h'"
    and "join_host_port h (itoa p) = join_host_port h' (itoa p')"
  shows "h = h' \<and> p = p'"
proof -
  have clean: "CHR '':'' \<notin> set (itoa i)" "CHR ''['' \<notin> set (itoa i)" "CHR '']'' \<notin> set (itoa i)" for i
    by (auto dest!: itoa_chars simp: is_digit_def byte_in_def)
  have "Some (h, itoa p) = Some (h', itoa p')"
    using assms clean by (metis split_join_host_port)
  then show ?thesis by (simp add: itoa_inj)
qed

section \<open>IP addresses\<close>

text \<open>An address is its 16 bytes; an IPv4 address has the mapped prefix, as in package net.\<close>

type_synonym ip = "nat list"

definition parse_octet :: "string \<Rightarrow> nat option" where
  "parse_octet s =
     (if s = [] \<or> \<not> list_all is_digit s \<or> (length s > 1 \<and> hd s = CHR ''0'') \<or> digits_val s > 255
      then None else Some (digits_val s))"

fun option_list :: "'a option list \<Rightarrow> 'a list option" where
  "option_list [] = Some []"
| "option_list (None # xs) = None"
| "option_list (Some x # xs) = map_option (Cons x) (option_list xs)"

definition parse_ipv4 :: "string \<Rightarrow> nat list option" where
  "parse_ipv4 s =
     (let fields = split_char (CHR ''.'') s in
      if length fields = 4 then option_list (map parse_octet fields) else None)"

definition hex_val :: "char \<Rightarrow> nat option" where
  "hex_val c =
     (if byte_in 48 57 c then Some (of_char c - 48)
      else if byte_in 97 102 c then Some (of_char c - 87)
      else if byte_in 65 70 c then Some (of_char c - 55) else None)"

definition is_hex :: "char \<Rightarrow> bool" where
  "is_hex c \<longleftrightarrow> hex_val c \<noteq> None"

definition hex_num :: "string \<Rightarrow> nat" where
  "hex_num s = foldl (\<lambda>n c. 16 * n + (case hex_val c of Some d \<Rightarrow> d | None \<Rightarrow> 0)) 0 s"

text \<open>
  The group loop of \<open>netip.parseIPv6\<close>: the rest of the text, the bytes so far and the place of
  the ellipsis. The loop runs while fewer than 16 bytes are filled, at most eight times.
\<close>

fun v6_groups :: "nat \<Rightarrow> string \<Rightarrow> nat list \<Rightarrow> nat option \<Rightarrow> (string \<times> nat list \<times> nat option) option" where
  "v6_groups 0 s bytes ell = Some (s, bytes, ell)"
| "v6_groups (Suc n) s bytes ell =
     (let h = takeWhile is_hex s; rest = dropWhile is_hex s in
      if h = [] \<or> length h > 4 then None
      else if rest \<noteq> [] \<and> hd rest = CHR ''.'' then
        (if (ell = None \<and> length bytes \<noteq> 12) \<or> length bytes + 4 > 16 then None
         else map_option (\<lambda>v4. ([], bytes @ v4, ell)) (parse_ipv4 s))
      else
        (let bytes' = bytes @ [hex_num h div 256, hex_num h mod 256] in
         case rest of
           [] \<Rightarrow> Some ([], bytes', ell)
         | c # r \<Rightarrow>
             (if c \<noteq> CHR '':'' \<or> r = [] then None
              else if hd r = CHR '':'' then
                (if ell \<noteq> None then None
                 else if tl r = [] then Some ([], bytes', Some (length bytes'))
                 else v6_groups n (tl r) bytes' (Some (length bytes')))
              else v6_groups n r bytes' ell)))"

definition parse_ipv6 :: "string \<Rightarrow> ip option" where
  "parse_ipv6 s =
     (let (ell, body) = (if prefix ''::'' s then (Some 0, drop 2 s) else (None, s)) in
      if ell \<noteq> None \<and> body = [] then Some (replicate 16 0)
      else case v6_groups 8 body [] ell of
        None \<Rightarrow> None
      | Some (rest, bytes, ell') \<Rightarrow>
          (if rest \<noteq> [] then None
           else if length bytes < 16 then
             (case ell' of
                None \<Rightarrow> None
              | Some k \<Rightarrow> Some (take k bytes @ replicate (16 - length bytes) 0 @ drop k bytes))
           else if ell' \<noteq> None then None else Some bytes))"

text \<open>
  \<open>net.ParseIP\<close>: the first of \<open>.\<close>, \<open>:\<close> and \<open>%\<close> in the text decides, and an address with a
  zone is refused.
\<close>

definition parse_ip :: "string \<Rightarrow> ip option" where
  "parse_ip s =
     (case dropWhile (\<lambda>c. c \<notin> {CHR ''.'', CHR '':'', CHR ''%''}) s of
        [] \<Rightarrow> None
      | c # _ \<Rightarrow>
          (if c = CHR ''.'' then map_option (\<lambda>v4. replicate 10 0 @ [255, 255] @ v4) (parse_ipv4 s)
           else if c = CHR '':'' then (if CHR ''%'' \<in> set s then None else parse_ipv6 s)
           else None))"

definition ip_is_loopback :: "ip \<Rightarrow> bool" where
  "ip_is_loopback ip \<longleftrightarrow>
     (if take 12 ip = replicate 10 0 @ [255, 255] then ip ! 12 = 127
      else ip = replicate 15 0 @ [1])"

lemma parse_ip_v4_example:
  "parse_ip ''127.0.0.1'' = Some (replicate 10 0 @ [255, 255, 127, 0, 0, 1])"
  by code_simp

lemma parse_ip_v6_example: "parse_ip ''::1'' = Some (replicate 15 0 @ [1])"
  by code_simp

lemma parse_ip_lan_example:
  "parse_ip ''192.168.1.7'' = Some (replicate 10 0 @ [255, 255, 192, 168, 1, 7])"
  by code_simp

lemma parse_ip_refusals:
  shows "parse_ip ''localhost'' = None" and "parse_ip ''127.0.0.01'' = None"
    and "parse_ip ''fe80::1%en0'' = None"
  by (code_simp, code_simp, code_simp)

lemma parse_ip_zone: "CHR ''%'' \<in> set s \<Longrightarrow> CHR ''.'' \<notin> set s \<Longrightarrow> parse_ip s = None"
  by (auto simp: parse_ip_def split: list.splits dest!: arg_cong [where f = set] dest: set_dropWhileD)

end
