(* ===== verification/GoFloat.thy ===== *)
theory GoFloat
  imports Complex_Main "HOL-Library.Log_Nat"
begin

text \<open>
  What the program uses of \<open>float64\<close>: finite values as the rationals they are, infinities and NaN,
  the operations rounded to 53 significant bits, ties to even. The sign of a zero is not kept and
  the exponent is not bounded: no quantity the program computes comes near either end.
\<close>

section \<open>Rounding\<close>

definition round_even :: "rat \<Rightarrow> int" where
  "round_even x =
     (let f = \<lfloor>x\<rfloor>; d = x - of_int f
      in if d < 1 / 2 then f else if d > 1 / 2 then f + 1 else if even f then f else f + 1)"

definition binade :: "rat \<Rightarrow> int" where
  "binade x =
     (let (p, q) = quotient_of x; e = bitlen p - bitlen q
      in if 2 powi e \<le> x then e else e - 1)"

definition ulp :: "rat \<Rightarrow> rat" where
  "ulp x = 2 powi (binade x - 52)"

definition round_pos :: "rat \<Rightarrow> rat" where
  "round_pos x = of_int (round_even (x / ulp x)) * ulp x"

definition round64 :: "rat \<Rightarrow> rat" where
  "round64 x = (if x = 0 then 0 else if x < 0 then - round_pos (- x) else round_pos x)"

section \<open>Values and operations\<close>

datatype f64 = Fin rat | Inf bool | NaN

definition f64_of_int :: "int \<Rightarrow> f64" where
  "f64_of_int i = Fin (round64 (of_int i))"

fun f64_neg :: "f64 \<Rightarrow> f64" where
  "f64_neg (Fin x) = Fin (- x)"
| "f64_neg (Inf neg) = Inf (\<not> neg)"
| "f64_neg NaN = NaN"

fun f64_add :: "f64 \<Rightarrow> f64 \<Rightarrow> f64" where
  "f64_add (Fin x) (Fin y) = Fin (round64 (x + y))"
| "f64_add NaN _ = NaN"
| "f64_add _ NaN = NaN"
| "f64_add (Inf a) (Inf b) = (if a = b then Inf a else NaN)"
| "f64_add (Inf a) (Fin _) = Inf a"
| "f64_add (Fin _) (Inf b) = Inf b"

definition f64_sub :: "f64 \<Rightarrow> f64 \<Rightarrow> f64" where
  "f64_sub a b = f64_add a (f64_neg b)"

fun f64_mul :: "f64 \<Rightarrow> f64 \<Rightarrow> f64" where
  "f64_mul (Fin x) (Fin y) = Fin (round64 (x * y))"
| "f64_mul NaN _ = NaN"
| "f64_mul _ NaN = NaN"
| "f64_mul (Inf a) (Inf b) = Inf (a \<noteq> b)"
| "f64_mul (Inf a) (Fin y) = (if y = 0 then NaN else Inf (a \<noteq> (y < 0)))"
| "f64_mul (Fin x) (Inf b) = (if x = 0 then NaN else Inf ((x < 0) \<noteq> b))"

text \<open>Division; the divisors of the program are converted integers, so a zero is a positive one.\<close>

fun f64_div :: "f64 \<Rightarrow> f64 \<Rightarrow> f64" where
  "f64_div (Fin x) (Fin y) =
     (if y = 0 then (if x = 0 then NaN else Inf (x < 0)) else Fin (round64 (x / y)))"
| "f64_div NaN _ = NaN"
| "f64_div _ NaN = NaN"
| "f64_div (Inf a) (Inf b) = NaN"
| "f64_div (Inf a) (Fin y) = Inf (a \<noteq> (y < 0))"
| "f64_div (Fin x) (Inf b) = Fin 0"

text \<open>
  Conversion to \<open>int\<close> truncates. Out of range (and for NaN) the language leaves the result to the
  implementation, which is the argument.
\<close>

definition truncate_rat :: "rat \<Rightarrow> int" where
  "truncate_rat x = (if x < 0 then - \<lfloor>- x\<rfloor> else \<lfloor>x\<rfloor>)"

definition f64_to_int :: "(f64 \<Rightarrow> int) \<Rightarrow> f64 \<Rightarrow> int" where
  "f64_to_int impl v =
     (case v of
        Fin x \<Rightarrow> if - (2 ^ 63) \<le> truncate_rat x \<and> truncate_rat x < 2 ^ 63 then truncate_rat x else impl v
      | _ \<Rightarrow> impl v)"

section \<open>Facts about rounding\<close>

lemma floor_bounds: "of_int \<lfloor>x :: rat\<rfloor> \<le> x" "x < of_int \<lfloor>x\<rfloor> + 1"
  using floor_correct [of x] by simp_all

lemma round_even_near: "of_int k \<le> x \<Longrightarrow> k \<le> round_even x" "x \<le> of_int k \<Longrightarrow> round_even x \<le> k"
proof -
  show "k \<le> round_even x" if "of_int k \<le> x"
    using that by (auto simp: round_even_def Let_def le_floor_iff intro: order_trans [of k "\<lfloor>x\<rfloor>"])
  show "round_even x \<le> k" if "x \<le> of_int k"
  proof (cases "x = of_int \<lfloor>x\<rfloor>")
    case True
    then have "round_even x = \<lfloor>x\<rfloor>" by (simp add: round_even_def)
    with that True show ?thesis by (metis floor_of_int floor_mono)
  next
    case False
    with floor_bounds [of x] that have "of_int \<lfloor>x\<rfloor> < (of_int k :: rat)" by linarith
    then have "\<lfloor>x\<rfloor> + 1 \<le> k" by simp
    moreover have "round_even x \<le> \<lfloor>x\<rfloor> + 1" by (simp add: round_even_def Let_def)
    ultimately show ?thesis by linarith
  qed
qed

lemma round_even_mono: "x \<le> y \<Longrightarrow> round_even x \<le> round_even y"
proof (cases "\<lfloor>x\<rfloor> = \<lfloor>y\<rfloor>")
  case True
  then show "x \<le> y \<Longrightarrow> round_even x \<le> round_even y" by (auto simp: round_even_def Let_def)
next
  case False
  assume "x \<le> y"
  with False have "\<lfloor>x\<rfloor> + 1 \<le> \<lfloor>y\<rfloor>" using floor_mono [of x y] by linarith
  then have "of_int (\<lfloor>x\<rfloor> + 1) \<le> y" by (simp add: le_floor_iff)
  moreover have "x \<le> of_int (\<lfloor>x\<rfloor> + 1)" using floor_bounds(2) [of x] by simp
  ultimately show ?thesis using round_even_near by (meson order_trans)
qed

lemma pow2_int: "(2 :: rat) powi int n = of_int (2 ^ n)"
  by (simp add: power_int_def)

lemma bitlen_pow2_bounds:
  assumes "0 < p"
  shows "(2 :: rat) powi (bitlen p - 1) \<le> of_int p" and "of_int p < (2 :: rat) powi bitlen p"
proof -
  have b: "1 \<le> bitlen p" using assms bitlen_eq_zero_iff [of p] bitlen_nonneg [of p] by linarith
  have "of_int (2 ^ nat (bitlen p - 1)) \<le> (of_int p :: rat)" "of_int p < (of_int (2 ^ nat (bitlen p)) :: rat)"
    using bitlen_bounds [OF assms] by (simp_all only: of_int_le_iff of_int_less_iff)
  then show "(2 :: rat) powi (bitlen p - 1) \<le> of_int p" "of_int p < (2 :: rat) powi bitlen p"
    using b by (simp_all add: power_int_def)
qed

lemma binade:
  assumes "0 < x"
  shows "2 powi binade x \<le> x" and "x < 2 powi (binade x + 1)"
proof -
  obtain p q where pq: "quotient_of x = (p, q)" by (cases "quotient_of x")
  have x: "x = of_int p / of_int q" and q: "0 < q"
    using quotient_of_div [OF pq] quotient_of_denom_pos [OF pq] by simp_all
  with assms have p: "0 < p" by (simp add: zero_less_divide_iff)
  define e where "e = bitlen p - bitlen q"
  note bp = bitlen_pow2_bounds [OF p] and bq = bitlen_pow2_bounds [OF q]
  have q': "0 < (of_int q :: rat)" using q by simp
  have lo: "2 powi (e - 1) \<le> x"
  proof -
    have "2 powi (e - 1) * (of_int q :: rat) \<le> 2 powi (e - 1) * 2 powi bitlen q"
      using bq(2) by (intro mult_left_mono) simp_all
    also have "\<dots> = 2 powi (bitlen p - 1)" by (simp add: e_def flip: power_int_add)
    also note bp(1)
    finally show ?thesis by (simp add: x pos_le_divide_eq [OF q'])
  qed
  have hi: "x < 2 powi (e + 1)"
  proof -
    have "of_int p < (2 :: rat) powi bitlen p" by (rule bp(2))
    also have "\<dots> = 2 powi (e + 1) * 2 powi (bitlen q - 1)" by (simp add: e_def flip: power_int_add)
    also have "\<dots> \<le> 2 powi (e + 1) * of_int q"
      using bq(1) by (intro mult_left_mono) simp_all
    finally show ?thesis by (simp add: x pos_divide_less_eq [OF q'])
  qed
  show "2 powi binade x \<le> x" and "x < 2 powi (binade x + 1)"
    using lo hi unfolding binade_def pq Let_def prod.case e_def [symmetric] by simp_all
qed

lemma binade_mono: "0 < x \<Longrightarrow> x \<le> y \<Longrightarrow> binade x \<le> binade y"
proof (rule ccontr)
  assume x: "0 < x" "x \<le> y" and "\<not> binade x \<le> binade y"
  then have "(2 :: rat) powi (binade y + 1) \<le> 2 powi binade x" by (intro power_int_increasing) simp_all
  with binade [of x] binade [of y] x show False by linarith
qed

lemma ulp_pos [simp]: "0 < ulp x"
  by (simp add: ulp_def)

text \<open>
  The numbers of 53 bits, seen from a smaller number: multiples of its unit in the last place.
  Rounding is monotone and keeps them.
\<close>

lemma round_pos_le: "x \<le> of_int k * ulp x \<Longrightarrow> round_pos x \<le> of_int k * ulp x"
  using round_even_near(2) [of "x / ulp x" k] ulp_pos [of x]
  by (simp add: round_pos_def pos_divide_le_eq)

lemma round_pos_ge: "of_int k * ulp x \<le> x \<Longrightarrow> of_int k * ulp x \<le> round_pos x"
  using round_even_near(1) [of k "x / ulp x"] ulp_pos [of x]
  by (simp add: round_pos_def pos_le_divide_eq)

lemma round_pos_binade:
  assumes "0 < x"
  shows "2 powi binade x \<le> round_pos x" and "round_pos x \<le> 2 powi (binade x + 1)"
proof -
  have "2 powi binade x = of_int (2 ^ 52) * ulp x"
    unfolding ulp_def by (simp add: power_int_diff)
  moreover have "2 powi (binade x + 1) = of_int (2 ^ 53) * ulp x"
    unfolding ulp_def by (simp add: power_int_diff power_int_add)
  ultimately show "2 powi binade x \<le> round_pos x" "round_pos x \<le> 2 powi (binade x + 1)"
    using round_pos_ge round_pos_le binade [OF assms] by (metis, metis less_imp_le)
qed

lemma round_pos_mono: "0 < x \<Longrightarrow> x \<le> y \<Longrightarrow> round_pos x \<le> round_pos y"
proof (cases "binade x = binade y")
  case True
  then have "ulp x = ulp y" by (simp add: ulp_def)
  then show "x \<le> y \<Longrightarrow> round_pos x \<le> round_pos y"
    using round_even_mono [of "x / ulp x" "y / ulp y"] ulp_pos [of y]
    by (simp add: round_pos_def divide_right_mono)
next
  case False
  assume xy: "0 < x" "x \<le> y"
  with False binade_mono have "binade x + 1 \<le> binade y" by force
  then have "(2 :: rat) powi (binade x + 1) \<le> 2 powi binade y" by (intro power_int_increasing) simp_all
  with round_pos_binade [of x] round_pos_binade [of y] xy show ?thesis by linarith
qed

lemma round_pos_nonneg: "0 < x \<Longrightarrow> 0 < round_pos x"
  using round_pos_binade(1) [of x] by (meson less_le_trans zero_less_numeral zero_less_power_int)

lemma round64_mono: "x \<le> y \<Longrightarrow> round64 x \<le> round64 y"
  using round_pos_mono [of x y] round_pos_mono [of "- y" "- x"] round_pos_nonneg [of y] round_pos_nonneg [of "- x"]
  by (auto simp: round64_def)

lemma round64_0 [simp]: "round64 0 = 0"
  by (simp add: round64_def)

lemma round64_1 [simp]: "round64 1 = 1"
  by code_simp

lemma round64_pow62: "round64 (2 ^ 62) = 2 ^ 62"
  by code_simp

lemma round64_unit: "0 \<le> x \<Longrightarrow> x \<le> 1 \<Longrightarrow> 0 \<le> round64 x \<and> round64 x \<le> 1"
  using round64_mono [of 0 x] round64_mono [of x 1] by simp

end
