(* ===== verification/GoTime.thy ===== *)
theory GoTime
  imports GoStrings GoFloat
begin

text \<open>
  \<open>time.ParseDuration\<close>: a signed sequence of decimal numbers with units, in \<open>uint64\<close> nanoseconds;
  fractions go through \<open>float64\<close>. \<^const>\<open>None\<close> is the error.
\<close>

section \<open>Numbers\<close>

text \<open>\<open>leadingInt\<close>: digits up to 2^63, and the rest.\<close>

fun leading_int :: "nat \<Rightarrow> string \<Rightarrow> (nat \<times> string) option" where
  "leading_int x [] = Some (x, [])"
| "leading_int x (c # s) =
     (if \<not> is_digit c then Some (x, c # s)
      else if x > 2 ^ 63 div 10 then None
      else let y = x * 10 + digit_val c in if y > 2 ^ 63 then None else leading_int y s)"

text \<open>\<open>leadingFraction\<close>: digits that no longer fit are dropped; the scale counts those kept.\<close>

fun leading_fraction :: "nat \<Rightarrow> nat \<Rightarrow> bool \<Rightarrow> string \<Rightarrow> nat \<times> nat \<times> string" where
  "leading_fraction x scale over [] = (x, scale, [])"
| "leading_fraction x scale over (c # s) =
     (if \<not> is_digit c then (x, scale, c # s)
      else if over \<or> x > (2 ^ 63 - 1) div 10 then leading_fraction x scale True s
      else let y = x * 10 + digit_val c in
        if y > 2 ^ 63 then leading_fraction x scale True s
        else leading_fraction y (scale * 10) False s)"

definition unit_ns :: "string \<Rightarrow> nat option" where
  "unit_ns u = map_of
     [(''ns'', 1), (''us'', 1000), ([CHR 0xC2, CHR 0xB5, CHR ''s''], 1000),
      ([CHR 0xCE, CHR 0xBC, CHR ''s''], 1000), (''ms'', 1000000), (''s'', 1000000000),
      (''m'', 60000000000), (''h'', 3600000000000)] u"

definition unit_char :: "char \<Rightarrow> bool" where
  "unit_char c \<longleftrightarrow> c \<noteq> CHR ''.'' \<and> \<not> is_digit c"

definition fraction_ns :: "nat \<Rightarrow> nat \<Rightarrow> nat \<Rightarrow> nat" where
  "fraction_ns f unit scale =
     (case f64_mul (f64_of_int (int f)) (f64_div (f64_of_int (int unit)) (f64_of_int (int scale))) of
        Fin x \<Rightarrow> nat \<lfloor>x\<rfloor> | _ \<Rightarrow> 0)"

section \<open>The loop\<close>

text \<open>One number with its unit: its nanoseconds and the rest of the input.\<close>

definition duration_item :: "string \<Rightarrow> (nat \<times> string) option" where
  "duration_item s =
     (case s of
        [] \<Rightarrow> None
      | c # _ \<Rightarrow>
        if \<not> (c = CHR ''.'' \<or> is_digit c) then None
        else (case leading_int 0 s of
          None \<Rightarrow> None
        | Some (v, s1) \<Rightarrow>
            let pre = length s1 \<noteq> length s;
                (f, scale, s2, post) =
                  (case s1 of
                     d # r \<Rightarrow> if d = CHR ''.'' then
                         (case leading_fraction 0 1 False r of (f, sc, r') \<Rightarrow> (f, sc, r', length r' \<noteq> length r))
                       else (0, 1, s1, False)
                   | [] \<Rightarrow> (0, 1, s1, False));
                u = takeWhile unit_char s2;
                rest = dropWhile unit_char s2
            in if \<not> pre \<and> \<not> post then None
               else if u = [] then None
               else (case unit_ns u of
                  None \<Rightarrow> None
                | Some unit \<Rightarrow>
                    if v > 2 ^ 63 div unit then None
                    else let w = v * unit + (if f > 0 then fraction_ns f unit scale else 0)
                         in if w > 2 ^ 63 then None else Some (w, rest))))"

lemma leading_int_length: "leading_int x s = Some (v, r) \<Longrightarrow> length r \<le> length s"
proof (induction x s rule: leading_int.induct)
  case (2 x c s)
  then show ?case by (fastforce simp: Let_def split: if_splits)
qed simp

lemma leading_fraction_length: "leading_fraction x sc b s = (f, sc', r) \<Longrightarrow> length r \<le> length s"
proof (induction x sc b s rule: leading_fraction.induct)
  case (2 x sc b c s)
  then show ?case by (fastforce simp: Let_def split: if_splits)
qed simp

lemma takeWhile_shorter: "takeWhile P s \<noteq> [] \<Longrightarrow> length (dropWhile P s) < length s"
  by (cases s) (auto simp: length_dropWhile_le less_Suc_eq_le split: if_splits)

lemma duration_item_shorter: "duration_item s = Some (w, r) \<Longrightarrow> length r < length s"
proof -
  assume item: "duration_item s = Some (w, r)"
  then obtain c t v s1 where s: "s = c # t" "leading_int 0 s = Some (v, s1)"
    by (auto simp: duration_item_def split: list.splits if_splits option.splits)
  define s2 where "s2 = (case s1 of
      d # r \<Rightarrow> if d = CHR ''.'' then snd (snd (leading_fraction 0 1 False r)) else s1 | [] \<Rightarrow> s1)"
  have "takeWhile unit_char s2 \<noteq> [] \<and> r = dropWhile unit_char s2"
    using item s by (auto simp: duration_item_def s2_def Let_def split: list.splits if_splits option.splits prod.splits)
  moreover have "length s2 \<le> length s1"
    using leading_fraction_length by (auto simp: s2_def split: list.split) (metis le_SucI prod.collapse)
  ultimately show ?thesis
    using takeWhile_shorter [of unit_char s2] leading_int_length [OF s(2)] by simp
qed

function duration_items :: "nat \<Rightarrow> string \<Rightarrow> nat option" where
  "duration_items d s =
     (if s = [] then Some d
      else case duration_item s of
        None \<Rightarrow> None
      | Some (w, r) \<Rightarrow>
          let d' = (d + w) mod 2 ^ 64 in if d' > 2 ^ 63 then None else duration_items d' r)"
  by pat_completeness auto
termination
  by (relation "measure (\<lambda>(_, s). length s)") (auto dest: duration_item_shorter)

declare duration_items.simps [simp del]

definition parse_duration :: "string \<Rightarrow> duration option" where
  "parse_duration s0 =
     (let (neg, s) = (case s0 of
            c # r \<Rightarrow> if c = CHR ''-'' then (True, r) else if c = CHR ''+'' then (False, r) else (False, s0)
          | [] \<Rightarrow> (False, s0))
      in if s = ''0'' then Some 0
         else if s = [] then None
         else case duration_items 0 s of
           None \<Rightarrow> None
         | Some d \<Rightarrow>
             if neg then Some (wrap64 (- wrap64 (int d)))
             else if d > 2 ^ 63 - 1 then None else Some (int d))"

section \<open>What it returns\<close>

lemma parse_duration_range:
  assumes "parse_duration s = Some d"
  shows "min_duration \<le> d" and "d \<le> max_duration"
proof -
  have "min_duration \<le> d \<and> d \<le> max_duration"
    using assms
    by (auto simp: parse_duration_def Let_def wrap64_def min_duration_def max_duration_def
        split: list.splits if_splits option.splits)
  then show "min_duration \<le> d" "d \<le> max_duration" by simp_all
qed

lemma leading_int_show:
  assumes "n \<le> 2 ^ 63" and "r = [] \<or> \<not> is_digit (hd r)"
  shows "leading_int 0 (show_nat n @ r) = Some (n, r)"
proof -
  have stop: "leading_int x r = Some (x, r)" for x
    using assms(2) by (cases r) auto
  have step: "leading_int x (ds @ r) = Some (foldl (\<lambda>n c. 10 * n + digit_val c) x ds, r)"
    if "list_all is_digit ds" "foldl (\<lambda>n c. 10 * n + digit_val c) x ds \<le> 2 ^ 63" for x ds
    using that
  proof (induction ds arbitrary: x)
    case (Cons c ds)
    have grow: "y \<le> foldl (\<lambda>n c. 10 * n + digit_val c) y ds" for y ds
      by (induction ds arbitrary: y) (simp, fastforce intro: order_trans [rotated])
    have "10 * x + digit_val c \<le> 2 ^ 63"
      using grow [of "10 * x + digit_val c" ds] Cons.prems(2) by simp
    then show ?case
      using Cons by (simp add: Let_def mult.commute)
  qed (simp add: stop)
  show ?thesis
    using step [of "show_nat n" 0] show_nat_digits [of n] digits_val_show_nat [of n] assms(1)
    by (simp add: digits_val_def)
qed

text \<open>A whole number of a unit, written without a sign, parses to that many of it.\<close>

lemma parse_duration_whole:
  assumes "unit_ns u = Some k" and "0 < k" and "list_all unit_char u" and "n * k < 2 ^ 63" and "u \<noteq> []"
  shows "parse_duration (show_nat n @ u) = Some (int (n * k))"
proof -
  obtain c r where s: "show_nat n = c # r" "is_digit c" using show_nat_hd by blast
  obtain a u' where u: "u = a # u'" using assms(5) by (cases u) auto
  have a: "\<not> is_digit a" "a \<noteq> CHR ''.''" using assms(3) u by (simp_all add: unit_char_def)
  have "n * 1 \<le> n * k" using assms(2) by (intro mult_le_mono2) simp
  then have "n \<le> 2 ^ 63" using assms(4) by linarith
  then have li: "leading_int 0 (c # r @ u) = Some (n, u)"
    using leading_int_show [of n u] s(1) u a by simp
  have tw: "takeWhile unit_char u = u" "dropWhile unit_char u = []"
    using assms(3) by (simp_all add: list_all_iff)
  have "n \<le> 2 ^ 63 div k"
    using assms(2,4) by (simp add: less_eq_div_iff_mult_less_eq)
  then have item: "duration_item (c # r @ u) = Some (n * k, [])"
    using s(2) li tw assms(1,4) a u by (simp add: duration_item_def)
  have "duration_items 0 (c # r @ u) = Some (n * k)"
    using item assms(4) by (simp add: duration_items.simps)
  moreover have "c # r @ u \<noteq> ''0''" using u by (cases r) auto
  moreover have "c \<noteq> CHR ''-''" "c \<noteq> CHR ''+''" using is_digit_not_sign [OF s(2)] by auto
  ultimately show ?thesis
    using assms(4,5) s(1) by (simp add: parse_duration_def)
qed

end
