(* ===== verification/GoJson.thy ===== *)
theory GoJson
  imports GoStrings
begin

text \<open>
  \<open>json.Valid\<close> as the scanner of \<open>encoding/json\<close> decides it: a state machine over the bytes with
  a stack of the open arrays and objects, at most ten thousand deep.
\<close>

datatype frame = Object_key | Object_value | Array_value

datatype scan_state =
    Begin_value | Begin_value_or_empty | Begin_string_or_empty | Begin_string | End_value | End_top
  | In_string | In_escape | In_hex nat
  | Neg | Num0 | Num1 | Dot | Dot0 | Exp | Exp_sign | Exp0
  | Literal string
  | Failed

definition json_space :: "char \<Rightarrow> bool" where
  "json_space c \<longleftrightarrow> c = CHR '' '' \<or> c = CHR 0x09 \<or> c = CHR 0x0A \<or> c = CHR 0x0D"

definition hex_char :: "char \<Rightarrow> bool" where
  "hex_char c \<longleftrightarrow> byte_in 48 57 c \<or> byte_in 97 102 c \<or> byte_in 65 70 c"

definition max_depth :: nat where "max_depth = 10000"

definition push_frame :: "frame \<Rightarrow> scan_state \<Rightarrow> frame list \<Rightarrow> scan_state \<times> frame list" where
  "push_frame f next st = (if length st < max_depth then (next, f # st) else (Failed, st))"

text \<open>After a value: what a byte other than space may do, by the innermost open frame.\<close>

definition pop_frame :: "frame list \<Rightarrow> scan_state \<times> frame list" where
  "pop_frame st = (case st of _ # r \<Rightarrow> (if r = [] then End_top else End_value, r) | [] \<Rightarrow> (Failed, []))"

definition end_value :: "char \<Rightarrow> frame list \<Rightarrow> scan_state \<times> frame list" where
  "end_value c st =
     (case st of
        [] \<Rightarrow> (if json_space c then End_top else Failed, st)
      | f # r \<Rightarrow>
          if json_space c then (End_value, st)
          else (case f of
             Object_key \<Rightarrow> if c = CHR '':'' then (Begin_value, Object_value # r) else (Failed, st)
           | Object_value \<Rightarrow>
               if c = CHR '','' then (Begin_string, Object_key # r)
               else if c = CHR ''}'' then pop_frame st else (Failed, st)
           | Array_value \<Rightarrow>
               if c = CHR '','' then (Begin_value, st)
               else if c = CHR '']'' then pop_frame st else (Failed, st)))"

definition begin_value :: "char \<Rightarrow> frame list \<Rightarrow> scan_state \<times> frame list" where
  "begin_value c st =
     (if json_space c then (Begin_value, st)
      else if c = CHR ''{'' then push_frame Object_key Begin_string_or_empty st
      else if c = CHR ''['' then push_frame Array_value Begin_value_or_empty st
      else if c = CHR 0x22 then (In_string, st)
      else if c = CHR ''-'' then (Neg, st)
      else if c = CHR ''0'' then (Num0, st)
      else if is_digit c then (Num1, st)
      else if c = CHR ''t'' then (Literal ''rue'', st)
      else if c = CHR ''f'' then (Literal ''alse'', st)
      else if c = CHR ''n'' then (Literal ''ull'', st)
      else (Failed, st))"

definition is_exp :: "char \<Rightarrow> bool" where "is_exp c \<longleftrightarrow> c = CHR ''e'' \<or> c = CHR ''E''"

fun scan_byte :: "char \<Rightarrow> scan_state \<times> frame list \<Rightarrow> scan_state \<times> frame list" where
  "scan_byte c (Begin_value, st) = begin_value c st"
| "scan_byte c (Begin_value_or_empty, st) =
     (if json_space c then (Begin_value_or_empty, st)
      else if c = CHR '']'' then end_value c st else begin_value c st)"
| "scan_byte c (Begin_string_or_empty, st) =
     (if json_space c then (Begin_string_or_empty, st)
      else if c = CHR ''}'' then (case st of _ # r \<Rightarrow> end_value c (Object_value # r) | [] \<Rightarrow> (Failed, []))
      else if c = CHR 0x22 then (In_string, st) else (Failed, st))"
| "scan_byte c (Begin_string, st) =
     (if json_space c then (Begin_string, st) else if c = CHR 0x22 then (In_string, st) else (Failed, st))"
| "scan_byte c (End_value, st) = end_value c st"
| "scan_byte c (End_top, st) = (if json_space c then End_top else Failed, st)"
| "scan_byte c (In_string, st) =
     (if c = CHR 0x22 then (End_value, st)
      else if c = CHR 0x5C then (In_escape, st)
      else if byte_in 0 0x1F c then (Failed, st) else (In_string, st))"
| "scan_byte c (In_escape, st) =
     (if c \<in> set [CHR ''b'', CHR ''f'', CHR ''n'', CHR ''r'', CHR ''t'', CHR 0x5C, CHR ''/'', CHR 0x22] then (In_string, st)
      else if c = CHR ''u'' then (In_hex 3, st) else (Failed, st))"
| "scan_byte c (In_hex n, st) =
     (if hex_char c then (if n = 0 then In_string else In_hex (n - 1), st) else (Failed, st))"
| "scan_byte c (Neg, st) =
     (if c = CHR ''0'' then (Num0, st) else if is_digit c then (Num1, st) else (Failed, st))"
| "scan_byte c (Num1, st) =
     (if is_digit c then (Num1, st)
      else if c = CHR ''.'' then (Dot, st) else if is_exp c then (Exp, st) else end_value c st)"
| "scan_byte c (Num0, st) =
     (if c = CHR ''.'' then (Dot, st) else if is_exp c then (Exp, st) else end_value c st)"
| "scan_byte c (Dot, st) = (if is_digit c then (Dot0, st) else (Failed, st))"
| "scan_byte c (Dot0, st) =
     (if is_digit c then (Dot0, st) else if is_exp c then (Exp, st) else end_value c st)"
| "scan_byte c (Exp, st) =
     (if c = CHR ''+'' \<or> c = CHR ''-'' then (Exp_sign, st) else if is_digit c then (Exp0, st) else (Failed, st))"
| "scan_byte c (Exp_sign, st) = (if is_digit c then (Exp0, st) else (Failed, st))"
| "scan_byte c (Exp0, st) = (if is_digit c then (Exp0, st) else end_value c st)"
| "scan_byte c (Literal l, st) =
     (case l of
        [] \<Rightarrow> end_value c st
      | x # l' \<Rightarrow> if c = x then (if l' = [] then End_value else Literal l', st) else (Failed, st))"
| "scan_byte c (Failed, st) = (Failed, st)"

text \<open>At the end of the input the scanner feeds one space and asks whether the top value ended.\<close>

definition json_valid :: "string \<Rightarrow> bool" where
  "json_valid s \<longleftrightarrow> fst (scan_byte CHR '' '' (fold scan_byte s (Begin_value, []))) = End_top"

lemma json_valid_examples:
  "json_valid ''[-0.5e+1, {}]''" "\<not> json_valid ''[1,]''" "\<not> json_valid ''01''"
  by code_simp+

lemma json_valid_not_empty: "\<not> json_valid []"
  by (simp add: json_valid_def begin_value_def json_space_def)

text \<open>Failure is final.\<close>

lemma scan_failed: "fold scan_byte s (Failed, st) = (Failed, st)"
  by (induction s) simp_all

end
