(* ===== verification/GoIo.thy ===== *)
theory GoIo
  imports GoStrings
begin

text \<open>
  What the program reads from the network: bodies under a limit, and lines as \<open>bufio\<close> scans them.
\<close>

section \<open>Limited bodies\<close>

text \<open>
  An HTTP response: its status code, the bytes the body delivers, and the error it then breaks
  with, if any. Behind \<open>io.LimitReader\<close> at most \<open>limit\<close> bytes are read, so a later break is not
  seen.
\<close>

record http_response =
  hr_code :: int
  hr_body :: string
  hr_broken :: "string option"

definition limited :: "nat \<Rightarrow> http_response \<Rightarrow> string \<times> string option" where
  "limited limit r = (take limit (hr_body r), if length (hr_body r) < limit then hr_broken r else None)"

lemma limited_length: "length (fst (limited limit r)) \<le> limit"
  by (simp add: limited_def)

section \<open>Lines\<close>

text \<open>\<open>bufio.ScanLines\<close>: lines without their line break and one carriage return before it.\<close>

definition drop_cr :: "string \<Rightarrow> string" where
  "drop_cr s = (if s \<noteq> [] \<and> last s = CHR 0x0D then butlast s else s)"

definition scan_lines :: "string \<Rightarrow> string list" where
  "scan_lines s =
     (let ls = split_char (CHR 0x0A) s
      in map drop_cr (if last ls = [] then butlast ls else ls))"

lemma split_lines: "\<forall>l \<in> set xs. c \<notin> set l \<Longrightarrow> split_char c (concat (map (\<lambda>l. l @ [c]) xs) @ rest) = xs @ split_char c rest"
  by (induction xs) (simp_all add: split_char_append)

lemma scan_lines_prefix:
  assumes "split_char (CHR 0x0A) s = xs @ w" and "w \<noteq> []"
  obtains ts where "scan_lines s = map drop_cr xs @ ts"
proof
  show "scan_lines s = map drop_cr xs @ map drop_cr (if last w = [] then butlast w else w)"
    using assms by (simp add: scan_lines_def butlast_append)
qed

end
