(* ===== verification/Cache.thy ===== *)
theory Cache
  imports Prelude
begin

text \<open>
  The cache three components share: a value served while it is younger than its lifetime, and
  fetched again otherwise. \<open>get now finish r s\<close> is a request at time \<open>now\<close> that, if it fetches,
  gets \<open>r\<close> at time \<open>finish\<close>; \<open>born\<close> is the time its age is counted from.
\<close>

fun cache_run :: "(time \<Rightarrow> time \<Rightarrow> 'r \<Rightarrow> 's \<Rightarrow> 's \<times> 'o) \<Rightarrow> (time \<times> time \<times> 'r) list \<Rightarrow> 's \<Rightarrow> 'o list" where
  "cache_run get [] s = []"
| "cache_run get ((now, finish, r) # qs) s = (case get now finish r s of (s', out) \<Rightarrow> out # cache_run get qs s')"

lemma cache_run_length [simp]: "length (cache_run get qs s) = length qs"
  by (induction get qs s rule: cache_run.induct) (auto split: prod.split)

locale ttl_cache =
  fixes get :: "time \<Rightarrow> time \<Rightarrow> ('e + 'v) \<Rightarrow> 's \<Rightarrow> 's \<times> ('e + 'v)"
    and slot :: "'s \<Rightarrow> ('v \<times> time) option"
    and ttl :: "'s \<Rightarrow> duration"
    and born :: "time \<Rightarrow> 'v \<Rightarrow> time"
    and ok :: "'s \<Rightarrow> bool"
  assumes hit: "ok s \<Longrightarrow> slot s = Some (v, at) \<Longrightarrow> time_sub now at < ttl s \<Longrightarrow> get now finish r s = (s, Inr v)"
    and fill: "ok s \<Longrightarrow> \<forall>v at. slot s = Some (v, at) \<longrightarrow> ttl s \<le> time_sub now at \<Longrightarrow>
      snd (get now finish (Inr w) s) = Inr w \<and> slot (fst (get now finish (Inr w) s)) = Some (w, born finish w)
      \<and> ttl (fst (get now finish (Inr w) s)) = ttl s \<and> ok (fst (get now finish (Inr w) s))"
    and fail: "ok s \<Longrightarrow> \<forall>v at. slot s = Some (v, at) \<longrightarrow> ttl s \<le> time_sub now at \<Longrightarrow>
      get now finish (Inl e) s = (s, Inl e)"
begin

lemma get_cases:
  assumes "ok s"
  obtains (served) v at where "slot s = Some (v, at)" "time_sub now at < ttl s" "get now finish r s = (s, Inr v)"
  | (fetched) w s' where "r = Inr w" "get now finish r s = (s', Inr w)" "slot s' = Some (w, born finish w)" "ttl s' = ttl s" "ok s'"
  | (failed) e where "r = Inl e" "get now finish r s = (s, Inl e)"
proof (cases "\<forall>v at. slot s = Some (v, at) \<longrightarrow> ttl s \<le> time_sub now at")
  case True
  show thesis
  proof (cases r)
    case (Inl e)
    with fail [OF assms True] show thesis by (intro that(3)) simp_all
  next
    case (Inr w)
    with fill [OF assms True, of finish w] show thesis
      by (intro that(2) [of w "fst (get now finish r s)"]) (simp_all add: prod_eq_iff)
  qed
next
  case False
  then obtain v at where "slot s = Some (v, at)" "time_sub now at < ttl s" by (auto simp: not_le)
  with hit [OF assms] show thesis by (intro that(1)) simp_all
qed

text \<open>While the cached value lives, every request gets it, whatever the source would answer.\<close>

lemma sheltered:
  "ok s \<Longrightarrow> slot s = Some (v, at) \<Longrightarrow> \<forall>q \<in> set qs. time_sub (fst q) at < ttl s \<Longrightarrow>
   cache_run get qs s = replicate (length qs) (Inr v)"
  by (induction qs) (auto simp: hit split: prod.split)

text \<open>No served value is older than the lifetime: it was just fetched or completed recently.\<close>

lemma served_recent_from:
  "ok s \<Longrightarrow> i < length qs \<Longrightarrow> cache_run get qs s ! i = Inr v \<Longrightarrow>
   (\<exists>at. slot s = Some (v, at) \<and> time_sub (fst (qs ! i)) at < ttl s)
   \<or> (\<exists>j \<le> i. snd (snd (qs ! j)) = Inr v \<and> (j = i \<or> time_sub (fst (qs ! i)) (born (fst (snd (qs ! j))) v) < ttl s))"
proof (induction qs arbitrary: s i)
  case (Cons q qs)
  obtain now finish r where q: "q = (now, finish, r)" by (cases q)
  show ?case
    using Cons.prems(1)
  proof (cases rule: get_cases [where now = now and finish = finish and r = r])
    case (served w at)
    show ?thesis
    proof (cases i)
      case (Suc k)
      then show ?thesis using Cons.IH [of s k] Cons.prems served q by fastforce
    qed (use Cons.prems served q in auto)
  next
    case (fetched w s')
    show ?thesis
    proof (cases i)
      case 0
      then show ?thesis using Cons.prems fetched q by auto
    next
      case (Suc k)
      then consider (slot) "v = w" "time_sub (fst (qs ! k)) (born finish w) < ttl s"
        | (later) j where "j \<le> k" "snd (snd (qs ! j)) = Inr v"
            "j = k \<or> time_sub (fst (qs ! k)) (born (fst (snd (qs ! j))) v) < ttl s"
        using Cons.IH [of s' k] Cons.prems fetched q by auto
      then show ?thesis
      proof cases
        case slot
        then show ?thesis using Suc fetched(1) q by (intro disjI2 exI [of _ 0]) simp
      next
        case (later j)
        then show ?thesis using Suc by (intro disjI2 exI [of _ "Suc j"]) simp
      qed
    qed
  next
    case (failed e)
    show ?thesis
    proof (cases i)
      case (Suc k)
      then show ?thesis using Cons.IH [of s k] Cons.prems failed q by fastforce
    qed (use Cons.prems failed q in auto)
  qed
qed simp

lemma served_recent:
  assumes "ok s" and "slot s = None" and "i < length qs" and "cache_run get qs s ! i = Inr v"
  shows "\<exists>j \<le> i. snd (snd (qs ! j)) = Inr v \<and> (j = i \<or> time_sub (fst (qs ! i)) (born (fst (snd (qs ! j))) v) < ttl s)"
  using served_recent_from [OF assms(1,3,4)] assms(2) by simp

end

end
