(* ===== verification/Mdns.thy ===== *)
theory Mdns
  imports GoNet
begin

text \<open>
  Package \<open>internal/mdns\<close>: service records, the endpoint fold, the browser's record table with
  its liveness expiry, and the advertiser's pure parts. The callbacks \<open>OnChange\<close> and
  \<open>OnRemove\<close> are outputs: an operation returns the services it reports, in order, and the
  theory \<open>Discovery\<close> connects them to the channel-source registry.
\<close>

section \<open>Records, identities, endpoints\<close>

definition smoke_alarm_type :: string where
  "smoke_alarm_type = ''_smoke-alarm._tcp''"

definition default_browse_window :: duration where "default_browse_window = 5 * second"
definition liveness_window :: duration where "liveness_window = 3 * second"
definition min_expiry :: duration where "min_expiry = 60 * second"

record service =
  sv_name :: string
  sv_type :: string
  sv_host :: string
  sv_port :: int
  sv_txt :: "(string, string) gomap"
  sv_discovered_at :: time
  sv_last_seen :: time

record identity =
  id_type :: string
  id_instance :: string
  id_role :: string
  id_rung :: int

record endpoint =
  ep_host :: string
  ep_port :: int
  ep_types :: "string list"
  ep_identities :: "identity list"
  ep_services :: "service list"
  ep_discovered_at :: time
  ep_last_seen :: time

definition service_endpoint :: "service \<Rightarrow> string" where
  "service_endpoint s = ''http://'' @ join_host_port (sv_host s) (itoa (sv_port s))"

definition instance_suffix :: "string \<Rightarrow> string" where
  "instance_suffix t = ''.'' @ trim_suffix ''.'' t @ ''.''"

definition service_instance :: "service \<Rightarrow> string" where
  "service_instance s =
     (if sv_type s \<noteq> [] then
        (case str_index (to_lower (instance_suffix (sv_type s))) (to_lower (sv_name s)) of
           Some i \<Rightarrow> if i > 0 then take i (sv_name s) else sv_name s
         | None \<Rightarrow> sv_name s)
      else sv_name s)"

definition service_identity :: "service \<Rightarrow> identity option" where
  "service_identity s =
     (let role = gm_get (sv_txt s) ''role'';
          rung = (case gm_get (sv_txt s) ''trust_rung'' of
                    Some raw \<Rightarrow> atoi (trim_space raw)
                  | None \<Rightarrow> None)
      in if role = None \<and> rung = None then None
         else Some \<lparr>id_type = sv_type s, id_instance = service_instance s,
                    id_role = (case role of Some r \<Rightarrow> r | None \<Rightarrow> []),
                    id_rung = (case rung of Some r \<Rightarrow> r | None \<Rightarrow> 0)\<rparr>)"

definition endpoint_url :: "endpoint \<Rightarrow> string" where
  "endpoint_url e = ''http://'' @ join_host_port (ep_host e) (itoa (ep_port e))"

definition addr_key :: "string \<Rightarrow> int \<Rightarrow> string" where
  "addr_key host port = host @ '':'' @ itoa port"

definition record_key :: "service \<Rightarrow> string" where
  "record_key s = sv_type s @ ''|'' @ sv_name s @ ''|'' @ addr_key (sv_host s) (sv_port s)"

section \<open>Folding records into endpoints\<close>

definition record_less :: "service \<Rightarrow> service \<Rightarrow> bool" where
  "record_less a b =
     (if sv_host a \<noteq> sv_host b then sv_host a < sv_host b
      else if sv_port a \<noteq> sv_port b then sv_port a < sv_port b
      else if sv_type a \<noteq> sv_type b then sv_type a < sv_type b
      else sv_name a < sv_name b)"

definition append_new :: "'a list \<Rightarrow> 'a \<Rightarrow> 'a list" where
  "append_new xs x = (if x \<in> set xs then xs else xs @ [x])"

text \<open>
  One round of the loop. The source keeps the endpoints behind pointers shared by the map
  \<open>byAddr\<close> and the slice \<open>order\<close>; the association list is both: updating a known key
  changes the entry in place, a new key is appended.
\<close>

definition new_endpoint :: "service \<Rightarrow> endpoint" where
  "new_endpoint svc =
     \<lparr>ep_host = sv_host svc, ep_port = sv_port svc, ep_types = [], ep_identities = [],
      ep_services = [], ep_discovered_at = sv_discovered_at svc, ep_last_seen = zero_time\<rparr>"

definition absorb_record :: "service \<Rightarrow> endpoint \<Rightarrow> endpoint" where
  "absorb_record svc ep =
     (let ep = (if sv_discovered_at svc < ep_discovered_at ep
                then ep\<lparr>ep_discovered_at := sv_discovered_at svc\<rparr> else ep);
          ep = (if ep_last_seen ep < sv_last_seen svc
                then ep\<lparr>ep_last_seen := sv_last_seen svc\<rparr> else ep);
          ep = ep\<lparr>ep_types := append_new (ep_types ep) (sv_type svc)\<rparr>;
          ep = ep\<lparr>ep_services := ep_services ep @ [svc]\<rparr>
      in case service_identity svc of
           Some i \<Rightarrow> ep\<lparr>ep_identities := append_new (ep_identities ep) i\<rparr>
         | None \<Rightarrow> ep)"

definition fold_record :: "service \<Rightarrow> (string, endpoint) gomap \<Rightarrow> (string, endpoint) gomap" where
  "fold_record svc by_addr =
     (let addr = addr_key (sv_host svc) (sv_port svc);
          ep = (case gm_get by_addr addr of Some e \<Rightarrow> e | None \<Rightarrow> new_endpoint svc)
      in gm_put addr (absorb_record svc ep) by_addr)"

definition fold_endpoints :: "(string, service) gomap \<Rightarrow> endpoint list" where
  "fold_endpoints records = map snd (fold fold_record (sort_slice record_less (map snd records)) [])"

section \<open>The browser\<close>

record browser =
  br_types :: "string list"
  br_domains :: "string list"
  br_interval :: duration
  br_window :: duration
  br_quiet :: bool
  br_services :: "(string, service) gomap"
  br_has_on_change :: bool
  br_has_on_remove :: bool
  br_expiry :: duration

record browser_options =
  bo_types :: "string list"
  bo_domains :: "string list"
  bo_interval :: duration
  bo_on_change :: bool
  bo_on_remove :: bool
  bo_quiet :: bool

definition default_expiry :: "duration \<Rightarrow> duration" where
  "default_expiry interval =
     (let expiry = wrap64 (2 * interval) in if expiry < min_expiry then min_expiry else expiry)"

definition new_browser :: "browser_options \<Rightarrow> browser" where
  "new_browser opts =
     (let domains = (if bo_domains opts = [] then [''local''] else bo_domains opts);
          interval = (if bo_interval opts \<le> 0 then 30 * second else bo_interval opts)
      in \<lparr>br_types = bo_types opts, br_domains = domains, br_interval = interval,
          br_window = default_browse_window, br_quiet = bo_quiet opts, br_services = [],
          br_has_on_change = bo_on_change opts, br_has_on_remove = bo_on_remove opts,
          br_expiry = default_expiry interval\<rparr>)"

definition expiry_age_check :: "browser \<Rightarrow> duration" where
  "expiry_age_check b = (let check = br_expiry b div 2 in if check < second then second else check)"

definition services :: "browser \<Rightarrow> service list" where
  "services b = map snd (br_services b)"

definition services_by_type :: "browser \<Rightarrow> string \<Rightarrow> service list" where
  "services_by_type b t = filter (\<lambda>s. sv_type s = t) (map snd (br_services b))"

definition endpoints :: "browser \<Rightarrow> endpoint list" where
  "endpoints b = fold_endpoints (br_services b)"

definition endpoints_by_type :: "browser \<Rightarrow> string \<Rightarrow> endpoint list" where
  "endpoints_by_type b t = fold_endpoints (filter (\<lambda>(_, s). sv_type s = t) (br_services b))"

text \<open>
  The window of one liveness refresh: the shorter of the liveness window and the browse window.
\<close>

definition refresh_window :: "browser \<Rightarrow> duration" where
  "refresh_window b =
     (if br_window b > 0 \<and> br_window b < liveness_window then br_window b else liveness_window)"

text \<open>
  \<open>addService\<close> reads the clock twice: \<open>seen\<close> stamps \<open>LastSeen\<close>, \<open>found_at\<close> stamps
  \<open>DiscoveredAt\<close> of a new record. The second result is the argument of \<open>OnChange\<close>, when called.
\<close>

definition add_service :: "time \<Rightarrow> time \<Rightarrow> service \<Rightarrow> browser \<Rightarrow> browser \<times> service option" where
  "add_service seen found_at svc b =
     (let key = record_key svc;
          existing = gm_get (br_services b) key;
          svc = svc\<lparr>sv_last_seen := seen,
                    sv_discovered_at := (case existing of Some e \<Rightarrow> sv_discovered_at e | None \<Rightarrow> found_at)\<rparr>
      in (b\<lparr>br_services := gm_put key svc (br_services b)\<rparr>,
          if existing = None \<and> br_has_on_change b then Some svc else None))"

definition is_departed :: "time \<Rightarrow> duration \<Rightarrow> service \<Rightarrow> bool" where
  "is_departed now expiry svc \<longleftrightarrow> time_sub now (sv_last_seen svc) \<ge> expiry"

definition departed_less :: "service \<Rightarrow> service \<Rightarrow> bool" where
  "departed_less a b \<longleftrightarrow> record_key a < record_key b"

definition effective_expiry :: "browser \<Rightarrow> duration" where
  "effective_expiry b = (if br_expiry b \<le> 0 then min_expiry else br_expiry b)"

definition expire :: "time \<Rightarrow> browser \<Rightarrow> browser \<times> service list" where
  "expire now b =
     (let gone = (\<lambda>(_, svc). is_departed now (effective_expiry b) svc);
          departed = sort_slice departed_less (map snd (filter gone (br_services b)))
      in (b\<lparr>br_services := filter (\<lambda>e. \<not> gone e) (br_services b)\<rparr>,
          if br_has_on_remove b then departed else []))"

section \<open>What the resolver delivers\<close>

text \<open>A resolved entry of the zeroconf package, its addresses already printed.\<close>

record zeroconf_entry =
  ze_instance_name :: string
  ze_host_name :: string
  ze_ipv4 :: "string list"
  ze_ipv6 :: "string list"
  ze_port :: int
  ze_text :: "string list"

definition parse_txt :: "string list \<Rightarrow> (string, string) gomap" where
  "parse_txt records =
     fold (\<lambda>r m. case split2 (CHR ''='') r of
                   (k, Some v) \<Rightarrow> gm_put k v m
                 | (k, None) \<Rightarrow> if k \<noteq> [] then gm_put k [] m else m) records []"

definition service_of_entry :: "string \<Rightarrow> zeroconf_entry \<Rightarrow> service" where
  "service_of_entry t e =
     \<lparr>sv_name = ze_instance_name e, sv_type = t,
      sv_host = (case ze_ipv4 e of a # _ \<Rightarrow> a | [] \<Rightarrow> (case ze_ipv6 e of a # _ \<Rightarrow> a | [] \<Rightarrow> ze_host_name e)),
      sv_port = ze_port e, sv_txt = parse_txt (ze_text e),
      sv_discovered_at = zero_time, sv_last_seen = zero_time\<rparr>"

section \<open>The advertiser\<close>

record advertiser =
  ad_name :: string
  ad_type :: string
  ad_domain :: string
  ad_port :: int
  ad_txt :: "(string, string) gomap"

definition new_advertiser :: "advertiser \<Rightarrow> advertiser" where
  "new_advertiser opts =
     (if ad_domain opts = [] then opts\<lparr>ad_domain := ''local.''\<rparr>
      else if \<not> suffix ''.'' (ad_domain opts) then opts\<lparr>ad_domain := ad_domain opts @ ''.''\<rparr>
      else opts)"

definition parse_port :: "string \<Rightarrow> int" where
  "parse_port addr =
     (case split_host_port addr of
        None \<Rightarrow> 0
      | Some (_, port) \<Rightarrow> (case atoi port of None \<Rightarrow> 0 | Some p \<Rightarrow> p))"

definition service_id :: "advertiser \<Rightarrow> string" where
  "service_id a = ad_type a @ ''.'' @ ad_domain a @ '':'' @ itoa (ad_port a)"

definition format_txt :: "(string, string) gomap \<Rightarrow> string list" where
  "format_txt m = map (\<lambda>(k, v). k @ ''='' @ v) m"

text \<open>Records and a browser for the witnesses: smoke-alarm instances at one host.\<close>

definition sample_alarm :: "string \<Rightarrow> int \<Rightarrow> service" where
  "sample_alarm label port =
     \<lparr>sv_name = label @ ''._smoke-alarm._tcp.local.'', sv_type = smoke_alarm_type, sv_host = ''10.0.0.5'',
      sv_port = port, sv_txt = [], sv_discovered_at = 0, sv_last_seen = 0\<rparr>"

definition sample_browser :: browser where
  "sample_browser =
     new_browser \<lparr>bo_types = [smoke_alarm_type], bo_domains = [], bo_interval = 30 * second,
       bo_on_change = True, bo_on_remove = True, bo_quiet = True\<rparr>"

section \<open>Addresses and record keys\<close>

lemma addr_key_inj: "addr_key h p = addr_key h' p' \<longleftrightarrow> h = h' \<and> p = p'"
proof
  assume "addr_key h p = addr_key h' p'"
  then have "Some (h, itoa p) = Some (h', itoa p')"
    unfolding addr_key_def append_Cons append_Nil
    by (metis itoa_no_colon split_last_append)
  then show "h = h' \<and> p = p'" by (simp add: itoa_inj)
qed simp

lemma addr_key_no_bar: "CHR ''|'' \<notin> set h \<Longrightarrow> CHR ''|'' \<notin> set (addr_key h p)"
  by (auto simp: addr_key_def dest!: itoa_chars is_digit_not_sign)

lemma record_key_parts:
  assumes "CHR ''|'' \<notin> set (sv_type s)" and "CHR ''|'' \<notin> set (sv_host s)"
  shows "map_option (split_last (CHR ''|'')) (snd (split2 (CHR ''|'') (record_key s)))
         = Some (Some (sv_name s, addr_key (sv_host s) (sv_port s)))"
    and "fst (split2 (CHR ''|'') (record_key s)) = sv_type s"
proof -
  have eq: "split2 (CHR ''|'') (record_key s) =
      (sv_type s, Some (sv_name s @ ''|'' @ addr_key (sv_host s) (sv_port s)))"
    using split2_append [OF assms(1)] by (simp add: record_key_def)
  then show "fst (split2 (CHR ''|'') (record_key s)) = sv_type s" by simp
  show "map_option (split_last (CHR ''|'')) (snd (split2 (CHR ''|'') (record_key s)))
      = Some (Some (sv_name s, addr_key (sv_host s) (sv_port s)))"
    using eq split_last_append [OF addr_key_no_bar [OF assms(2)]] by simp
qed

lemma record_key_fields:
  assumes "CHR ''|'' \<notin> set (sv_type a)" and "CHR ''|'' \<notin> set (sv_host a)"
    and "CHR ''|'' \<notin> set (sv_type b)" and "CHR ''|'' \<notin> set (sv_host b)"
    and "record_key a = record_key b"
  shows "sv_type a = sv_type b" and "sv_name a = sv_name b"
    and "sv_host a = sv_host b" and "sv_port a = sv_port b"
proof -
  have "addr_key (sv_host a) (sv_port a) = addr_key (sv_host b) (sv_port b) \<and> sv_name a = sv_name b"
    using record_key_parts(1) [OF assms(1,2)] record_key_parts(1) [OF assms(3,4)] assms(5) by simp
  then show "sv_name a = sv_name b" and "sv_host a = sv_host b" and "sv_port a = sv_port b"
    by (simp_all add: addr_key_inj)
  show "sv_type a = sv_type b"
    using record_key_parts(2) [OF assms(1,2)] record_key_parts(2) [OF assms(3,4)] assms(5) by simp
qed

text \<open>The key of a record separates records: two records whose service type and host hold no
  bar have the same \<open>recordKey\<close> only if type, name, host and port agree, whatever the
  instance name contains.\<close>

theorem record_key_inj:
  assumes "CHR ''|'' \<notin> set (sv_type a)" and "CHR ''|'' \<notin> set (sv_host a)"
    and "CHR ''|'' \<notin> set (sv_type b)" and "CHR ''|'' \<notin> set (sv_host b)"
  shows "record_key a = record_key b \<longleftrightarrow>
    (sv_type a, sv_name a, sv_host a, sv_port a) = (sv_type b, sv_name b, sv_host b, sv_port b)"
proof
  assume "record_key a = record_key b"
  from record_key_fields [OF assms this]
  show "(sv_type a, sv_name a, sv_host a, sv_port a) = (sv_type b, sv_name b, sv_host b, sv_port b)"
    by simp
qed (simp add: record_key_def)

theorem record_key_inj_witness:
  "record_key (sample_alarm ''a|b'' 80) \<noteq> record_key (sample_alarm ''a'' 80)"
  using record_key_inj [of "sample_alarm ''a|b'' 80" "sample_alarm ''a'' 80"]
  by (simp add: sample_alarm_def smoke_alarm_type_def)

lemma service_stamps [simp]:
  "service_instance (s\<lparr>sv_last_seen := t\<rparr>) = service_instance s"
  "service_instance (s\<lparr>sv_discovered_at := t\<rparr>) = service_instance s"
  "service_endpoint (s\<lparr>sv_last_seen := t\<rparr>) = service_endpoint s"
  "service_endpoint (s\<lparr>sv_discovered_at := t\<rparr>) = service_endpoint s"
  by (simp_all add: service_instance_def service_endpoint_def split: option.split)

section \<open>The comparisons\<close>

interpretation rec_order: keyed_order record_less "\<lambda>s. (sv_host s, sv_port s, sv_type s, sv_name s)"
  by unfold_locales (auto simp: record_less_def less_prod_def)

interpretation dep_order: keyed_order departed_less record_key
  by unfold_locales (simp add: departed_less_def)

lemma filter_sorted_records:
  "filter P (sort_slice record_less xs) = sort_slice record_less (filter P xs)"
  by (simp add: rec_order.sort_slice_sort_key filter_sort)

section \<open>The endpoint fold\<close>

lemma absorb_record_fields [simp]:
  "ep_host (absorb_record s e) = ep_host e"
  "ep_port (absorb_record s e) = ep_port e"
  "ep_types (absorb_record s e) = append_new (ep_types e) (sv_type s)"
  "ep_services (absorb_record s e) = ep_services e @ [s]"
  "ep_identities (absorb_record s e) =
     (case service_identity s of Some i \<Rightarrow> append_new (ep_identities e) i | None \<Rightarrow> ep_identities e)"
  "ep_discovered_at (absorb_record s e) = min (ep_discovered_at e) (sv_discovered_at s)"
  "ep_last_seen (absorb_record s e) = max (ep_last_seen e) (sv_last_seen s)"
  by (auto simp: absorb_record_def Let_def min_def max_def split: option.splits)

lemma append_new_set [simp]: "set (append_new xs x) = insert x (set xs)"
  by (auto simp: append_new_def)

lemma append_new_distinct [simp]: "distinct xs \<Longrightarrow> distinct (append_new xs x)"
  by (simp add: append_new_def)

text \<open>What it is for an endpoint to summarise the records \<open>xs\<close> at its address.\<close>

definition endpoint_of :: "service list \<Rightarrow> endpoint \<Rightarrow> bool" where
  "endpoint_of xs e \<longleftrightarrow>
     ep_services e = filter (\<lambda>s. sv_host s = ep_host e \<and> sv_port s = ep_port e) xs
     \<and> ep_services e \<noteq> []
     \<and> distinct (ep_types e) \<and> set (ep_types e) = sv_type ` set (ep_services e)
     \<and> distinct (ep_identities e)
     \<and> Some ` set (ep_identities e) = service_identity ` set (ep_services e) - {None}
     \<and> ep_discovered_at e = Min (sv_discovered_at ` set (ep_services e))
     \<and> ep_last_seen e = Max (insert zero_time (sv_last_seen ` set (ep_services e)))"

definition table_of :: "service list \<Rightarrow> (string, endpoint) gomap \<Rightarrow> bool" where
  "table_of xs m \<longleftrightarrow> gm_wf m
     \<and> (\<forall>a e. gm_get m a = Some e \<longrightarrow> a = addr_key (ep_host e) (ep_port e) \<and> endpoint_of xs e)
     \<and> (\<forall>s \<in> set xs. gm_get m (addr_key (sv_host s) (sv_port s)) \<noteq> None)"

lemma endpoint_of_absorb:
  assumes e: "endpoint_of xs e" and addr: "ep_host e = sv_host s" "ep_port e = sv_port s"
  shows "endpoint_of (xs @ [s]) (absorb_record s e)"
proof -
  let ?T = "set (ep_services e)"
  have "ep_services e \<noteq> []" and H: "Some ` set (ep_identities e) = service_identity ` ?T - {None}"
    and ds: "distinct (ep_identities e)"
    using e unfolding endpoint_of_def by blast+
  then have ne: "?T \<noteq> {}" by simp
  have "Min (insert (sv_discovered_at s) (sv_discovered_at ` ?T)) = min (ep_discovered_at e) (sv_discovered_at s)"
    using e ne by (simp add: endpoint_of_def min.commute)
  moreover have "insert zero_time (insert (sv_last_seen s) (sv_last_seen ` ?T))
      = insert (sv_last_seen s) (insert zero_time (sv_last_seen ` ?T))" by blast
  then have "Max (insert zero_time (insert (sv_last_seen s) (sv_last_seen ` ?T))) = max (ep_last_seen e) (sv_last_seen s)"
    using e by (simp add: endpoint_of_def max.commute)
  moreover have "distinct (ep_identities (absorb_record s e))
      \<and> Some ` set (ep_identities (absorb_record s e)) = insert (service_identity s) (service_identity ` ?T) - {None}"
    using ds by (cases "service_identity s") (simp_all add: insert_Diff_if H)
  ultimately show ?thesis
    using e addr unfolding endpoint_of_def by (simp add: append_new_set)
qed

lemma endpoint_of_new:
  assumes "filter (\<lambda>t. sv_host t = sv_host s \<and> sv_port t = sv_port s) xs = []"
  shows "endpoint_of (xs @ [s]) (absorb_record s (new_endpoint s))"
  using assms unfolding endpoint_of_def
  by (auto simp: new_endpoint_def append_new_def split: option.splits)

lemma endpoint_of_other:
  assumes "endpoint_of xs e" and "addr_key (ep_host e) (ep_port e) \<noteq> addr_key (sv_host s) (sv_port s)"
  shows "endpoint_of (xs @ [s]) e"
  using assms unfolding endpoint_of_def addr_key_inj by auto

lemma table_of_step:
  assumes "table_of xs m"
  shows "table_of (xs @ [s]) (fold_record s m)"
proof -
  let ?a = "addr_key (sv_host s) (sv_port s)"
  let ?e = "case gm_get m ?a of Some e \<Rightarrow> e | None \<Rightarrow> new_endpoint s"
  have new: "endpoint_of (xs @ [s]) (absorb_record s ?e) \<and> ep_host ?e = sv_host s \<and> ep_port ?e = sv_port s"
  proof (cases "gm_get m ?a")
    case None
    with assms have "filter (\<lambda>t. sv_host t = sv_host s \<and> sv_port t = sv_port s) xs = []"
      by (auto simp: table_of_def filter_empty_conv)
    with None show ?thesis
      using endpoint_of_new [of s xs] by (simp add: new_endpoint_def)
  next
    case (Some e)
    with assms have "?a = addr_key (ep_host e) (ep_port e)" and "endpoint_of xs e"
      by (auto simp: table_of_def)
    with Some show ?thesis by (simp add: addr_key_inj endpoint_of_absorb)
  qed
  have wf: "gm_wf (fold_record s m)"
    using assms by (simp add: table_of_def fold_record_def Let_def distinct_update)
  have get: "gm_get (fold_record s m) a = (if a = ?a then Some (absorb_record s ?e) else gm_get m a)" for a
    by (simp add: fold_record_def Let_def)
  show ?thesis
    unfolding table_of_def get
    using wf new assms by (auto simp: table_of_def intro: endpoint_of_other)
qed

lemma table_of_fold: "table_of xs (fold fold_record xs [])"
proof (induction xs rule: rev_induct)
  case Nil
  show ?case by (simp add: table_of_def)
next
  case (snoc x xs)
  then show ?case by (simp add: table_of_step)
qed

lemma table_of_entry:
  "table_of xs m \<Longrightarrow> (a, e) \<in> set m \<Longrightarrow> a = addr_key (ep_host e) (ep_port e) \<and> endpoint_of xs e"
  unfolding table_of_def by (metis gm_in_iff)

lemma table_of_distinct:
  assumes "table_of xs m"
  shows "distinct (map (\<lambda>e. (ep_host e, ep_port e)) (map snd m))"
proof -
  have "map fst m = map (\<lambda>(h, p). addr_key h p) (map (\<lambda>e. (ep_host e, ep_port e)) (map snd m))"
    using table_of_entry [OF assms] by auto
  moreover have "gm_wf m" using assms by (simp add: table_of_def)
  ultimately show ?thesis by (metis distinct_map)
qed

lemma table_of_services:
  assumes t: "table_of xs m"
  shows "(\<Union>e \<in> set (map snd m). set (ep_services e)) = set xs"
proof (rule Set.equalityI; rule Set.subsetI)
  fix s assume s: "s \<in> set xs"
  let ?a = "addr_key (sv_host s) (sv_port s)"
  from t s obtain e where e: "gm_get m ?a = Some e"
    unfolding table_of_def by blast
  then have m: "(?a, e) \<in> set m" by (rule map_of_SomeD)
  then have "sv_host s = ep_host e \<and> sv_port s = ep_port e" and eo: "endpoint_of xs e"
    using table_of_entry [OF t m] by (simp_all add: addr_key_inj)
  then have "s \<in> set (filter (\<lambda>s. sv_host s = ep_host e \<and> sv_port s = ep_port e) xs)"
    using s by simp
  then have "s \<in> set (ep_services e)" using eo unfolding endpoint_of_def by metis
  with m show "s \<in> (\<Union>e \<in> set (map snd m). set (ep_services e))" by force
next
  fix s assume "s \<in> (\<Union>e \<in> set (map snd m). set (ep_services e))"
  then obtain a e where "(a, e) \<in> set m" and s: "s \<in> set (ep_services e)" by auto
  then have "endpoint_of xs e" using table_of_entry [OF t] by blast
  with s show "s \<in> set xs" unfolding endpoint_of_def by (metis filter_is_subset subsetD)
qed

text \<open>C17: The endpoint fold partitions the records by address: the endpoints have pairwise
  different addresses, every record sits at one of them, and each endpoint carries exactly the
  records of its address in the browser's order, each service type and each identity once, the
  earliest discovery and the latest sighting.\<close>

theorem fold_endpoints_correct:
  "distinct (map (\<lambda>e. (ep_host e, ep_port e)) (fold_endpoints m))
   \<and> list_all (endpoint_of (sort_slice record_less (map snd m))) (fold_endpoints m)
   \<and> (\<Union>e \<in> set (fold_endpoints m). set (ep_services e)) = snd ` set m"
proof -
  let ?xs = "sort_slice record_less (map snd m)"
  have t: "table_of ?xs (fold fold_record ?xs [])" by (rule table_of_fold)
  show ?thesis
    unfolding fold_endpoints_def list_all_iff
    using table_of_distinct [OF t] table_of_services [OF t] table_of_entry [OF t] by auto
qed

section \<open>The record table\<close>

definition records_ok :: "(string, service) gomap \<Rightarrow> bool" where
  "records_ok m \<longleftrightarrow> gm_wf m \<and> (\<forall>(k, s) \<in> set m. k = record_key s)"

lemma records_ok_get: "records_ok m \<Longrightarrow> gm_get m k = Some s \<Longrightarrow> k = record_key s"
  by (auto simp: records_ok_def dest: map_of_SomeD)

lemma records_ok_iff: "records_ok m \<longleftrightarrow> gm.holds_all (\<lambda>k s. k = record_key s) m"
  by (auto simp: records_ok_def gm.holds_all_def)

lemma records_ok_put: "records_ok m \<Longrightarrow> k = record_key s \<Longrightarrow> records_ok (gm_put k s m)"
  by (simp add: records_ok_iff gm.holds_all_insert)

lemma records_ok_filter: "records_ok m \<Longrightarrow> records_ok (filter P m)"
  by (auto simp: records_ok_def)

lemma records_ok_inj: "records_ok m \<Longrightarrow> inj_on record_key (snd ` set m)"
proof (rule inj_onI)
  fix a b assume ok: "records_ok m" and "a \<in> snd ` set m" "b \<in> snd ` set m" "record_key a = record_key b"
  then have "(record_key a, a) \<in> set m" "(record_key a, b) \<in> set m"
    by (auto simp: records_ok_def)
  then show "a = b"
    using ok unfolding records_ok_def by (metis gm_in_iff option.inject)
qed

text \<open>The endpoint list does not depend on the order in which the record map is iterated:
  any two iteration orders of one record table give the same endpoints in the same order.\<close>

theorem fold_endpoints_deterministic:
  assumes "records_ok m" and "mset m = mset m'"
  shows "fold_endpoints m = fold_endpoints m'"
proof -
  have "inj_on (\<lambda>s. (sv_host s, sv_port s, sv_type s, sv_name s)) (set (map snd m))"
    using records_ok_inj [OF assms(1)] by (auto simp: inj_on_def record_key_def)
  moreover have "mset (map snd m) = mset (map snd m')"
    using assms(2) by simp
  ultimately have "sort_slice record_less (map snd m) = sort_slice record_less (map snd m')"
    by (intro rec_order.sort_slice_perm)
  then show ?thesis by (simp add: fold_endpoints_def)
qed

lemma sample_records_ok:
  "records_ok [(record_key (sample_alarm ''a'' 1), sample_alarm ''a'' 1),
               (record_key (sample_alarm ''b'' 2), sample_alarm ''b'' 2)]"
  by code_simp

theorem fold_endpoints_deterministic_witness:
  "fold_endpoints [(record_key (sample_alarm ''a'' 1), sample_alarm ''a'' 1),
                   (record_key (sample_alarm ''b'' 2), sample_alarm ''b'' 2)]
   = fold_endpoints [(record_key (sample_alarm ''b'' 2), sample_alarm ''b'' 2),
                     (record_key (sample_alarm ''a'' 1), sample_alarm ''a'' 1)]"
  by (rule fold_endpoints_deterministic [OF sample_records_ok]) (simp add: add_mset_commute)

lemma add_service_table:
  "br_services (fst (add_service t t' svc b)) =
     gm_put (record_key svc)
       (svc\<lparr>sv_last_seen := t,
           sv_discovered_at := (case gm_get (br_services b) (record_key svc) of
                                  Some e \<Rightarrow> sv_discovered_at e | None \<Rightarrow> t')\<rparr>) (br_services b)"
  by (simp add: add_service_def Let_def)

lemma record_key_stamp [simp]:
  "record_key (s\<lparr>sv_last_seen := t\<rparr>) = record_key s"
  "record_key (s\<lparr>sv_discovered_at := t\<rparr>) = record_key s"
  by (simp_all add: record_key_def)

lemma add_service_ok: "records_ok (br_services b) \<Longrightarrow> records_ok (br_services (fst (add_service t t' svc b)))"
  by (simp add: add_service_table records_ok_put)

lemma expire_ok: "records_ok (br_services b) \<Longrightarrow> records_ok (br_services (fst (expire now b)))"
  by (simp add: expire_def Let_def records_ok_filter)

text \<open>\<open>OnChange\<close> fires once per new record: adding a record reports it exactly when the
  table had no record under its key, a repeated announcement keeps the first discovery time
  and only refreshes the last sighting, and every other record is left as it was.\<close>

theorem add_service_reports_new:
  assumes "add_service t t' svc b = (b', reported)"
  shows "(reported \<noteq> None \<longleftrightarrow> gm_get (br_services b) (record_key svc) = None \<and> br_has_on_change b)
    \<and> snd (add_service u u' svc b') = None
    \<and> gm_get (br_services b') (record_key svc) =
        Some (svc\<lparr>sv_last_seen := t,
                 sv_discovered_at := (case gm_get (br_services b) (record_key svc) of
                                        Some e \<Rightarrow> sv_discovered_at e | None \<Rightarrow> t')\<rparr>)
    \<and> (\<forall>k. k \<noteq> record_key svc \<longrightarrow> gm_get (br_services b') k = gm_get (br_services b) k)"
  using assms by (auto simp: add_service_def Let_def split: if_splits)

theorem add_service_reports_new_witness:
  "snd (add_service 9 9 (sample_alarm ''a'' 1) (fst (add_service 5 6 (sample_alarm ''a'' 1) sample_browser))) = None"
  using add_service_reports_new [of 5 6 "sample_alarm ''a'' 1" sample_browser
      "fst (add_service 5 6 (sample_alarm ''a'' 1) sample_browser)"
      "snd (add_service 5 6 (sample_alarm ''a'' 1) sample_browser)" 9 9] by simp

section \<open>Expiry\<close>

lemma new_browser_services [simp]: "br_services (new_browser opts) = []"
  by (simp add: new_browser_def Let_def)

lemma default_expiry_bounds: "min_expiry \<le> default_expiry i \<and> default_expiry i \<le> max_duration"
  using wrap64_range [of "2 * i"]
  by (auto simp: default_expiry_def Let_def min_expiry_def second_def max_duration_def)

lemma new_browser_expiry:
  "br_expiry (new_browser opts) = default_expiry (br_interval (new_browser opts))"
  "0 < br_interval (new_browser opts)"
  by (simp_all add: new_browser_def Let_def second_def)

lemma new_browser_effective_expiry:
  "effective_expiry (new_browser opts) = default_expiry (br_interval (new_browser opts))"
  using default_expiry_bounds [of "br_interval (new_browser opts)"]
  by (simp add: effective_expiry_def new_browser_expiry min_expiry_def second_def)

text \<open>The view lease never drops below a minute: whatever refresh interval is configured,
  and even where doubling it overflows 64 bits, the expiry of a new browser lies between 60s
  and the largest duration, the departure check runs at most every half expiry, and an interval
  below 2^62 ns leaves at least one missed refresh of slack.\<close>

theorem new_browser_expiry_bounds:
  fixes opts :: browser_options
  defines "b \<equiv> new_browser opts"
  shows "min_expiry \<le> br_expiry b \<and> br_expiry b \<le> max_duration
    \<and> expiry_age_check b = br_expiry b div 2 \<and> effective_expiry b = br_expiry b
    \<and> (br_interval b < 2 ^ 62 \<longrightarrow> 2 * br_interval b \<le> br_expiry b)"
proof -
  have bounds: "min_expiry \<le> br_expiry b" "br_expiry b \<le> max_duration"
    using default_expiry_bounds [of "br_interval b"] by (simp_all add: b_def new_browser_expiry)
  moreover have "2 * br_interval b \<le> br_expiry b" if "br_interval b < 2 ^ 62"
  proof -
    have "wrap64 (2 * br_interval b) = 2 * br_interval b"
      using that new_browser_expiry(2) [of opts] by (intro wrap64_id) (simp_all add: b_def)
    then show ?thesis
      by (simp add: b_def new_browser_expiry default_expiry_def Let_def)
  qed
  ultimately show ?thesis
    by (auto simp: expiry_age_check_def effective_expiry_def Let_def min_expiry_def second_def)
qed

theorem new_browser_expiry_bounds_witness:
  "2 * br_interval sample_browser \<le> br_expiry sample_browser"
  using new_browser_expiry_bounds [of "\<lparr>bo_types = [smoke_alarm_type], bo_domains = [],
      bo_interval = 30 * second, bo_on_change = True, bo_on_remove = True, bo_quiet = True\<rparr>"]
  by (simp add: sample_browser_def new_browser_def Let_def second_def)

lemma expire_get:
  "gm_wf (br_services b) \<Longrightarrow> gm_get (br_services (fst (expire now b))) k =
     (case gm_get (br_services b) k of
        Some s \<Rightarrow> if is_departed now (effective_expiry b) s then None else Some s | None \<Rightarrow> None)"
  by (simp add: expire_def Let_def gm_get_filter split: option.splits)

lemma expire_departed_set:
  "br_has_on_remove b \<Longrightarrow> set (snd (expire now b)) =
     {s \<in> snd ` set (br_services b). is_departed now (effective_expiry b) s}"
  by (force simp: expire_def Let_def)

text \<open>C22: Expiry drops exactly the records unseen for the whole window: a record stays if and
  only if it is not departed, nothing else in the table changes, and \<open>OnRemove\<close> is called once
  for each dropped record, in the order of the record keys.\<close>

theorem expire_exact:
  assumes ok: "records_ok (br_services b)" and run: "expire now b = (b', removed)"
    and cb: "br_has_on_remove b"
  shows "(\<forall>k. gm_get (br_services b') k =
            (case gm_get (br_services b) k of
               Some s \<Rightarrow> if is_departed now (effective_expiry b) s then None else Some s
             | None \<Rightarrow> None))
    \<and> set removed = {s \<in> snd ` set (br_services b). is_departed now (effective_expiry b) s}
    \<and> sorted_wrt (<) (map record_key removed)"
proof -
  let ?gone = "filter (\<lambda>(_, s). is_departed now (effective_expiry b) s) (br_services b)"
  have "records_ok ?gone" using ok by (rule records_ok_filter)
  then have "map record_key (map snd ?gone) = map fst ?gone" and "gm_wf ?gone"
    by (auto simp: records_ok_def)
  then have "distinct (map record_key (map snd ?gone))" by (simp only:)
  then have "sorted_wrt (<) (map record_key (sort_slice departed_less (map snd ?gone)))"
    by (rule dep_order.strictly_sorted_keys)
  then have "sorted_wrt (<) (map record_key removed)"
    using run cb by (auto simp: expire_def Let_def)
  moreover have "b' = fst (expire now b)" and "removed = snd (expire now b)"
    using run by simp_all
  ultimately show ?thesis
    using ok by (simp add: expire_departed_set [OF cb] expire_get records_ok_def)
qed

theorem expire_exact_witness:
  "gm_get (br_services (fst (expire (60 * second)
      (sample_browser\<lparr>br_services := [(record_key (sample_alarm ''a'' 1), sample_alarm ''a'' 1)]\<rparr>))))
    (record_key (sample_alarm ''a'' 1)) = None"
proof -
  let ?b = "sample_browser\<lparr>br_services := [(record_key (sample_alarm ''a'' 1), sample_alarm ''a'' 1)]\<rparr>"
  have "records_ok (br_services ?b)" and "br_has_on_remove ?b"
    and "is_departed (60 * second) (effective_expiry ?b) (sample_alarm ''a'' 1)"
    by (simp add: records_ok_def, code_simp, code_simp)
  then show ?thesis
    using expire_exact [of ?b "60 * second" "fst (expire (60 * second) ?b)" "snd (expire (60 * second) ?b)"] by simp
qed

text \<open>A record seen less than the expiry ago survives a check, under either clock order.\<close>

lemma add_then_expire:
  assumes "gm_wf (br_services b)" and "min_duration < effective_expiry b" "effective_expiry b \<le> max_duration"
    and "now - t < effective_expiry b"
  shows "gm_get (br_services (fst (expire now (fst (add_service t t' svc b))))) (record_key svc) \<noteq> None"
proof -
  have "effective_expiry (fst (add_service t t' svc b)) = effective_expiry b"
    by (simp add: add_service_def effective_expiry_def Let_def)
  with assms show ?thesis
    by (simp add: expire_get add_service_table is_departed_def time_sub_ge_iff distinct_update)
qed

section \<open>Instance labels and TXT records\<close>

lemma service_instance_split:
  assumes "sv_name s = label @ suf @ domain" and "label \<noteq> []" and "sv_type s \<noteq> []"
    and lower: "to_lower suf = to_lower (instance_suffix (sv_type s))"
    and first: "\<And>j. j < length label \<Longrightarrow> \<not> prefix (to_lower suf) (drop j (to_lower (sv_name s)))"
  shows "service_instance s = label"
proof -
  have "str_index (to_lower suf) (to_lower label @ to_lower suf @ to_lower domain) = Some (length (to_lower label))"
    using first assms(1) by (intro str_index_append) simp
  with assms(1-3) lower show ?thesis by (simp add: service_instance_def)
qed

lemma lower_char_dot: "lower_char c = CHR ''.'' \<Longrightarrow> c = CHR ''.''"
  by (auto simp: lower_char_def Let_def split: if_splits dest!: arg_cong [where f = "of_char :: char \<Rightarrow> nat"])

lemma dotless_before_suffix:
  assumes "CHR ''.'' \<notin> set label" and "j < length label"
    and "to_lower suf = to_lower (instance_suffix t)"
  shows "\<not> prefix (to_lower suf) (drop j (to_lower (label @ rest)))"
proof -
  obtain r where r: "to_lower suf = CHR ''.'' # r"
    using assms(3) by (auto simp: instance_suffix_def to_lower_def lower_char_def)
  have "drop j (to_lower (label @ rest)) = lower_char (label ! j) # drop (Suc j) (to_lower (label @ rest))"
    using assms(2) by (simp add: Cons_nth_drop_Suc [symmetric] to_lower_def nth_append)
  moreover have "lower_char (label ! j) \<noteq> CHR ''.''"
    using assms(1,2) lower_char_dot by (metis nth_mem)
  ultimately show ?thesis using r by simp
qed

text \<open>The instance label comes back out of a service name: for a label without a dot, a name
  made of the label, the service type in any letter case and a domain yields the label.\<close>

theorem service_instance_label:
  assumes "sv_name s = label @ suf @ domain" and "label \<noteq> []" and "CHR ''.'' \<notin> set label"
    and "to_lower suf = to_lower (instance_suffix (sv_type s))" and "sv_type s \<noteq> []"
  shows "service_instance s = label"
proof (rule service_instance_split [OF assms(1,2,5,4)])
  fix j assume "j < length label"
  then show "\<not> prefix (to_lower suf) (drop j (to_lower (sv_name s)))"
    unfolding assms(1) using dotless_before_suffix [OF assms(3) _ assms(4)] by blast
qed

theorem service_instance_label_witness:
  "service_instance \<lparr>sv_name = ''adhd._ADHD-isotope._tcp.local.'', sv_type = ''_adhd-isotope._tcp'',
      sv_host = [], sv_port = 0, sv_txt = [], sv_discovered_at = 0, sv_last_seen = 0\<rparr> = ''adhd''"
  by (rule service_instance_label [where suf = "''._ADHD-isotope._tcp.''" and domain = "''local.''"])
    (simp, simp, simp, code_simp, simp)

lemma parse_txt_get:
  assumes "\<forall>k \<in> fst ` set m. CHR ''='' \<notin> set k"
  shows "gm_get (fold (\<lambda>r a. case split2 (CHR ''='') r of
           (k, Some v) \<Rightarrow> gm_put k v a | (k, None) \<Rightarrow> if k \<noteq> [] then gm_put k [] a else a)
         (format_txt m) a) = gm_get a ++ map_of (rev m)"
  using assms
proof (induction m arbitrary: a)
  case (Cons kv m)
  obtain k v where kv: "kv = (k, v)" by (cases kv)
  have "split2 (CHR ''='') (k @ ''='' @ v) = (k, Some v)"
    using Cons.prems kv split2_append by simp
  moreover have "gm_get (gm_put k v a) = gm_get a ++ [k \<mapsto> v]"
    by (auto simp: map_add_def fun_eq_iff)
  ultimately show ?case
    using Cons kv by (simp add: format_txt_def map_add_assoc)
qed (simp add: format_txt_def)

text \<open>What the advertiser writes into its TXT record is what a browser reads back: for keys
  without an equals sign, parsing the formatted records gives the same map, in whatever order
  the map was iterated.\<close>

theorem parse_format_txt:
  assumes "gm_wf m" and "\<forall>k \<in> fst ` set m. CHR ''='' \<notin> set k" and "mset m' = mset m"
  shows "gm_get (parse_txt (format_txt m')) = gm_get m"
proof -
  have "gm_wf m'" using assms(1,3) by (metis mset_eq_imp_distinct_iff mset_map)
  moreover have "set m' = set m" using assms(3) by (rule mset_eq_setD)
  ultimately have "map_of (rev m') = gm_get m"
    using assms(1,3) by (metis gm_perm_get mset_rev)
  then show ?thesis
    using parse_txt_get [of m' "[]"] assms(2) \<open>set m' = set m\<close> by (simp add: parse_txt_def)
qed

theorem parse_format_txt_witness:
  "gm_get (parse_txt (format_txt [(''role'', ''adhd''), (''trust_rung'', ''2'')]))
   = gm_get [(''trust_rung'', ''2''), (''role'', ''adhd'')]"
  by (rule parse_format_txt) (simp_all add: add_mset_commute)

end
