(* ===== verification/ChannelSource.thy ===== *)
theory ChannelSource
  imports Mdns
begin

text \<open>
  Package \<open>internal/channelsource\<close>: the registry of live channel sources. Every operation
  is one critical section of the registry's lock; the event it publishes afterwards is an
  output. \<open>change_feed\<close> is the contract between the registry and its subscribers, and the
  step relation \<open>reg_step\<close> separates the critical sections from the deliveries, as the
  two locks of the code do.
\<close>

section \<open>Sources, events, the registry\<close>

datatype event_kind = Added | Updated | Retired

fun event_kind_string :: "event_kind \<Rightarrow> string" where
  "event_kind_string Added = ''added''"
| "event_kind_string Updated = ''updated''"
| "event_kind_string Retired = ''retired''"

record source =
  so_instance :: string
  so_type :: string
  so_endpoint :: string
  so_role :: string
  so_rung :: int
  so_discovered_at :: time
  so_last_seen :: time

record event =
  ev_kind :: event_kind
  ev_source :: source

record entry =
  en_src :: source
  en_seen :: time

record registry =
  rg_sources :: "(string, entry) gomap"
  rg_subs :: "nat list"
  rg_next_sub :: nat

definition new_registry :: registry where
  "new_registry = \<lparr>rg_sources = [], rg_subs = [], rg_next_sub = 0\<rparr>"

definition status_url :: "source \<Rightarrow> string" where
  "status_url s = so_endpoint s @ ''/status''"

definition source_from :: "service \<Rightarrow> source" where
  "source_from svc =
     (let src = \<lparr>so_instance = service_instance svc, so_type = sv_type svc,
                 so_endpoint = service_endpoint svc, so_role = [], so_rung = 0,
                 so_discovered_at = sv_discovered_at svc, so_last_seen = sv_last_seen svc\<rparr>
      in case service_identity svc of
           Some i \<Rightarrow> src\<lparr>so_role := id_role i, so_rung := id_rung i\<rparr>
         | None \<Rightarrow> src)"

text \<open>
  \<open>Observe\<close> at clock reading \<open>now\<close>: the new registry, the returned event (\<^const>\<open>None\<close> where
  the code returns false), and the event it publishes, if any.
\<close>

definition observe :: "time \<Rightarrow> service \<Rightarrow> registry \<Rightarrow> registry \<times> event option \<times> event option" where
  "observe now svc r =
     (if sv_type svc \<noteq> smoke_alarm_type then (r, None, None)
      else let nxt = source_from svc in
        if so_instance nxt = [] then (r, None, None)
        else
          let no_time = (so_discovered_at nxt = zero_time);
              seen = (if no_time then now else so_discovered_at nxt);
              nxt = (if no_time then nxt\<lparr>so_discovered_at := now\<rparr> else nxt)
          in case gm_get (rg_sources r) (so_instance nxt) of
               Some old \<Rightarrow>
                 if seen < en_seen old then (r, Some \<lparr>ev_kind = Updated, ev_source = en_src old\<rparr>, None)
                 else
                   let nxt = nxt\<lparr>so_discovered_at := so_discovered_at (en_src old)\<rparr>;
                       changed = (so_endpoint nxt \<noteq> so_endpoint (en_src old)
                                  \<or> so_role nxt \<noteq> so_role (en_src old)
                                  \<or> so_rung nxt \<noteq> so_rung (en_src old));
                       r' = r\<lparr>rg_sources := gm_put (so_instance nxt) \<lparr>en_src = nxt, en_seen = seen\<rparr> (rg_sources r)\<rparr>;
                       ev = \<lparr>ev_kind = Updated, ev_source = nxt\<rparr>
                   in (r', Some ev, if changed then Some ev else None)
             | None \<Rightarrow>
                 let r' = r\<lparr>rg_sources := gm_put (so_instance nxt) \<lparr>en_src = nxt, en_seen = seen\<rparr> (rg_sources r)\<rparr>;
                     ev = \<lparr>ev_kind = Added, ev_source = nxt\<rparr>
                 in (r', Some ev, Some ev))"

text \<open>\<open>Retire\<close>: the returned event is the published one.\<close>

definition retire :: "service \<Rightarrow> registry \<Rightarrow> registry \<times> event option" where
  "retire svc r =
     (if sv_type svc \<noteq> smoke_alarm_type then (r, None)
      else case gm_get (rg_sources r) (service_instance svc) of
             None \<Rightarrow> (r, None)
           | Some old \<Rightarrow>
               if so_endpoint (en_src old) \<noteq> service_endpoint svc then (r, None)
               else (r\<lparr>rg_sources := gm_del (service_instance svc) (rg_sources r)\<rparr>,
                     Some \<lparr>ev_kind = Retired, ev_source = en_src old\<rparr>))"

definition source_less :: "source \<Rightarrow> source \<Rightarrow> bool" where
  "source_less a b \<longleftrightarrow> so_instance a < so_instance b"

definition list_sources :: "registry \<Rightarrow> source list" where
  "list_sources r = sort_slice source_less (map (en_src \<circ> snd) (rg_sources r))"

definition get_source :: "registry \<Rightarrow> string \<Rightarrow> source option" where
  "get_source r name = map_option en_src (gm_get (rg_sources r) name)"

definition len_sources :: "registry \<Rightarrow> nat" where
  "len_sources r = length (rg_sources r)"

text \<open>\<open>Subscribe\<close>: the new registry, the subscriber's id and the events replayed to it.\<close>

definition subscribe :: "registry \<Rightarrow> registry \<times> nat \<times> event list" where
  "subscribe r =
     (let n = (rg_next_sub r + 1) mod 2 ^ 64;
          r' = r\<lparr>rg_next_sub := n, rg_subs := List.insert n (rg_subs r)\<rparr>
      in (r', n, map (\<lambda>s. \<lparr>ev_kind = Added, ev_source = s\<rparr>) (list_sources r)))"

definition unsubscribe :: "nat \<Rightarrow> registry \<Rightarrow> registry" where
  "unsubscribe n r = r\<lparr>rg_subs := removeAll n (rg_subs r)\<rparr>"

text \<open>\<open>publish\<close>: the deliveries of one event, one per subscriber.\<close>

definition publish :: "event \<Rightarrow> registry \<Rightarrow> (nat \<times> event) list" where
  "publish ev r = map (\<lambda>n. (n, ev)) (rg_subs r)"

section \<open>The invariant\<close>

definition registry_ok :: "registry \<Rightarrow> bool" where
  "registry_ok r \<longleftrightarrow> gm.holds_all (\<lambda>k e. k = so_instance (en_src e) \<and> k \<noteq> [] \<and> so_type (en_src e) = smoke_alarm_type) (rg_sources r)"

lemma registry_ok_new [simp]: "registry_ok new_registry"
  by (simp add: registry_ok_def new_registry_def gm.holds_all_def)

lemma registry_ok_wf: "registry_ok r \<Longrightarrow> gm_wf (rg_sources r)"
  by (simp add: registry_ok_def gm.holds_all_def)

lemma registry_okD:
  "registry_ok r \<Longrightarrow> gm_get (rg_sources r) k = Some e \<Longrightarrow>
     so_instance (en_src e) = k \<and> k \<noteq> [] \<and> so_type (en_src e) = smoke_alarm_type"
  unfolding registry_ok_def by (drule (1) gm.holds_allD) auto

lemma source_from_fields [simp]:
  "so_instance (source_from svc) = service_instance svc"
  "so_type (source_from svc) = sv_type svc"
  "so_endpoint (source_from svc) = service_endpoint svc"
  "so_discovered_at (source_from svc) = sv_discovered_at svc"
  "so_last_seen (source_from svc) = sv_last_seen svc"
  by (simp_all add: source_from_def Let_def split: option.splits)

lemma observe_ok: "registry_ok r \<Longrightarrow> registry_ok (fst (observe now svc r))"
  unfolding registry_ok_def
  by (auto simp: observe_def Let_def intro!: gm.holds_all_insert split: option.splits)

lemma retire_ok: "registry_ok r \<Longrightarrow> registry_ok (fst (retire svc r))"
  unfolding registry_ok_def
  by (auto simp: retire_def intro: gm.holds_all_remove split: option.splits)

text \<open>For the witnesses: the instance \<open>a\<close> announced on port \<open>p\<close> and discovered at time \<open>t\<close>.\<close>

definition sample_at :: "int \<Rightarrow> time \<Rightarrow> service" where
  "sample_at p t = sample_alarm ''a'' p\<lparr>sv_discovered_at := t\<rparr>"

definition sample_registry :: registry where
  "sample_registry = fst (observe 5 (sample_at 1 5) new_registry)"

lemma sample_alarm_instance: "service_instance (sample_alarm ''a'' p) = ''a''"
proof (rule service_instance_split)
  show "sv_name (sample_alarm ''a'' p) = ''a'' @ ''._smoke-alarm._tcp.'' @ ''local.''"
    by (simp add: sample_alarm_def)
  show "to_lower ''._smoke-alarm._tcp.'' = to_lower (instance_suffix (sv_type (sample_alarm ''a'' p)))"
    by (simp add: sample_alarm_def) code_simp
  then show "\<not> prefix (to_lower ''._smoke-alarm._tcp.'') (drop j (to_lower (sv_name (sample_alarm ''a'' p))))"
    if "j < length ''a''" for j
    using dotless_before_suffix [of "''a''" j "''._smoke-alarm._tcp.''"] that by (simp add: sample_alarm_def)
qed (simp_all add: sample_alarm_def smoke_alarm_type_def)

lemma sample_alarm_endpoint:
  "service_endpoint (sample_alarm l p) = service_endpoint (sample_alarm l' q) \<longleftrightarrow> p = q"
  by (simp add: sample_alarm_def service_endpoint_def join_host_port_def itoa_inj)

lemma sample_at_fields [simp]:
  "sv_type (sample_at p t) = smoke_alarm_type"
  "sv_discovered_at (sample_at p t) = t"
  "service_instance (sample_at p t) = ''a''"
  "service_endpoint (sample_at p t) = service_endpoint (sample_at q u) \<longleftrightarrow> p = q"
  by (simp_all add: sample_at_def sample_alarm_instance sample_alarm_endpoint)
    (simp add: sample_alarm_def)

lemma sample_registry_ok: "registry_ok sample_registry"
  by (simp add: sample_registry_def observe_ok)

lemma sample_registry_get:
  "gm_get (rg_sources sample_registry) ''a'' = Some \<lparr>en_src = source_from (sample_at 1 5), en_seen = 5\<rparr>"
  by (simp add: sample_registry_def observe_def new_registry_def Let_def zero_time_def)

section \<open>Operations, one at a time\<close>

interpretation src_order: keyed_order source_less so_instance
  by unfold_locales (simp add: source_less_def)

lemma registry_entry:
  "registry_ok r \<Longrightarrow> (k, e) \<in> set (rg_sources r) \<Longrightarrow> so_instance (en_src e) = k"
  by (metis gm_in_iff registry_okD registry_ok_wf)

lemma sources_instances:
  "registry_ok r \<Longrightarrow> map so_instance (map (en_src \<circ> snd) (rg_sources r)) = map fst (rg_sources r)"
  by (auto simp: registry_entry)

lemma list_sources_strict:
  "registry_ok r \<Longrightarrow> sorted_wrt (<) (map so_instance (list_sources r))"
  unfolding list_sources_def
  by (intro src_order.strictly_sorted_keys) (simp only: sources_instances registry_ok_wf)

lemma in_list_sources:
  assumes "registry_ok r"
  shows "s \<in> set (list_sources r) \<longleftrightarrow> get_source r (so_instance s) = Some s"
proof
  assume "s \<in> set (list_sources r)"
  then obtain k e where m: "(k, e) \<in> set (rg_sources r)" and s: "s = en_src e"
    by (auto simp: list_sources_def)
  then have get: "gm_get (rg_sources r) k = Some e"
    using registry_ok_wf [OF assms] by simp
  with s show "get_source r (so_instance s) = Some s"
    using registry_okD [OF assms get] by (simp add: get_source_def)
next
  assume "get_source r (so_instance s) = Some s"
  then show "s \<in> set (list_sources r)"
    by (force simp: get_source_def list_sources_def dest: map_of_SomeD)
qed

text \<open>\<open>List\<close> is a faithful, stable directory: strictly ordered by instance (so no instance is
  listed twice), holding exactly the sources \<open>Get\<close> finds, as many as \<open>Len\<close> says, and the
  same list for every iteration order of the map.\<close>

theorem list_sources_directory:
  assumes ok: "registry_ok r"
  shows "sorted_wrt (<) (map so_instance (list_sources r))
    \<and> set (list_sources r) = {s. get_source r (so_instance s) = Some s}
    \<and> length (list_sources r) = len_sources r
    \<and> (\<forall>m. mset m = mset (rg_sources r) \<longrightarrow> list_sources (r\<lparr>rg_sources := m\<rparr>) = list_sources r)"
proof -
  have "distinct (map so_instance (map (en_src \<circ> snd) (rg_sources r)))"
    using ok by (simp only: sources_instances registry_ok_wf)
  then have inj: "inj_on so_instance (set (map (en_src \<circ> snd) (rg_sources r)))"
    by (simp only: distinct_map)
  have "list_sources (r\<lparr>rg_sources := m\<rparr>) = list_sources r" if "mset m = mset (rg_sources r)" for m
    unfolding list_sources_def using that inj
    by (intro src_order.sort_slice_perm [symmetric]) simp_all
  moreover have "set (list_sources r) = {s. get_source r (so_instance s) = Some s}"
    using in_list_sources [OF ok] by blast
  moreover have "length (list_sources r) = len_sources r"
    by (simp add: len_sources_def list_sources_def)
  ultimately show ?thesis using list_sources_strict [OF ok] by blast
qed

lemma observe_get_other:
  "k \<noteq> service_instance svc \<Longrightarrow> get_source (fst (observe now svc r)) k = get_source r k"
  by (simp add: observe_def get_source_def Let_def split: option.splits)

lemma retire_get_other:
  "k \<noteq> service_instance svc \<Longrightarrow> get_source (fst (retire svc r)) k = get_source r k"
  by (simp add: retire_def get_source_def split: option.splits)

theorem list_sources_directory_witness:
  "length (list_sources sample_registry) = len_sources sample_registry"
  using list_sources_directory [OF sample_registry_ok] by simp

text \<open>A rebind moves a source, it does not duplicate it: when a known smoke-alarm instance
  announces itself by a record no older than the registered one, its source is updated in place
  to the new endpoint, keeps the time the instance first appeared, and a subscriber is told
  exactly when endpoint, role or rung changed. The later retirement of the old address leaves
  the moved source alone.\<close>

theorem rebind_moves_source:
  assumes "sv_type svc = smoke_alarm_type" and "service_instance svc \<noteq> []"
    and old: "gm_get (rg_sources r) (service_instance svc) = Some old"
    and fresh: "sv_discovered_at svc \<noteq> zero_time" "en_seen old \<le> sv_discovered_at svc"
    and run: "observe now svc r = (r', returned, published)"
  shows "get_source r' (service_instance svc) =
           Some (source_from svc\<lparr>so_discovered_at := so_discovered_at (en_src old)\<rparr>)
    \<and> len_sources r' = len_sources r
    \<and> (published = None \<longleftrightarrow> so_endpoint (en_src old) = service_endpoint svc
         \<and> so_role (en_src old) = so_role (source_from svc) \<and> so_rung (en_src old) = so_rung (source_from svc))
    \<and> (\<forall>stale. service_instance stale = service_instance svc \<longrightarrow>
         service_endpoint stale \<noteq> service_endpoint svc \<longrightarrow> retire stale r' = (r', None))"
proof -
  have "length (gm_put k v m) = length m" if "gm_get m k = Some w" for k and v w :: entry and m
    using that by (induction m) (auto split: if_splits)
  with assms show ?thesis
    by (auto simp: observe_def retire_def get_source_def len_sources_def Let_def split: if_splits)
qed

theorem rebind_moves_source_witness:
  "len_sources (fst (observe 9 (sample_at 2 8) sample_registry)) = len_sources sample_registry"
  using rebind_moves_source [of "sample_at 2 8" sample_registry _ 9
      "fst (observe 9 (sample_at 2 8) sample_registry)"
      "fst (snd (observe 9 (sample_at 2 8) sample_registry))"
      "snd (snd (observe 9 (sample_at 2 8) sample_registry))"]
  by (simp add: sample_registry_get zero_time_def)

text \<open>A stale announcement never moves a source: a record discovered before the registered
  one leaves the registry unchanged, publishes nothing, and answers with the live source.\<close>

theorem stale_announcement_ignored:
  assumes "sv_type svc = smoke_alarm_type" and "service_instance svc \<noteq> []"
    and "gm_get (rg_sources r) (service_instance svc) = Some old"
    and "sv_discovered_at svc \<noteq> zero_time" and "sv_discovered_at svc < en_seen old"
  shows "observe now svc r = (r, Some \<lparr>ev_kind = Updated, ev_source = en_src old\<rparr>, None)"
  using assms by (simp add: observe_def Let_def)

theorem stale_announcement_ignored_witness:
  "fst (observe 9 (sample_at 2 4) sample_registry) = sample_registry"
  using stale_announcement_ignored [of "sample_at 2 4" sample_registry _ 9]
  by (simp add: sample_registry_get zero_time_def)

text \<open>Only a smoke-alarm record with an instance name is ever a source, and only the record
  that backs a source retires it: any other service leaves the registry as it is, and a
  retirement removes its instance exactly when the registered endpoint is the departed one.\<close>

theorem retire_exact:
  assumes "retire svc r = (r', ev)" and "sv_type svc = smoke_alarm_type"
  shows "(get_source r (service_instance svc) \<noteq> None \<and>
          map_option so_endpoint (get_source r (service_instance svc)) = Some (service_endpoint svc) \<longleftrightarrow> ev \<noteq> None)
    \<and> (ev = None \<longrightarrow> r' = r)
    \<and> (ev \<noteq> None \<longrightarrow> get_source r' (service_instance svc) = None)
    \<and> (\<forall>k. k \<noteq> service_instance svc \<longrightarrow> get_source r' k = get_source r k)"
  using assms by (auto simp: retire_def get_source_def split: option.splits if_splits)

theorem retire_exact_witness:
  "get_source (fst (retire (sample_at 1 5) sample_registry)) ''a'' = None"
  using retire_exact [of "sample_at 1 5" sample_registry
      "fst (retire (sample_at 1 5) sample_registry)"
      "snd (retire (sample_at 1 5) sample_registry)"]
  by (simp add: get_source_def sample_registry_get)

theorem other_types_ignored:
  assumes "sv_type svc \<noteq> smoke_alarm_type"
  shows "observe now svc r = (r, None, None) \<and> retire svc r = (r, None)"
  using assms by (simp add: observe_def retire_def)

section \<open>Subscribers: the change feed\<close>

text \<open>
  What a subscriber can rebuild from the events: per instance its endpoint, role, rung and
  first appearance. \<open>LastSeen\<close> is not part of it: a repeated announcement refreshes it
  without an event.
\<close>

type_synonym source_view = "string \<times> string \<times> int \<times> time"

definition view_of :: "source \<Rightarrow> source_view" where
  "view_of s = (so_endpoint s, so_role s, so_rung s, so_discovered_at s)"

definition registry_view :: "registry \<Rightarrow> string \<Rightarrow> source_view option" where
  "registry_view r k = map_option view_of (get_source r k)"

definition mirror :: "event \<Rightarrow> (string \<Rightarrow> source_view option) \<Rightarrow> string \<Rightarrow> source_view option" where
  "mirror ev m = m(so_instance (ev_source ev) :=
     (if ev_kind ev = Retired then None else Some (view_of (ev_source ev))))"

text \<open>
  The contract between a state that changes by operations and those who follow its events:
  replaying the events of an operation on a copy of the view keeps the copy exact.
\<close>

fun run_steps :: "('op \<Rightarrow> 's \<Rightarrow> 's \<times> 'e list) \<Rightarrow> 'op list \<Rightarrow> 's \<Rightarrow> 's \<times> 'e list" where
  "run_steps step [] s = (s, [])"
| "run_steps step (x # xs) s =
     (case step x s of (s', es) \<Rightarrow> case run_steps step xs s' of (s'', es') \<Rightarrow> (s'', es @ es'))"

locale change_feed =
  fixes step :: "'op \<Rightarrow> 's \<Rightarrow> 's \<times> 'e list"
    and view :: "'s \<Rightarrow> 'v"
    and replay :: "'e \<Rightarrow> 'v \<Rightarrow> 'v"
    and ok :: "'s \<Rightarrow> bool"
  assumes step_ok: "ok s \<Longrightarrow> ok (fst (step x s))"
    and step_view: "ok s \<Longrightarrow> view (fst (step x s)) = fold replay (snd (step x s)) (view s)"
begin

lemma run_follows:
  "ok s \<Longrightarrow> ok (fst (run_steps step xs s)) \<and> view (fst (run_steps step xs s)) = fold replay (snd (run_steps step xs s)) (view s)"
proof (induction xs arbitrary: s)
  case (Cons x xs)
  then show ?case
    using step_ok [of s x] step_view [of s x] Cons.IH [of "fst (step x s)"]
    by (simp add: case_prod_unfold)
qed simp

text \<open>Any property of the view that every replayed event keeps holds after every run.\<close>

lemma run_invariant:
  assumes "ok s" and "P (view s)" and "\<And>e v. P v \<Longrightarrow> P (replay e v)"
  shows "P (view (fst (run_steps step xs s)))"
proof -
  have "P (fold replay es v)" if "P v" for es v
    using that assms(3) by (induction es arbitrary: v) auto
  with assms run_follows [of s xs] show ?thesis by simp
qed

end

datatype reg_op = Observe time service | Retire service

fun reg_apply :: "reg_op \<Rightarrow> registry \<Rightarrow> registry \<times> event list" where
  "reg_apply (Observe now svc) r =
     (case observe now svc r of (r', _, None) \<Rightarrow> (r', []) | (r', _, Some ev) \<Rightarrow> (r', [ev]))"
| "reg_apply (Retire svc) r = (case retire svc r of (r', None) \<Rightarrow> (r', []) | (r', Some ev) \<Rightarrow> (r', [ev]))"

lemma reg_apply_fst:
  "fst (reg_apply (Observe now svc) r) = fst (observe now svc r)"
  "fst (reg_apply (Retire svc) r) = fst (retire svc r)"
  by (auto split: prod.splits option.splits)

lemma reg_apply_ok: "registry_ok r \<Longrightarrow> registry_ok (fst (reg_apply x r))"
  by (cases x) (simp_all only: reg_apply_fst observe_ok retire_ok)

lemma observe_view:
  "registry_ok r \<Longrightarrow> registry_view (fst (reg_apply (Observe now svc) r)) =
     fold mirror (snd (reg_apply (Observe now svc) r)) (registry_view r)"
  by (auto simp: observe_def Let_def registry_view_def get_source_def view_of_def mirror_def fun_eq_iff
      dest: registry_okD split: option.splits)

lemma retire_view:
  "registry_ok r \<Longrightarrow> registry_view (fst (reg_apply (Retire svc) r)) =
     fold mirror (snd (reg_apply (Retire svc) r)) (registry_view r)"
  by (auto simp: retire_def registry_view_def get_source_def mirror_def fun_eq_iff
      dest: registry_okD split: option.splits)

interpretation reg: change_feed reg_apply registry_view mirror registry_ok
proof (unfold_locales)
  fix r x assume ok: "registry_ok r"
  show "registry_ok (fst (reg_apply x r))" using ok by (rule reg_apply_ok)
  show "registry_view (fst (reg_apply x r)) = fold mirror (snd (reg_apply x r)) (registry_view r)"
    using ok by (cases x) (simp_all only: observe_view retire_view)
qed

lemma fold_added:
  assumes "sorted_wrt (<) (map so_instance xs)"
  shows "fold mirror (map (\<lambda>s. \<lparr>ev_kind = Added, ev_source = s\<rparr>) xs) v k =
    (case find (\<lambda>s. so_instance s = k) xs of Some s \<Rightarrow> Some (view_of s) | None \<Rightarrow> v k)"
  using assms
proof (induction xs arbitrary: v)
  case (Cons x xs)
  then have "find (\<lambda>s. so_instance s = so_instance x) xs = None"
    by (auto simp: find_None_iff)
  with Cons show ?case
    by (auto simp: mirror_def split: option.splits)
qed simp

lemma replay_is_view:
  assumes "registry_ok r"
  shows "fold mirror (snd (snd (subscribe r))) (\<lambda>_. None) = registry_view r"
proof
  fix k
  have sorted: "sorted_wrt (<) (map so_instance (list_sources r))"
    by (rule list_sources_strict [OF assms])
  show "fold mirror (snd (snd (subscribe r))) (\<lambda>_. None) k = registry_view r k"
  proof (cases "get_source r k")
    case None
    then have "find (\<lambda>s. so_instance s = k) (list_sources r) = None"
      using in_list_sources [OF assms] by (auto simp: find_None_iff)
    with None show ?thesis
      by (simp add: subscribe_def Let_def fold_added [OF sorted] registry_view_def)
  next
    case (Some s)
    then have s: "so_instance s = k" and m: "s \<in> set (list_sources r)"
      using registry_okD [OF assms] in_list_sources [OF assms, of s] by (auto simp: get_source_def)
    then obtain s' where f: "find (\<lambda>s. so_instance s = k) (list_sources r) = Some s'"
      by (metis (mono_tags, lifting) find_None_iff not_None_eq)
    then have "s' \<in> set (list_sources r)" and "so_instance s' = k"
      by (auto simp: find_Some_iff)
    then have "s' = s" using in_list_sources [OF assms, of s'] Some by simp
    with f Some show ?thesis
      by (simp add: subscribe_def Let_def fold_added [OF sorted] registry_view_def)
  qed
qed

text \<open>C5: A subscriber misses nothing: one that attaches at any moment and applies the replayed
  sources and then every published event, in order, has at all times the endpoint, role, rung
  and first appearance of exactly the registry's live sources.\<close>

theorem subscriber_follows_registry:
  assumes "registry_ok r"
  shows "fold mirror (snd (snd (subscribe r)) @ snd (run_steps reg_apply ops (fst (subscribe r)))) (\<lambda>_. None)
         = registry_view (fst (run_steps reg_apply ops (fst (subscribe r))))"
proof -
  have "registry_ok (fst (subscribe r))" and "registry_view (fst (subscribe r)) = registry_view r"
    using assms by (simp_all add: subscribe_def Let_def registry_ok_def registry_view_def get_source_def fun_eq_iff)
  then show ?thesis
    using reg.run_follows [of "fst (subscribe r)" ops] by (simp add: replay_is_view [OF assms])
qed

theorem subscriber_follows_registry_witness:
  "fold mirror (snd (snd (subscribe sample_registry)) @ snd (run_steps reg_apply [] (fst (subscribe sample_registry))))
     (\<lambda>_. None) = registry_view (fst (run_steps reg_apply [] (fst (subscribe sample_registry))))"
  by (rule subscriber_follows_registry [OF sample_registry_ok])

section \<open>Critical sections and deliveries interleaved\<close>

text \<open>
  The registry commits under its state lock and delivers later, under the delivery lock, so
  committed events wait in between, in no order of their own. \<open>fs_committed\<close> is the ghost
  history of the commits.
\<close>

record feed_state =
  fs_reg :: registry
  fs_pending :: "event list"
  fs_log :: "event list"
  fs_committed :: "event list"

definition feed_init :: feed_state where
  "feed_init = \<lparr>fs_reg = new_registry, fs_pending = [], fs_log = [], fs_committed = []\<rparr>"

inductive reg_step :: "feed_state \<Rightarrow> feed_state \<Rightarrow> bool" where
  commit: "reg_apply x (fs_reg s) = (r, evs) \<Longrightarrow>
     reg_step s (s\<lparr>fs_reg := r, fs_pending := fs_pending s @ evs, fs_committed := fs_committed s @ evs\<rparr>)"
| deliver: "fs_pending s = xs @ ev # ys \<Longrightarrow>
     reg_step s (s\<lparr>fs_pending := xs @ ys, fs_log := fs_log s @ [ev]\<rparr>)"

inductive feed_reach :: "feed_state \<Rightarrow> bool" where
  start: "feed_reach feed_init"
| step: "feed_reach s \<Longrightarrow> reg_step s t \<Longrightarrow> feed_reach t"

definition feed_inv :: "feed_state \<Rightarrow> bool" where
  "feed_inv s \<longleftrightarrow> registry_ok (fs_reg s)
     \<and> fold mirror (fs_committed s) (\<lambda>_. None) = registry_view (fs_reg s)
     \<and> mset (fs_log s) + mset (fs_pending s) = mset (fs_committed s)"

lemma reg_step_inv: "reg_step s t \<Longrightarrow> feed_inv s \<Longrightarrow> feed_inv t"
proof (induction rule: reg_step.induct)
  case (commit x s r evs)
  then have "registry_ok r" and "registry_view r = fold mirror evs (registry_view (fs_reg s))"
    using reg.step_ok [of "fs_reg s" x] reg.step_view [of "fs_reg s" x] by (simp_all add: feed_inv_def)
  with commit show ?case by (simp add: feed_inv_def add.assoc [symmetric])
qed (simp add: feed_inv_def)



text \<open>
  Two announcements of one instance, from port 1 and then from port 2, committed in that order
  and delivered in the other.
\<close>

definition race_second :: registry where
  "race_second = fst (observe 6 (sample_at 2 6) sample_registry)"

definition race_event :: "event_kind \<Rightarrow> int \<Rightarrow> time \<Rightarrow> event" where
  "race_event kind port t =
     \<lparr>ev_kind = kind, ev_source = source_from (sample_at port t)\<lparr>so_discovered_at := 5\<rparr>\<rparr>"

lemma race_commits:
  "reg_apply (Observe 5 (sample_at 1 5)) new_registry = (sample_registry, [race_event Added 1 5])"
  "reg_apply (Observe 6 (sample_at 2 6)) sample_registry = (race_second, [race_event Updated 2 6])"
proof -
  have d: "source_from (sample_at 1 5)\<lparr>so_discovered_at := 5\<rparr>
      = source_from (sample_at 1 5)"
    by (intro source.equality) simp_all
  show "reg_apply (Observe 5 (sample_at 1 5)) new_registry = (sample_registry, [race_event Added 1 5])"
    by (simp add: observe_def new_registry_def Let_def zero_time_def sample_registry_def race_event_def d)
  show "reg_apply (Observe 6 (sample_at 2 6)) sample_registry = (race_second, [race_event Updated 2 6])"
    by (simp add: observe_def sample_registry_get Let_def zero_time_def race_second_def race_event_def)
qed

lemma reach_commit:
  assumes "feed_reach \<lparr>fs_reg = r, fs_pending = p, fs_log = l, fs_committed = c\<rparr>" (is "feed_reach ?s")
    and "reg_apply x r = (r', evs)"
  shows "feed_reach \<lparr>fs_reg = r', fs_pending = p @ evs, fs_log = l, fs_committed = c @ evs\<rparr>"
  using feed_reach.step [OF assms(1) reg_step.commit [of x ?s r' evs]] assms(2) by simp

lemma reach_deliver:
  assumes "feed_reach \<lparr>fs_reg = r, fs_pending = xs @ ev # ys, fs_log = l, fs_committed = c\<rparr>" (is "feed_reach ?s")
  shows "feed_reach \<lparr>fs_reg = r, fs_pending = xs @ ys, fs_log = l @ [ev], fs_committed = c\<rparr>"
  using feed_reach.step [OF assms reg_step.deliver [of ?s xs ev ys]] by simp

text \<open>C39: Deliveries can overtake each other: there is a reachable state with nothing left to
  deliver in which a subscriber that applied every event, in the order it got them, holds an
  endpoint for an instance that is not the registered one.\<close>

theorem delivery_race:
  "\<exists>s. feed_reach s \<and> fs_pending s = []
     \<and> fold mirror (fs_log s) (\<lambda>_. None) ''a'' \<noteq> registry_view (fs_reg s) ''a''"
proof -
  let ?e1 = "race_event Added 1 5" and ?e2 = "race_event Updated 2 6"
  let ?s = "\<lambda>r p l c. \<lparr>fs_reg = r, fs_pending = p, fs_log = l, fs_committed = c\<rparr>"
  have "feed_reach (?s new_registry [] [] [])"
    using feed_reach.start by (simp add: feed_init_def)
  from reach_commit [OF reach_commit [OF this race_commits(1)] race_commits(2)]
  have "feed_reach (?s race_second ([?e1] @ ?e2 # []) [] [?e1, ?e2])" by simp
  from reach_deliver [OF this] have "feed_reach (?s race_second ([] @ ?e1 # []) [?e2] [?e1, ?e2])" by simp
  from reach_deliver [OF this] have r: "feed_reach (?s race_second [] [?e2, ?e1] [?e1, ?e2])" by simp
  have inst: "so_instance (ev_source (race_event k p t)) = ''a''" for k p t
    by (simp add: race_event_def)
  have "fold mirror [?e2, ?e1] (\<lambda>_. None) ''a'' = Some (view_of (ev_source ?e1))"
    by (simp add: mirror_def inst) (simp add: race_event_def)
  moreover have "registry_view race_second ''a'' = Some (view_of (ev_source ?e2))"
    using reg.step_view [OF sample_registry_ok, of "Observe 6 (sample_at 2 6)"]
    unfolding race_commits(2) by (simp add: mirror_def inst) (simp add: race_event_def)
  moreover have "view_of (ev_source ?e1) \<noteq> view_of (ev_source ?e2)"
    by (simp add: race_event_def view_of_def)
  ultimately show ?thesis using r by fastforce
qed

end
