(* ===== verification/Discovery.thy ===== *)
theory Discovery
  imports ChannelSource
begin

text \<open>
  How \<open>cmdServe\<close> (cmd/tuner/main.go) wires the browser to the registry: the browser's
  callbacks feed \<open>Observe\<close> and \<open>Retire\<close>, and what the registry ignores is logged as a peer.
  \<open>channel_sink\<close> is what the browser asks of whoever receives its callbacks.
\<close>

section \<open>The callbacks of cmdServe\<close>

datatype peer_log = Peer_discovered service | Peer_departed service

record serve_state =
  sv_reg :: registry
  sv_events :: "event list"
  sv_logged :: "peer_log list"

definition on_change :: "time \<Rightarrow> service \<Rightarrow> serve_state \<Rightarrow> serve_state" where
  "on_change now svc s =
     (case observe now svc (sv_reg s) of
        (r, returned, published) \<Rightarrow>
          let s' = s\<lparr>sv_reg := r,
                     sv_events := sv_events s @ (case published of Some ev \<Rightarrow> [ev] | None \<Rightarrow> [])\<rparr>
          in if returned \<noteq> None then s'
             else s'\<lparr>sv_logged := sv_logged s @ [Peer_discovered svc]\<rparr>)"

definition on_remove :: "service \<Rightarrow> serve_state \<Rightarrow> serve_state" where
  "on_remove svc s =
     (case retire svc (sv_reg s) of
        (r, Some ev) \<Rightarrow> s\<lparr>sv_reg := r, sv_events := sv_events s @ [ev]\<rparr>
      | (r, None) \<Rightarrow>
          if sv_type svc = smoke_alarm_type then s\<lparr>sv_reg := r\<rparr>
          else s\<lparr>sv_reg := r, sv_logged := sv_logged s @ [Peer_departed svc]\<rparr>)"

text \<open>
  What drives the serving process: a resolved announcement (with the browser's two clock
  readings and the registry's), and the expiry ticker. A liveness refresh is a batch of
  announcements.
\<close>

datatype net_event = Announce time time time service | Expiry_tick time

fun sink_step :: "(time \<Rightarrow> service \<Rightarrow> 's \<Rightarrow> 's) \<Rightarrow> (service \<Rightarrow> 's \<Rightarrow> 's) \<Rightarrow>
    net_event \<Rightarrow> browser \<times> 's \<Rightarrow> browser \<times> 's" where
  "sink_step change remove (Announce seen found_at now svc) (b, s) =
     (case add_service seen found_at svc b of
        (b', None) \<Rightarrow> (b', s)
      | (b', Some rec) \<Rightarrow> (b', change now rec s))"
| "sink_step change remove (Expiry_tick now) (b, s) =
     (case expire now b of (b', removed) \<Rightarrow> (b', fold remove removed s))"

definition serve_init :: "browser_options \<Rightarrow> browser \<times> serve_state" where
  "serve_init opts = (new_browser opts, \<lparr>sv_reg = new_registry, sv_events = [], sv_logged = []\<rparr>)"

definition serve_run :: "net_event list \<Rightarrow> browser \<times> serve_state \<Rightarrow> browser \<times> serve_state" where
  "serve_run evs st = fold (sink_step on_change on_remove) evs st"

section \<open>How the record table moves\<close>

lemma serve_run_snoc: "serve_run (evs @ [ev]) st = sink_step on_change on_remove ev (serve_run evs st)"
  by (simp add: serve_run_def)

text \<open>The browser moves by itself, whoever gets its callbacks, and keeps its expiry.\<close>

lemma sink_step_browser:
  "fst (sink_step change remove ev st) =
     (case ev of Announce seen found now svc \<Rightarrow> fst (add_service seen found svc (fst st))
        | Expiry_tick now \<Rightarrow> fst (expire now (fst st)))"
  by (cases st; cases ev) (simp_all split: prod.split option.split)

lemma serve_run_expiry: "br_expiry (fst (serve_run evs st)) = br_expiry (fst st)"
proof (induction evs arbitrary: st)
  case (Cons ev evs)
  have "br_expiry (fst (sink_step on_change on_remove ev st)) = br_expiry (fst st)"
    unfolding sink_step_browser by (simp add: add_service_def expire_def Let_def split: net_event.split)
  with Cons.IH [of "sink_step on_change on_remove ev st"] show ?case by (simp add: serve_run_def)
qed (simp add: serve_run_def)

definition records :: "browser \<Rightarrow> service set" where
  "records b = snd ` set (br_services b)"

definition bar_free :: "service \<Rightarrow> bool" where
  "bar_free s \<longleftrightarrow> CHR ''|'' \<notin> set (sv_type s) \<and> CHR ''|'' \<notin> set (sv_host s)"

definition table_ok :: "browser \<Rightarrow> bool" where
  "table_ok b \<longleftrightarrow> records_ok (br_services b) \<and> br_has_on_change b \<and> br_has_on_remove b
     \<and> (\<forall>r \<in> records b. bar_free r)"

definition same_record :: "service \<Rightarrow> service \<Rightarrow> bool" where
  "same_record a b \<longleftrightarrow> sv_type a = sv_type b \<and> sv_name a = sv_name b
     \<and> sv_host a = sv_host b \<and> sv_port a = sv_port b"

lemma service_instance_cong:
  "sv_type a = sv_type b \<Longrightarrow> sv_name a = sv_name b \<Longrightarrow> service_instance a = service_instance b"
  by (simp add: service_instance_def split: option.split)

lemma same_recordD:
  assumes "same_record a b"
  shows "service_instance a = service_instance b" and "service_endpoint a = service_endpoint b"
    and "record_key a = record_key b" and "sv_type a = sv_type b" and "sv_name a = sv_name b"
    and "bar_free a = bar_free b"
  using assms
  by (simp_all add: same_record_def service_instance_def service_endpoint_def record_key_def bar_free_def
      split: option.split)

lemma same_key_same_record: "bar_free a \<Longrightarrow> bar_free b \<Longrightarrow> record_key a = record_key b \<Longrightarrow> same_record a b"
  unfolding bar_free_def same_record_def using record_key_fields by blast

lemma set_put_new: "gm_get m k = None \<Longrightarrow> set (gm_put k v m) = insert (k, v) (set m)"
  by (induction m) (auto split: if_splits)

lemma set_put_known: "gm_wf m \<Longrightarrow> gm_get m k = Some w \<Longrightarrow> set (gm_put k v m) = insert (k, v) (set m - {(k, w)})"
proof (induction m)
  case (Cons x m)
  then show ?case by (cases x) (force split: if_splits)
qed simp

text \<open>
  Adding a record either refreshes the one already there, without a report, or adds it and
  reports it.
\<close>

lemma add_service_cases:
  assumes tab: "table_ok b" and clean: "bar_free svc" and run: "add_service t t' svc b = (b', rep)"
  obtains (known) old new where "rep = None" "old \<in> records b" "same_record old svc" "same_record new svc"
      "records b' = insert new (records b - {old})" "table_ok b'"
  | (new) new where "rep = Some new" "same_record new svc" "record_key svc \<notin> record_key ` records b"
      "records b' = insert new (records b)" "table_ok b'"
proof -
  define new where "new = svc\<lparr>sv_last_seen := t, sv_discovered_at :=
      (case gm_get (br_services b) (record_key svc) of Some e \<Rightarrow> sv_discovered_at e | None \<Rightarrow> t')\<rparr>"
  have new: "same_record new svc" by (simp add: new_def same_record_def)
  have rok: "records_ok (br_services b)" using tab by (simp add: table_ok_def)
  then have wf: "gm_wf (br_services b)" by (simp add: records_ok_def)
  have b': "b' = b\<lparr>br_services := gm_put (record_key svc) new (br_services b)\<rparr>"
    and rep: "rep = (if gm_get (br_services b) (record_key svc) = None then Some new else None)"
    using run tab by (auto simp: add_service_def Let_def new_def table_ok_def)
  have rok': "records_ok (br_services b')"
    using records_ok_put [OF rok, of "record_key svc" new] same_recordD(3) [OF new] by (simp add: b')
  have inj: "inj_on record_key (records b)"
    using records_ok_inj [OF rok] by (simp add: records_def)
  show thesis
  proof (cases "gm_get (br_services b) (record_key svc)")
    case None
    have recs: "records b' = insert new (records b)"
      by (simp add: b' records_def set_put_new [OF None])
    moreover have "record_key svc \<notin> record_key ` records b"
      using None rok wf by (force simp: records_def records_ok_def)
    moreover have "table_ok b'"
      using tab clean rok' recs same_recordD(6) [OF new] by (simp add: table_ok_def) (simp add: b')
    ultimately show thesis using None rep new by (intro that(2)) simp_all
  next
    case (Some old)
    then have old: "(record_key svc, old) \<in> set (br_services b)" by (rule map_of_SomeD)
    then have oldr: "old \<in> records b" by (force simp: records_def)
    have key: "record_key old = record_key svc" using records_ok_get [OF rok Some] by simp
    have same: "same_record old svc"
      using tab oldr clean key by (intro same_key_same_record) (auto simp: table_ok_def)
    have "snd ` (set (br_services b) - {(record_key svc, old)}) = records b - {old}"
    proof (rule Set.equalityI; rule Set.subsetI)
      fix r assume "r \<in> snd ` (set (br_services b) - {(record_key svc, old)})"
      then obtain x where x: "x \<in> set (br_services b)" "x \<noteq> (record_key svc, old)" "r = snd x" by blast
      have "fst x = record_key r" using x rok by (auto simp: records_ok_def)
      then have "r \<noteq> old" using x key by (metis prod.collapse)
      with x show "r \<in> records b - {old}" by (auto simp: records_def)
    next
      fix r assume "r \<in> records b - {old}"
      then show "r \<in> snd ` (set (br_services b) - {(record_key svc, old)})"
        by (force simp: records_def)
    qed
    then have recs: "records b' = insert new (records b - {old})"
      by (simp add: b' records_def set_put_known [OF wf Some])
    moreover have "table_ok b'"
      using tab clean rok' recs same_recordD(6) [OF new] by (simp add: table_ok_def) (simp add: b')
    ultimately show thesis using Some rep new oldr same by (intro that(1)) simp_all
  qed
qed

lemma expire_records:
  assumes tab: "table_ok b" and run: "expire now b = (b', removed)"
  shows "records b' = records b - set removed" and "set removed \<subseteq> records b" and "table_ok b'"
proof -
  have r: "removed = snd (expire now b)" and b: "b' = fst (expire now b)" using run by simp_all
  have "set removed = {s \<in> records b. is_departed now (effective_expiry b) s}"
    using tab expire_departed_set [of b now] by (simp add: r table_ok_def records_def)
  moreover have "records b' = {s \<in> records b. \<not> is_departed now (effective_expiry b) s}"
    by (force simp: b records_def expire_def Let_def)
  ultimately show "records b' = records b - set removed" and sub: "set removed \<subseteq> records b" by auto
  then show "table_ok b'"
    using tab expire_ok [of b now] by (auto simp: table_ok_def b) (simp_all add: expire_def Let_def)
qed

section \<open>What the browser asks of its callbacks\<close>

text \<open>
  \<open>addr s k\<close> is the address the sink keeps for the instance \<open>k\<close>. Reporting a new record
  may set the address of that record's instance to the record's and touches nothing else;
  reporting a departure clears the address when it is the departed one.
\<close>

locale channel_sink =
  fixes change :: "time \<Rightarrow> service \<Rightarrow> 's \<Rightarrow> 's"
    and remove :: "service \<Rightarrow> 's \<Rightarrow> 's"
    and addr :: "'s \<Rightarrow> string \<Rightarrow> string option"
    and accepts :: "service \<Rightarrow> bool"
    and ok :: "'s \<Rightarrow> bool"
  assumes change_own: "ok s \<Longrightarrow> addr (change now svc s) (service_instance svc) \<noteq> addr s (service_instance svc) \<Longrightarrow>
      accepts svc \<and> addr (change now svc s) (service_instance svc) = Some (service_endpoint svc)"
    and change_new: "ok s \<Longrightarrow> accepts svc \<Longrightarrow> addr s (service_instance svc) = None \<Longrightarrow>
      addr (change now svc s) (service_instance svc) = Some (service_endpoint svc)"
    and change_other: "ok s \<Longrightarrow> k \<noteq> service_instance svc \<Longrightarrow> addr (change now svc s) k = addr s k"
    and change_ok: "ok s \<Longrightarrow> ok (change now svc s)"
    and remove_own: "ok s \<Longrightarrow> accepts svc \<Longrightarrow> addr s (service_instance svc) = Some (service_endpoint svc) \<Longrightarrow>
      addr (remove svc s) (service_instance svc) = None"
    and remove_keep: "ok s \<Longrightarrow> addr s (service_instance svc) \<noteq> Some (service_endpoint svc) \<or> \<not> accepts svc \<Longrightarrow>
      addr (remove svc s) = addr s"
    and remove_other: "ok s \<Longrightarrow> k \<noteq> service_instance svc \<Longrightarrow> addr (remove svc s) k = addr s k"
    and remove_ok: "ok s \<Longrightarrow> ok (remove svc s)"
    and accepts_stable: "sv_type a = sv_type b \<Longrightarrow> sv_name a = sv_name b \<Longrightarrow> accepts a = accepts b"
begin

text \<open>Every address the sink keeps is that of a live record it accepts.\<close>

definition backed :: "browser \<Rightarrow> 's \<Rightarrow> bool" where
  "backed b s \<longleftrightarrow> (\<forall>k a. addr s k = Some a \<longrightarrow>
     (\<exists>rec \<in> records b. accepts rec \<and> service_instance rec = k \<and> service_endpoint rec = a))"

text \<open>Every live record the sink accepts is the one it keeps the address of.\<close>

definition tracked :: "browser \<Rightarrow> 's \<Rightarrow> bool" where
  "tracked b s \<longleftrightarrow> (\<forall>rec \<in> records b. accepts rec \<longrightarrow>
     addr s (service_instance rec) = Some (service_endpoint rec))"

lemma fold_remove_ok: "ok s \<Longrightarrow> ok (fold remove xs s)"
  by (induction xs arbitrary: s) (simp_all add: remove_ok)

lemma fold_remove_addr:
  "ok s \<Longrightarrow> addr (fold remove xs s) k = None \<or> addr (fold remove xs s) k = addr s k"
proof (induction xs arbitrary: s)
  case (Cons x xs)
  have "addr (remove x s) k = None \<or> addr (remove x s) k = addr s k"
    using remove_own remove_keep remove_other Cons.prems by metis
  with Cons.IH [of "remove x s"] Cons.prems show ?case by (auto simp: remove_ok)
qed simp

lemma fold_remove_hit:
  assumes "ok s" and "x \<in> set xs" and "accepts x"
  shows "addr (fold remove xs s) (service_instance x) \<noteq> Some (service_endpoint x)"
  using assms
proof (induction xs arbitrary: s)
  case (Cons y ys)
  show ?case
  proof (cases "x \<in> set ys")
    case False
    then have "y = x" using Cons.prems by simp
    then have "addr (remove y s) (service_instance x) \<noteq> Some (service_endpoint x)"
      using Cons.prems remove_own remove_keep by (metis option.distinct(1))
    then show ?thesis
      using fold_remove_addr [of "remove y s" ys "service_instance x"] Cons.prems(1) by (auto simp: remove_ok)
  qed (use Cons in \<open>simp add: remove_ok\<close>)
qed simp

lemma fold_remove_untouched:
  "ok s \<Longrightarrow> \<forall>x \<in> set xs. accepts x \<longrightarrow> service_instance x \<noteq> k \<Longrightarrow> addr (fold remove xs s) k = addr s k"
proof (induction xs arbitrary: s)
  case (Cons x xs)
  have "addr (remove x s) k = addr s k"
    using Cons.prems remove_other [of s k x] remove_keep [of s x] by auto
  with Cons show ?case by (simp add: remove_ok)
qed simp

lemma backed_keep:
  assumes "backed b s" and "addr s k = Some a"
    and "\<And>rec. rec \<in> records b \<Longrightarrow> accepts rec \<Longrightarrow> addr s (service_instance rec) = Some (service_endpoint rec) \<Longrightarrow>
           \<exists>rec' \<in> records b'. same_record rec rec'"
  shows "\<exists>rec \<in> records b'. accepts rec \<and> service_instance rec = k \<and> service_endpoint rec = a"
proof -
  obtain rec where rec: "rec \<in> records b" "accepts rec" "service_instance rec = k" "service_endpoint rec = a"
    using assms(1,2) unfolding backed_def by blast
  with assms(2,3) obtain rec' where "rec' \<in> records b'" and same: "same_record rec rec'" by blast
  with rec same_recordD [OF same] accepts_stable [of rec rec'] show ?thesis by auto
qed

lemma backed_announce:
  assumes inv: "backed b s" "ok s" and tab: "table_ok b" and clean: "bar_free svc"
    and run: "add_service t t' svc b = (b', rep)"
  shows "backed b' (case rep of None \<Rightarrow> s | Some rec \<Rightarrow> change now rec s)"
  using tab clean run
proof (cases rule: add_service_cases)
  case (known old new)
  have keep: "\<exists>rec' \<in> records b'. same_record rec rec'" if "rec \<in> records b" for rec
    using that known by (cases "rec = old") (auto simp: same_record_def)
  have "\<exists>rec \<in> records b'. accepts rec \<and> service_instance rec = k \<and> service_endpoint rec = a"
    if "addr s k = Some a" for k a
    using backed_keep [OF inv(1) that keep] by blast
  with known(1) show ?thesis by (simp only: backed_def option.case) blast
next
  case (new new)
  have "\<exists>rec \<in> records b'. accepts rec \<and> service_instance rec = k \<and> service_endpoint rec = a"
    if a: "addr (change now new s) k = Some a" for k a
  proof (cases "addr s k = Some a")
    case True
    then show ?thesis using backed_keep [OF inv(1) True, of b'] new by (auto simp: same_record_def)
  next
    case False
    then have k: "k = service_instance new" using a change_other [OF inv(2)] by metis
    then have "accepts new \<and> addr (change now new s) k = Some (service_endpoint new)"
      using a False change_own [OF inv(2), of now new] by auto
    with a k new show ?thesis by auto
  qed
  with new show ?thesis by (simp add: backed_def)
qed

lemma backed_tick:
  assumes inv: "backed b s" "ok s" and tab: "table_ok b" and run: "expire now b = (b', removed)"
  shows "backed b' (fold remove removed s)"
  unfolding backed_def
proof (intro allI impI)
  fix k a assume a: "addr (fold remove removed s) k = Some a"
  have old: "addr s k = Some a" using a fold_remove_addr [OF inv(2), of removed k] by auto
  obtain rec where rec: "rec \<in> records b" "accepts rec" "service_instance rec = k" "service_endpoint rec = a"
    using inv(1) old unfolding backed_def by blast
  then have "rec \<notin> set removed"
    using a fold_remove_hit [OF inv(2), of rec removed] by auto
  with rec expire_records(1) [OF tab run]
  show "\<exists>rec \<in> records b'. accepts rec \<and> service_instance rec = k \<and> service_endpoint rec = a" by blast
qed

text \<open>
  An instance is homed when all its announcements, now and later, come from one record:
  \<open>h\<close> gives the record key of an instance.
\<close>

definition homed :: "(string \<Rightarrow> string) \<Rightarrow> service \<Rightarrow> bool" where
  "homed h rec \<longleftrightarrow> (accepts rec \<longrightarrow> record_key rec = h (service_instance rec))"

lemma homed_same: "same_record a b \<Longrightarrow> homed h a = homed h b"
  using same_recordD accepts_stable unfolding homed_def by metis

lemma tracked_announce:
  assumes inv: "tracked b s" "backed b s" "ok s" and tab: "table_ok b" and clean: "bar_free svc"
    and home: "\<forall>r \<in> records b. homed h r" "homed h svc"
    and run: "add_service t t' svc b = (b', rep)"
  shows "tracked b' (case rep of None \<Rightarrow> s | Some rec \<Rightarrow> change now rec s)"
  using tab clean run
proof (cases rule: add_service_cases)
  case (known old new)
  have "same_record old new" using known by (simp add: same_record_def)
  then have "addr s (service_instance new) = Some (service_endpoint new)" if "accepts new"
    using inv(1) known(2) that same_recordD accepts_stable unfolding tracked_def by metis
  with known inv(1) show ?thesis by (auto simp: tracked_def)
next
  case (new new)
  have apart: "service_instance rec \<noteq> service_instance new" if "rec \<in> records b" "accepts rec" "accepts new" for rec
    using that home new homed_same [OF new(2)] same_recordD(3) [OF new(2)] unfolding homed_def by (metis imageI)
  have "addr (change now new s) (service_instance new) = Some (service_endpoint new)" if acc: "accepts new"
  proof (rule change_new [OF inv(3) acc])
    show "addr s (service_instance new) = None"
      using inv(2) apart [OF _ _ acc] unfolding backed_def by (metis not_None_eq)
  qed
  moreover have "addr (change now new s) (service_instance rec) = Some (service_endpoint rec)"
    if "rec \<in> records b" "accepts rec" for rec
  proof -
    have "addr (change now new s) (service_instance rec) = addr s (service_instance rec)"
      using apart [OF that] change_own [OF inv(3), of now new] change_other [OF inv(3)] by metis
    then show ?thesis using inv(1) that by (simp add: tracked_def)
  qed
  ultimately show ?thesis using new by (auto simp: tracked_def)
qed

lemma tracked_tick:
  assumes inv: "tracked b s" "ok s" and tab: "table_ok b" and home: "\<forall>r \<in> records b. homed h r"
    and run: "expire now b = (b', removed)"
  shows "tracked b' (fold remove removed s)"
  unfolding tracked_def
proof (intro ballI impI)
  fix rec assume rec: "rec \<in> records b'" "accepts rec"
  then have live: "rec \<in> records b" "rec \<notin> set removed" using expire_records(1) [OF tab run] by auto
  have "service_instance x \<noteq> service_instance rec" if "x \<in> set removed" "accepts x" for x
  proof
    assume same: "service_instance x = service_instance rec"
    have x: "x \<in> records b" using that(1) expire_records(2) [OF tab run] by auto
    then have "record_key x = record_key rec"
      using same home live(1) that(2) rec(2) by (simp add: homed_def)
    then have "x = rec"
      using x live(1) tab records_ok_inj [of "br_services b"] by (auto simp: inj_on_def table_ok_def records_def)
    with that(1) live(2) show False by simp
  qed
  then have "addr (fold remove removed s) (service_instance rec) = addr s (service_instance rec)"
    using fold_remove_untouched [OF inv(2)] by blast
  with inv(1) live(1) rec(2) show "addr (fold remove removed s) (service_instance rec) = Some (service_endpoint rec)"
    by (simp add: tracked_def)
qed

end

section \<open>The registry is such a sink\<close>

definition serve_addr :: "serve_state \<Rightarrow> string \<Rightarrow> string option" where
  "serve_addr s k = map_option so_endpoint (get_source (sv_reg s) k)"

definition is_channel_source :: "service \<Rightarrow> bool" where
  "is_channel_source svc \<longleftrightarrow> sv_type svc = smoke_alarm_type \<and> service_instance svc \<noteq> []"

lemma on_change_reg: "sv_reg (on_change now svc s) = fst (observe now svc (sv_reg s))"
  by (simp add: on_change_def Let_def case_prod_unfold)

lemma on_remove_reg: "sv_reg (on_remove svc s) = fst (retire svc (sv_reg s))"
  by (auto simp: on_remove_def split: prod.splits option.splits)

lemma observe_own:
  "get_source (fst (observe now svc r)) (service_instance svc) = get_source r (service_instance svc)
   \<or> is_channel_source svc \<and>
     map_option so_endpoint (get_source (fst (observe now svc r)) (service_instance svc)) = Some (service_endpoint svc)"
  by (auto simp: observe_def get_source_def is_channel_source_def Let_def split: option.splits)

lemma observe_unknown:
  "is_channel_source svc \<Longrightarrow> get_source r (service_instance svc) = None \<Longrightarrow>
   map_option so_endpoint (get_source (fst (observe now svc r)) (service_instance svc)) = Some (service_endpoint svc)"
  by (auto simp: observe_def get_source_def is_channel_source_def Let_def split: option.splits)

lemma retire_own:
  "sv_type svc = smoke_alarm_type \<Longrightarrow>
   map_option so_endpoint (get_source r (service_instance svc)) = Some (service_endpoint svc) \<Longrightarrow>
   get_source (fst (retire svc r)) (service_instance svc) = None"
  by (auto simp: retire_def get_source_def split: option.splits)

lemma retire_keep:
  "registry_ok r \<Longrightarrow> \<not> is_channel_source svc \<or>
     map_option so_endpoint (get_source r (service_instance svc)) \<noteq> Some (service_endpoint svc) \<Longrightarrow>
   fst (retire svc r) = r"
  by (auto simp: retire_def get_source_def is_channel_source_def dest: registry_okD split: option.splits)

interpretation serve: channel_sink on_change on_remove serve_addr is_channel_source "\<lambda>s. registry_ok (sv_reg s)"
proof (unfold_locales, goal_cases)
  case (1 s now svc)
  then show ?case using observe_own [of now svc "sv_reg s"] by (auto simp: serve_addr_def on_change_reg)
next
  case (2 s svc now)
  then show ?case using observe_unknown [of svc "sv_reg s" now] by (auto simp: serve_addr_def on_change_reg)
next
  case (3 s k svc now)
  then show ?case by (simp add: serve_addr_def on_change_reg observe_get_other)
next
  case (4 s now svc)
  then show ?case by (simp add: on_change_reg observe_ok)
next
  case (5 s svc)
  then show ?case
    using retire_own [of svc "sv_reg s"] by (auto simp: serve_addr_def on_remove_reg is_channel_source_def)
next
  case (6 s svc)
  then show ?case
    using retire_keep [of "sv_reg s" svc] by (auto simp: serve_addr_def on_remove_reg fun_eq_iff)
next
  case (7 s k svc)
  then show ?case by (simp add: serve_addr_def on_remove_reg retire_get_other)
next
  case (8 s svc)
  then show ?case by (simp add: on_remove_reg retire_ok)
next
  case (9 a b)
  then show ?case
    using service_instance_cong [of a b] by (simp add: is_channel_source_def)
qed

section \<open>Runs of the serving process\<close>

definition clean_event :: "net_event \<Rightarrow> bool" where
  "clean_event ev = (case ev of Announce _ _ _ svc \<Rightarrow> bar_free svc | Expiry_tick _ \<Rightarrow> True)"

definition homed_event :: "(string \<Rightarrow> string) \<Rightarrow> net_event \<Rightarrow> bool" where
  "homed_event h ev =
     (case ev of Announce _ _ _ svc \<Rightarrow> is_channel_source svc \<longrightarrow> record_key svc = h (service_instance svc)
               | Expiry_tick _ \<Rightarrow> True)"

definition serve_ok :: "browser \<times> serve_state \<Rightarrow> bool" where
  "serve_ok st \<longleftrightarrow> table_ok (fst st) \<and> registry_ok (sv_reg (snd st)) \<and> serve.backed (fst st) (snd st)"

lemma serve_step_ok:
  assumes ok: "serve_ok st" and ev: "clean_event ev"
  shows "serve_ok (sink_step on_change on_remove ev st)"
proof (cases ev)
  case (Announce seen found now svc)
  obtain b s where st: "st = (b, s)" by (cases st)
  obtain b' rep where run: "add_service seen found svc b = (b', rep)" by (cases "add_service seen found svc b")
  have inv: "serve.backed b s" "registry_ok (sv_reg s)" "table_ok b" and clean: "bar_free svc"
    using ok ev Announce st by (simp_all add: serve_ok_def clean_event_def)
  have "table_ok b'" using add_service_cases [OF inv(3) clean run] by metis
  moreover have "sink_step on_change on_remove ev st = (b', case rep of None \<Rightarrow> s | Some rec \<Rightarrow> on_change now rec s)"
    by (simp add: Announce st run split: option.split)
  ultimately show ?thesis
    using serve.backed_announce [OF inv(1,2,3) clean run, of now] inv(2)
    by (simp add: serve_ok_def serve.change_ok split: option.split)
next
  case (Expiry_tick now)
  obtain b s where st: "st = (b, s)" by (cases st)
  obtain b' removed where run: "expire now b = (b', removed)" by (cases "expire now b")
  have inv: "serve.backed b s" "registry_ok (sv_reg s)" "table_ok b"
    using ok st by (simp_all add: serve_ok_def)
  show ?thesis
    using serve.backed_tick [OF inv run] serve.fold_remove_ok [OF inv(2)] expire_records(3) [OF inv(3) run]
    by (simp add: Expiry_tick st run serve_ok_def)
qed

lemma serve_init_ok:
  assumes "bo_on_change opts" and "bo_on_remove opts"
  shows "serve_ok (serve_init opts)" and "serve.tracked (fst (serve_init opts)) (snd (serve_init opts))"
  using assms
  by (simp_all add: serve_init_def serve_ok_def serve.backed_def serve.tracked_def table_ok_def records_def
      records_ok_def serve_addr_def get_source_def new_registry_def new_browser_def Let_def
      registry_ok_def gm.holds_all_def)

lemma serve_run_ok: "serve_ok st \<Longrightarrow> list_all clean_event evs \<Longrightarrow> serve_ok (serve_run evs st)"
proof (induction evs arbitrary: st)
  case (Cons ev evs)
  then show ?case using serve_step_ok [of st ev] by (simp add: serve_run_def)
qed (simp add: serve_run_def)

text \<open>For the witnesses: the instance \<open>a\<close> announced on port 1 to a serving process.\<close>

definition sample_options :: browser_options where
  "sample_options = \<lparr>bo_types = [smoke_alarm_type], bo_domains = [], bo_interval = 30 * second,
     bo_on_change = True, bo_on_remove = True, bo_quiet = True\<rparr>"

definition sample_announcements :: "net_event list" where
  "sample_announcements = [Announce 5 5 5 (sample_alarm ''a'' 1)]"

definition sample_serving :: "browser \<times> serve_state" where
  "sample_serving = serve_run sample_announcements (serve_init sample_options)"

lemma sample_options_callbacks: "bo_on_change sample_options" "bo_on_remove sample_options"
  by (simp_all add: sample_options_def)

lemma sample_announcements_ok:
  "list_all clean_event sample_announcements"
  "list_all (homed_event (\<lambda>_. record_key (sample_alarm ''a'' 1))) sample_announcements"
  by (simp_all add: sample_announcements_def clean_event_def homed_event_def bar_free_def)
    (simp_all add: sample_alarm_def smoke_alarm_type_def)

lemma sample_serving_split:
  "serve_run sample_announcements (serve_init sample_options) = (fst sample_serving, snd sample_serving)"
  by (simp add: sample_serving_def)

lemma sample_serving_source:
  "map so_instance (list_sources (sv_reg (snd sample_serving))) = [''a'']"
  by code_simp

lemma sample_serving_record:
  "service_instance (hd (services (fst sample_serving))) = ''a''"
  "service_endpoint (hd (services (fst sample_serving))) = ''http://10.0.0.5:1''"
  "services (fst sample_serving) \<noteq> []"
  "is_channel_source (hd (services (fst sample_serving)))"
  by code_simp+

text \<open>No ghost channels: at every moment of a serving process, each channel source the
  registry lists is backed by a record the browser currently holds, one of that instance at that
  endpoint. (Service types and hosts hold no bar, the separator of the record keys.)\<close>

theorem sources_backed_by_records:
  assumes "bo_on_change opts" and "bo_on_remove opts" and "list_all clean_event evs"
    and "serve_run evs (serve_init opts) = (b, s)"
    and "src \<in> set (list_sources (sv_reg s))"
  shows "\<exists>rec \<in> set (services b). sv_type rec = smoke_alarm_type
    \<and> service_instance rec = so_instance src \<and> service_endpoint rec = so_endpoint src"
proof -
  have "serve_ok (b, s)"
    using serve_run_ok [OF serve_init_ok(1) [OF assms(1,2)] assms(3)] assms(4) by simp
  then have ok: "registry_ok (sv_reg s)" and backed: "serve.backed b s" by (simp_all add: serve_ok_def)
  have "serve_addr s (so_instance src) = Some (so_endpoint src)"
    using assms(5) in_list_sources [OF ok] by (simp add: serve_addr_def)
  with backed obtain rec where "rec \<in> records b" "is_channel_source rec"
      "service_instance rec = so_instance src" "service_endpoint rec = so_endpoint src"
    unfolding serve.backed_def by blast
  then show ?thesis by (auto simp: records_def services_def is_channel_source_def)
qed

theorem sources_backed_by_records_witness:
  "\<exists>rec \<in> set (services (fst sample_serving)). service_instance rec = ''a''"
proof -
  obtain src where "src \<in> set (list_sources (sv_reg (snd sample_serving)))" "so_instance src = ''a''"
    using sample_serving_source by (auto simp: map_eq_Cons_conv)
  then show ?thesis
    using sources_backed_by_records [OF sample_options_callbacks sample_announcements_ok(1) sample_serving_split]
    by metis
qed

lemma homed_serve: "serve.homed h rec \<longleftrightarrow> (is_channel_source rec \<longrightarrow> record_key rec = h (service_instance rec))"
  by (simp add: serve.homed_def)

lemma serve_step_tracked:
  assumes ok: "serve_ok st" and tracked: "serve.tracked (fst st) (snd st)"
    and home: "\<forall>r \<in> records (fst st). serve.homed h r" and ev: "clean_event ev" "homed_event h ev"
  defines "st' \<equiv> sink_step on_change on_remove ev st"
  shows "serve.tracked (fst st') (snd st') \<and> (\<forall>r \<in> records (fst st'). serve.homed h r)"
proof (cases ev)
  case (Announce seen found now svc)
  obtain b s where st: "st = (b, s)" by (cases st)
  obtain b' rep where run: "add_service seen found svc b = (b', rep)" by (cases "add_service seen found svc b")
  have inv: "serve.tracked b s" "serve.backed b s" "registry_ok (sv_reg s)" "table_ok b"
    and clean: "bar_free svc" and hs: "\<forall>r \<in> records b. serve.homed h r" "serve.homed h svc"
    using ok tracked ev home Announce st
    by (simp_all add: serve_ok_def clean_event_def homed_event_def homed_serve)
  have "\<forall>r \<in> records b'. serve.homed h r"
    using inv(4) clean run
  proof (cases rule: add_service_cases)
    case (known old new)
    then show ?thesis using hs serve.homed_same [of new svc h] by auto
  next
    case (new new)
    then show ?thesis using hs serve.homed_same [of new svc h] by auto
  qed
  then show ?thesis
    using serve.tracked_announce [OF inv clean hs run, of now]
    by (auto simp: st'_def Announce st run split: option.split)
next
  case (Expiry_tick now)
  obtain b s where st: "st = (b, s)" by (cases st)
  obtain b' removed where run: "expire now b = (b', removed)" by (cases "expire now b")
  have inv: "serve.tracked b s" "registry_ok (sv_reg s)" "table_ok b" and hs: "\<forall>r \<in> records b. serve.homed h r"
    using ok tracked home st by (simp_all add: serve_ok_def)
  show ?thesis
    using serve.tracked_tick [OF inv hs run] hs expire_records(1) [OF inv(3) run]
    by (simp add: st'_def Expiry_tick st run)
qed

lemma serve_run_tracked:
  "serve_ok st \<Longrightarrow> serve.tracked (fst st) (snd st) \<Longrightarrow> \<forall>r \<in> records (fst st). serve.homed h r \<Longrightarrow>
   list_all clean_event evs \<Longrightarrow> list_all (homed_event h) evs \<Longrightarrow>
   serve.tracked (fst (serve_run evs st)) (snd (serve_run evs st))"
proof (induction evs arbitrary: st)
  case (Cons ev evs)
  then show ?case
    using serve_step_ok [of st ev] serve_step_tracked [of st h ev] by (simp add: serve_run_def)
qed (simp add: serve_run_def)



text \<open>
  Without that assumption a channel can be lost for good. Instance \<open>a\<close> moves from port 1 to
  port 2 and back: the registry follows it to port 2, the browser stays silent about the
  return (the record for port 1 is still known), and the departure of port 2 then removes the
  source.
\<close>

definition rebind_run :: "net_event list" where
  "rebind_run =
     [Announce 0 0 0 (sample_alarm ''a'' 1),
      Announce (10 * second) (10 * second) (10 * second) (sample_alarm ''a'' 2),
      Announce (50 * second) (50 * second) (50 * second) (sample_alarm ''a'' 1),
      Expiry_tick (75 * second)]"

lemma rebind_run_state:
  "gm_get (br_services (fst (serve_run rebind_run (serve_init sample_options)))) (record_key (sample_alarm ''a'' 1)) \<noteq> None"
  "get_source (sv_reg (snd (serve_run rebind_run (serve_init sample_options)))) ''a'' = None"
  "records_ok (br_services (fst (serve_run rebind_run (serve_init sample_options))))"
  by code_simp+

lemma known_announcement_silent:
  "gm_get (br_services b) (record_key svc) \<noteq> None \<Longrightarrow>
   snd (sink_step change remove (Announce t t' n svc) (b, s)) = s
   \<and> gm_get (br_services (fst (sink_step change remove (Announce t t' n svc) (b, s)))) (record_key svc) \<noteq> None"
  by (auto simp: add_service_def Let_def)

lemma known_announcements_silent:
  "gm_get (br_services (fst st)) (record_key svc) \<noteq> None \<Longrightarrow>
   snd (serve_run (map (\<lambda>t. Announce t t t svc) ts) st) = snd st
   \<and> gm_get (br_services (fst (serve_run (map (\<lambda>t. Announce t t t svc) ts) st))) (record_key svc) \<noteq> None"
proof (induction ts arbitrary: st)
  case (Cons t ts)
  obtain b s where st: "st = (b, s)" by (cases st)
  show ?case
    using known_announcement_silent [of b svc on_change on_remove t t t s] Cons.prems
      Cons.IH [of "sink_step on_change on_remove (Announce t t t svc) (b, s)"]
    by (simp add: st serve_run_def del: sink_step.simps)
qed (simp add: serve_run_def)


end
