(* ===== verification/Tv.thy ===== *)
theory Tv
  imports Complex_Main Discovery
begin

text \<open>
  Package \<open>internal/tv\<close>: channel files, the built-in presets, and the subscriber that keeps one
  file per discovered channel source. The cable directory is a map from paths to contents; the
  operating system (home directory, failing calls, the search path) is an argument.
\<close>

section \<open>Paths\<close>

text \<open>\<open>filepath.Clean\<close> and \<open>filepath.Join\<close> of two elements, on a system with slashes.\<close>

definition clean_step :: "bool \<Rightarrow> string \<Rightarrow> string list \<Rightarrow> string list" where
  "clean_step rooted c st =
     (if c = [] \<or> c = ''.'' then st
      else if c = ''..'' then
        (if st \<noteq> [] \<and> last st \<noteq> ''..'' then butlast st else if rooted then st else st @ [c])
      else st @ [c])"

definition path_rooted :: "string \<Rightarrow> bool" where
  "path_rooted p \<longleftrightarrow> p \<noteq> [] \<and> hd p = CHR ''/''"

definition path_comps :: "string \<Rightarrow> string list" where
  "path_comps p = fold (clean_step (path_rooted p)) (split_char (CHR ''/'') p) []"

definition render_path :: "bool \<Rightarrow> string list \<Rightarrow> string" where
  "render_path rooted cs =
     (if rooted then ''/'' @ str_join ''/'' cs else if cs = [] then ''.'' else str_join ''/'' cs)"

definition clean_path :: "string \<Rightarrow> string" where
  "clean_path p = render_path (path_rooted p) (path_comps p)"

definition join_path :: "string \<Rightarrow> string \<Rightarrow> string" where
  "join_path a b =
     (if a = [] then (if b = [] then [] else clean_path b)
      else clean_path (if b = [] then a else a @ ''/'' @ b))"

section \<open>Presets and their TOML\<close>

record preset =
  pr_name :: string
  pr_description :: string
  pr_command :: string
  pr_watch :: rat
  pr_preview :: string

definition newline :: char where "newline = CHR 0x0A"
definition squote :: char where "squote = CHR 0x27"
definition dquote :: char where "dquote = CHR 0x22"
definition backslash :: char where "backslash = CHR 0x5C"

definition escape_quotes :: "string \<Rightarrow> string" where
  "escape_quotes s = concat (map (\<lambda>c. if c = dquote then [backslash, dquote] else [c]) s)"

text \<open>\<open>printf "%.1f"\<close> of a finite number: the nearest tenth, ties to the even one.\<close>

definition round_half_even :: "rat \<Rightarrow> int" where
  "round_half_even x =
     (let f = \<lfloor>x\<rfloor>; d = x - of_int f
      in if d < 1 / 2 then f else if d > 1 / 2 then f + 1 else if even f then f else f + 1)"

definition fmt_tenths :: "rat \<Rightarrow> string" where
  "fmt_tenths x =
     (let n = nat (round_half_even (10 * \<bar>x\<bar>))
      in (if x < 0 then ''-'' else []) @ show_nat (n div 10) @ ''.'' @ show_nat (n mod 10))"

definition sh_line :: "string \<Rightarrow> string" where
  "sh_line cmd = ''command = '' @ [squote] @ ''sh -c '' @ [dquote] @ escape_quotes cmd @ [dquote, squote]"

definition generate_toml :: "preset \<Rightarrow> string" where
  "generate_toml p =
     ''[metadata]'' @ [newline]
     @ ''name = '' @ [dquote] @ pr_name p @ [dquote, newline]
     @ ''description = '' @ [dquote] @ pr_description p @ [dquote, newline]
     @ [newline]
     @ ''[source]'' @ [newline]
     @ sh_line (pr_command p) @ [newline]
     @ ''watch = '' @ fmt_tenths (pr_watch p) @ [newline]
     @ [newline]
     @ ''[preview]'' @ [newline]
     @ sh_line (pr_preview p) @ [newline]
     @ [newline]
     @ ''[ui]'' @ [newline]
     @ ''layout = '' @ [dquote] @ ''portrait'' @ [dquote, newline]
     @ [newline]
     @ ''[ui.preview_panel]'' @ [newline]
     @ ''size = 40'' @ [newline]"

section \<open>File names\<close>

definition in_range :: "char \<Rightarrow> char \<Rightarrow> char \<Rightarrow> bool" where
  "in_range lo hi c \<longleftrightarrow> lo \<le> c \<and> c \<le> hi"

definition safe_char :: "char \<Rightarrow> bool" where
  "safe_char c \<longleftrightarrow> in_range (CHR ''a'') (CHR ''z'') c \<or> in_range (CHR ''A'') (CHR ''Z'') c
     \<or> in_range (CHR ''0'') (CHR ''9'') c \<or> c = CHR ''_'' \<or> c = CHR ''-''"

definition safe_rune :: "string \<Rightarrow> char" where
  "safe_rune r = (case r of [c] \<Rightarrow> if safe_char c then c else CHR ''-'' | _ \<Rightarrow> CHR ''-'')"

definition trim_set :: "(char \<Rightarrow> bool) \<Rightarrow> string \<Rightarrow> string" where
  "trim_set P s = rev (dropWhile P (rev (dropWhile P s)))"

definition file_stem :: "string \<Rightarrow> string" where
  "file_stem name =
     (let safe = trim_set (\<lambda>c. c = CHR ''.'' \<or> c = CHR ''-'') (map safe_rune (runes name))
      in if safe = [] then ''channel'' else safe)"

definition channel_file :: "string \<Rightarrow> string" where
  "channel_file name = ''ocd-'' @ file_stem name @ ''.toml''"

section \<open>The cable directory\<close>

text \<open>
  The answers of the operating system: the home directory, and for each call the error it
  fails with, if it fails. A failed write may leave other content behind.
\<close>

record cable_env =
  ce_home :: "string option"
  ce_mkdir :: "string \<Rightarrow> string option"
  ce_unreadable :: "string \<Rightarrow> bool"
  ce_write :: "string \<Rightarrow> string \<Rightarrow> (string \<times> string option) option"
  ce_remove :: "string \<Rightarrow> string option"

datatype tv_error = Create_dir string | Write_failed string | Remove_failed string

type_synonym files = "(string, string) gomap"

definition expand_home :: "string option \<Rightarrow> string \<Rightarrow> string" where
  "expand_home home path =
     (case cut_prefix ''~/'' path of
        Some rest \<Rightarrow> (case home of Some h \<Rightarrow> join_path h rest | None \<Rightarrow> path)
      | None \<Rightarrow> path)"

definition channel_path :: "cable_env \<Rightarrow> string \<Rightarrow> string \<Rightarrow> string" where
  "channel_path env dir name = join_path (expand_home (ce_home env) dir) (channel_file name)"

definition write_channel :: "cable_env \<Rightarrow> string \<Rightarrow> preset \<Rightarrow> files \<Rightarrow> files \<times> (tv_error + string \<times> bool)" where
  "write_channel env dir p fs =
     (case ce_mkdir env (expand_home (ce_home env) dir) of
        Some e \<Rightarrow> (fs, Inl (Create_dir e))
      | None \<Rightarrow>
          let content = generate_toml p;
              path = channel_path env dir (pr_name p);
              existing = (if ce_unreadable env path then None else gm_get fs path)
          in if existing = Some content then (fs, Inr (path, False))
             else (case ce_write env path content of
                     Some (e, left) \<Rightarrow>
                       (case left of None \<Rightarrow> fs | Some c \<Rightarrow> gm_put path c fs, Inl (Write_failed e))
                   | None \<Rightarrow> (gm_put path content fs, Inr (path, True))))"

definition remove_channel :: "cable_env \<Rightarrow> string \<Rightarrow> string \<Rightarrow> files \<Rightarrow> files \<times> (tv_error + string \<times> bool)" where
  "remove_channel env dir name fs =
     (let path = channel_path env dir name
      in case gm_get fs path of
           None \<Rightarrow> (fs, Inr (path, False))
         | Some _ \<Rightarrow>
             (case ce_remove env path of
                Some e \<Rightarrow> (fs, Inl (Remove_failed e))
              | None \<Rightarrow> (gm_del path fs, Inr (path, True))))"

section \<open>Built-in presets\<close>

definition quoted :: "string \<Rightarrow> string" where "quoted s = [dquote] @ s @ [dquote]"

definition signal_commands :: "bool \<Rightarrow> string \<Rightarrow> string \<times> string" where
  "signal_commands viz ep =
     (let source = ''tuner signals --endpoint='' @ ep
      in if viz then (source @ '' --json | tuner-viz signal --stdin --preview'',
                      source @ '' --json | tuner-viz signal --stdin --width 24 --preview'')
         else (source, source))"

definition signal_preset :: "bool \<Rightarrow> string \<Rightarrow> preset" where
  "signal_preset viz ep =
     (case signal_commands viz ep of (command, preview) \<Rightarrow>
        if viz then \<lparr>pr_name = ''signal'', pr_description = ''Alert Signal Strength (tuner-viz)'',
                     pr_command = command, pr_watch = 5, pr_preview = preview\<rparr>
        else \<lparr>pr_name = ''signal'', pr_description = ''Alert Signal Strength'',
              pr_command = command, pr_watch = 5, pr_preview = command\<rparr>)"

definition topology_preset :: "bool \<Rightarrow> string \<Rightarrow> preset" where
  "topology_preset viz ep =
     (if viz then
        \<lparr>pr_name = ''federation'', pr_description = ''Federation Topology (tuner-viz)'',
         pr_command = ''curl -s '' @ ep @ ''/hosted/status | tuner-viz topology --stdin'', pr_watch = 10,
         pr_preview = ''curl -s '' @ ep @ ''/hosted/status | tuner-viz topology --stdin''\<rparr>
      else
        \<lparr>pr_name = ''federation'', pr_description = ''Federation Topology'',
         pr_command = ''curl -s '' @ ep @ ''/hosted/status'', pr_watch = 10,
         pr_preview = ''curl -s '' @ ep @ ''/hosted/status''\<rparr>)"

definition builtin_presets :: "bool \<Rightarrow> (string, preset) gomap" where
  "builtin_presets viz =
     [(''mdns'',
       \<lparr>pr_name = ''mdns'', pr_description = ''Real-time mDNS Network Services'',
        pr_command = ''tuner mdns --duration=5s --services=_smoke-alarm._tcp,_tuner._tcp,_http._tcp,_https._tcp,_ssh._tcp,_smb._tcp,_afpovertcp._tcp,_airplay._tcp,_raop._tcp,_homekit._tcp,_googlecast._tcp,_spotify-connect._tcp'',
        pr_watch = 8, pr_preview = ''tuner mdns --duration=2s --format=json''\<rparr>),
      (''ntp'',
       \<lparr>pr_name = ''ntp'', pr_description = ''NTP Time Sync - Latency & Drift'',
        pr_command = ''date -u '' @ quoted ''+%Y-%m-%d %H:%M:%S UTC''
          @ '' && (sntp -t 2 time.apple.com 2>&1 || ntpdate -q time.apple.com 2>&1 || echo ''
          @ quoted ''ntp: checking system time only'' @ '')'',
        pr_watch = 10, pr_preview = ''date -u '' @ quoted ''+%Y-%m-%d %H:%M:%S UTC''\<rparr>),
      (''dns'',
       \<lparr>pr_name = ''dns'', pr_description = ''DNS Resolution Health'',
        pr_command = ''echo '' @ quoted ''DNS Resolution Test - $(date +%H:%M:%S)''
          @ '' && dig +short +time=2 +tries=1 example.com A 2>&1 && dig +short +time=2 +tries=1 google.com A 2>&1 && dig +short +time=2 +tries=1 cloudflare.com A 2>&1 || echo ''
          @ quoted ''dns: dig not available, trying host'' @ '' && host example.com 2>&1'',
        pr_watch = 15,
        pr_preview = ''dig +stats +time=2 example.com 2>&1 | grep -E '' @ quoted ''Query time|SERVER|status''
          @ '' || host example.com 2>&1''\<rparr>),
      (''ping'',
       \<lparr>pr_name = ''ping'', pr_description = ''ICMP Latency Monitor'',
        pr_command = ''echo '' @ quoted ''ICMP Latency - $(date +%H:%M:%S)''
          @ '' && ping -c 3 -W 2 1.1.1.1 2>&1 | tail -5'',
        pr_watch = 10, pr_preview = ''ping -c 1 -W 2 8.8.8.8 2>&1 | tail -3''\<rparr>),
      (''adhd-features'',
       \<lparr>pr_name = ''adhd-features'', pr_description = ''ADHD Feature & Skill Certification'',
        pr_command = ''tuner features'', pr_watch = 30, pr_preview = ''tuner features''\<rparr>),
      (''signal'', signal_preset viz ''http://localhost:17091''),
      (''federation'', topology_preset viz ''http://localhost:17091'')]"

text \<open>
  \<open>WriteAllPresets\<close> over the presets in the order the map is iterated: the paths and the count
  so far come back with an error.
\<close>

fun write_presets :: "cable_env \<Rightarrow> string \<Rightarrow> preset list \<Rightarrow> files \<Rightarrow> files \<times> string list \<times> nat \<times> tv_error option" where
  "write_presets env dir [] fs = (fs, [], 0, None)"
| "write_presets env dir (p # ps) fs =
     (case write_channel env dir p fs of
        (fs', Inl e) \<Rightarrow> (fs', [], 0, Some e)
      | (fs', Inr (path, wrote)) \<Rightarrow>
          (case write_presets env dir ps fs' of
             (fs'', paths, n, e) \<Rightarrow> (fs'', path # paths, (if wrote then Suc n else n), e)))"

section \<open>Discovered sources\<close>

definition discovered_preset :: "bool \<Rightarrow> source \<Rightarrow> preset" where
  "discovered_preset viz src =
     (case signal_commands viz (so_endpoint src) of (command, preview) \<Rightarrow>
        \<lparr>pr_name = so_instance src, pr_description = ''Discovered smoke-alarm '' @ so_instance src,
         pr_command = command, pr_watch = 5, pr_preview = preview\<rparr>)"

text \<open>The subscriber of \<open>WatchDiscovered\<close>: its effect on the cable directory.\<close>

definition watch_event :: "cable_env \<Rightarrow> bool \<Rightarrow> string \<Rightarrow> event \<Rightarrow> files \<Rightarrow> files" where
  "watch_event env viz dir ev fs =
     (let src = ev_source ev
      in if ev_kind ev = Retired then fst (remove_channel env dir (so_instance src) fs)
         else if gm_get (builtin_presets viz) (so_instance src) \<noteq> None then fs
         else fst (write_channel env dir (discovered_preset viz src) fs))"

text \<open>\<open>WatchDiscovered\<close>: without a cable directory nobody subscribes.\<close>

definition watch_discovered :: "cable_env \<Rightarrow> bool \<Rightarrow> string \<Rightarrow> event list \<Rightarrow> files \<Rightarrow> files" where
  "watch_discovered env viz dir evs fs = (if dir = [] then fs else fold (watch_event env viz dir) evs fs)"

section \<open>Launching Television\<close>

definition launch_television :: "(string \<Rightarrow> string option) \<Rightarrow> string option \<Rightarrow> string \<Rightarrow> string \<Rightarrow> (string \<times> string list) option" where
  "launch_television look_path home channel dir =
     (case (case look_path ''television'' of Some p \<Rightarrow> Some p | None \<Rightarrow> look_path ''tv'') of
        None \<Rightarrow> None
      | Some p \<Rightarrow>
          Some (p, (if dir \<noteq> [] then [''--cable-dir'', expand_home home dir] else [])
                   @ (if channel \<noteq> [] then [''--no-remote'', channel] else [])))"

section \<open>Where a channel file lands\<close>

lemma split_char_concat: "split_char c (d @ c # f) = split_char c d @ split_char c f"
proof (induction d)
  case (Cons x d)
  then show ?case by (cases "split_char c d") auto
qed simp

lemma split_char_snoc: "c \<notin> set f \<Longrightarrow> split_char c (d @ c # f) = split_char c d @ [f]"
  by (simp add: split_char_concat split_char_single)

definition plain_comp :: "string \<Rightarrow> bool" where
  "plain_comp f \<longleftrightarrow> f \<noteq> [] \<and> f \<noteq> ''.'' \<and> f \<noteq> ''..'' \<and> CHR ''/'' \<notin> set f"

lemma path_comps_Nil [simp]: "path_comps [] = []" "path_rooted [] = False"
  by (simp_all add: path_comps_def clean_step_def path_rooted_def)

lemma clean_step_plain: "plain_comp f \<Longrightarrow> clean_step r f st = st @ [f]"
  by (simp add: clean_step_def plain_comp_def)

lemma path_comps_snoc: "d \<noteq> [] \<Longrightarrow> plain_comp f \<Longrightarrow> path_comps (d @ CHR ''/'' # f) = path_comps d @ [f]"
  using split_char_snoc [of "CHR ''/''" f d]
  by (simp add: path_comps_def path_rooted_def plain_comp_def clean_step_plain [unfolded plain_comp_def])

lemma path_rooted_append: "d \<noteq> [] \<Longrightarrow> path_rooted (d @ x) = path_rooted d"
  by (simp add: path_rooted_def)

lemma plain_comp_rel: "plain_comp f \<Longrightarrow> \<not> path_rooted f"
  by (cases f) (auto simp: plain_comp_def path_rooted_def)

lemma path_comps_single: "plain_comp f \<Longrightarrow> path_comps f = [f]"
  by (simp add: path_comps_def split_char_single plain_comp_rel clean_step_plain) (simp add: plain_comp_def
      split_char_single clean_step_def)

lemma join_path_plain:
  assumes "plain_comp f"
  shows "join_path d f = render_path (path_rooted d) (path_comps d @ [f])"
proof (cases "d = []")
  case True
  then show ?thesis
    using assms by (simp add: join_path_def clean_path_def path_comps_single plain_comp_rel)
      (simp add: plain_comp_def render_path_def)
next
  case False
  moreover have "f \<noteq> []" using assms by (simp add: plain_comp_def)
  ultimately show ?thesis
    using assms by (simp add: join_path_def clean_path_def path_comps_snoc path_rooted_append)
qed

lemma clean_step_set: "w \<in> set (clean_step r c st) \<Longrightarrow> w = c \<or> w \<in> set st"
  by (auto simp: clean_step_def split: if_splits dest: in_set_butlastD)

lemma clean_fold_set: "w \<in> set (fold (clean_step r) ws st) \<Longrightarrow> w \<in> set ws \<or> w \<in> set st"
proof (induction ws arbitrary: st)
  case (Cons c ws)
  then have "w \<in> set ws \<or> w \<in> set (clean_step r c st)" by simp
  then show ?case using clean_step_set [of w r c st] by auto
qed simp

lemma path_comps_slash_free: "w \<in> set (path_comps d) \<Longrightarrow> CHR ''/'' \<notin> set w"
  unfolding path_comps_def
  using clean_fold_set [of w "path_rooted d" "split_char (CHR ''/'') d" "[]"] split_char_no_sep [of w "CHR ''/''" d]
  by simp

lemma render_path_inj:
  assumes "\<forall>w \<in> set (cs @ [f, g]). CHR ''/'' \<notin> set w" and "render_path r (cs @ [f]) = render_path r (cs @ [g])"
  shows "f = g"
proof -
  have "str_join [CHR ''/''] (cs @ [f]) = str_join [CHR ''/''] (cs @ [g])"
    using assms(2) by (cases r) (simp_all add: render_path_def)
  then have "split_char (CHR ''/'') (str_join [CHR ''/''] (cs @ [f])) =
      split_char (CHR ''/'') (str_join [CHR ''/''] (cs @ [g]))"
    by (rule arg_cong)
  moreover have "split_char (CHR ''/'') (str_join [CHR ''/''] (cs @ [h])) = cs @ [h]" if "h = f \<or> h = g" for h
    using assms(1) that by (intro split_join_char) auto
  ultimately have "cs @ [f] = cs @ [g]" by metis
  then show ?thesis by simp
qed

lemma join_path_inj:
  assumes "plain_comp f" and "plain_comp g" and "join_path d f = join_path d g"
  shows "f = g"
proof (rule render_path_inj)
  show "\<forall>w \<in> set (path_comps d @ [f, g]). CHR ''/'' \<notin> set w"
    using assms(1,2) path_comps_slash_free [of _ d] unfolding plain_comp_def set_append by auto
  show "render_path (path_rooted d) (path_comps d @ [f]) = render_path (path_rooted d) (path_comps d @ [g])"
    using assms by (simp only: join_path_plain)
qed

lemma safe_rune_safe: "safe_char (safe_rune r)"
  by (auto simp: safe_rune_def safe_char_def in_range_def split: list.splits)

lemma trim_set_subset: "set (trim_set P s) \<subseteq> set s"
  unfolding trim_set_def by (auto dest!: set_dropWhileD)

lemma file_stem_safe: "list_all safe_char (file_stem name)"
proof -
  have "list_all safe_char ''channel''" by code_simp
  moreover have "list_all safe_char (trim_set P (map safe_rune rs))" for P rs
    unfolding list_all_iff by (rule ballI, drule subsetD [OF trim_set_subset]) (auto simp: safe_rune_safe)
  ultimately show ?thesis
    by (simp add: file_stem_def Let_def)
qed

lemma file_stem_not_Nil: "file_stem name \<noteq> []"
  by (simp add: file_stem_def Let_def)

lemma channel_file_inj: "channel_file m = channel_file n \<longleftrightarrow> file_stem m = file_stem n"
  by (simp add: channel_file_def)

lemma channel_file_plain: "plain_comp (channel_file name)"
proof -
  have "\<not> safe_char (CHR ''/'')" by (simp add: safe_char_def in_range_def less_eq_char_def)
  then have "CHR ''/'' \<notin> set (file_stem name)"
    using file_stem_safe [of name] by (auto simp: list_all_iff)
  then show ?thesis by (simp add: plain_comp_def channel_file_def)
qed

lemma channel_path_inj: "channel_path env dir m = channel_path env dir n \<longleftrightarrow> channel_file m = channel_file n"
  unfolding channel_path_def using join_path_inj channel_file_plain by metis

text \<open>A label of safe characters with no dash at its ends is its own file stem.\<close>

definition plain_label :: "string \<Rightarrow> bool" where
  "plain_label n \<longleftrightarrow> n \<noteq> [] \<and> list_all safe_char n \<and> hd n \<noteq> CHR ''-'' \<and> last n \<noteq> CHR ''-''"

lemma safe_char_ascii: "safe_char c \<Longrightarrow> ascii_char c"
  by (auto simp: safe_char_def in_range_def ascii_char_def less_eq_char_def)

lemma file_stem_plain: "plain_label n \<Longrightarrow> file_stem n = n"
proof -
  assume n: "plain_label n"
  let ?P = "\<lambda>c. c = CHR ''.'' \<or> c = CHR ''-''"
  have safe: "list_all safe_char n" and ne: "n \<noteq> []" using n by (simp_all add: plain_label_def)
  have "map safe_rune (runes n) = n"
    using safe safe_char_ascii runes_all_ascii [of n]
    by (auto simp: list_all_iff safe_rune_def intro!: map_idI)
  moreover have "\<not> safe_char (CHR ''.'')" by (simp add: safe_char_def in_range_def less_eq_char_def)
  then have "\<not> ?P (hd n)" "\<not> ?P (last n)"
    using n hd_in_set [OF ne] last_in_set [OF ne] safe
    unfolding plain_label_def list_all_iff by metis+
  then have "trim_set ?P n = n"
    using ne dropWhile_eq_self_iff [of ?P n] dropWhile_eq_self_iff [of ?P "rev n"]
    by (simp add: trim_set_def hd_rev)
  ultimately show ?thesis using ne by (simp add: file_stem_def)
qed

text \<open>C26: A channel file cannot leave the cable directory: whatever the channel is called, its
  path is that of the cable directory with one more component, whose stem is a non-empty word of
  safe characters; and two channels share a file exactly when their stems agree.\<close>

theorem channel_path_confined:
  "channel_path env dir name =
     render_path (path_rooted (expand_home (ce_home env) dir))
       (path_comps (expand_home (ce_home env) dir) @ [''ocd-'' @ file_stem name @ ''.toml''])
   \<and> file_stem name \<noteq> [] \<and> list_all safe_char (file_stem name)
   \<and> (channel_path env dir name = channel_path env dir other) = (file_stem name = file_stem other)"
proof (intro conjI)
  show "channel_path env dir name = render_path (path_rooted (expand_home (ce_home env) dir))
      (path_comps (expand_home (ce_home env) dir) @ [''ocd-'' @ file_stem name @ ''.toml''])"
    unfolding channel_path_def join_path_plain [OF channel_file_plain] by (simp add: channel_file_def)
qed (simp_all add: file_stem_safe file_stem_not_Nil channel_path_inj channel_file_inj)

section \<open>Writing and removing channels\<close>

definition env_works :: "cable_env \<Rightarrow> bool" where
  "env_works env \<longleftrightarrow> ce_mkdir env = (\<lambda>_. None) \<and> ce_write env = (\<lambda>_ _. None) \<and> ce_remove env = (\<lambda>_. None)"

lemma write_channel_works:
  assumes "env_works env"
  shows "gm_get (fst (write_channel env dir p fs)) = (gm_get fs)(channel_path env dir (pr_name p) \<mapsto> generate_toml p)"
    and "\<exists>w. snd (write_channel env dir p fs) = Inr (channel_path env dir (pr_name p), w)"
  using assms by (auto simp: write_channel_def env_works_def Let_def fun_eq_iff split: if_splits)

lemma remove_channel_works:
  assumes "env_works env"
  shows "gm_get (fst (remove_channel env dir name fs)) = (gm_get fs)(channel_path env dir name := None)"
  using assms by (auto simp: remove_channel_def env_works_def Let_def fun_eq_iff split: option.splits)

text \<open>Writing a channel touches its own file only, whatever fails; when it succeeds the file
  holds the channel's TOML, and it reports no write exactly when nothing had to change. Writing
  again then reports no write (unless the file cannot be read).\<close>

theorem write_channel_exact:
  "(case write_channel env dir p fs of
      (fs', res) \<Rightarrow>
        (gm_get fs')(channel_path env dir (pr_name p) := x) = (gm_get fs)(channel_path env dir (pr_name p) := x)
        \<and> (case res of
             Inl _ \<Rightarrow> True
           | Inr (path, wrote) \<Rightarrow>
               path = channel_path env dir (pr_name p) \<and> gm_get fs' path = Some (generate_toml p)
               \<and> wrote = (ce_unreadable env path \<or> gm_get fs path \<noteq> Some (generate_toml p))
               \<and> (ce_unreadable env path \<or> write_channel env dir p fs' = (fs', Inr (path, False)))))"
  by (auto simp: write_channel_def Let_def fun_eq_iff split: option.splits if_splits prod.splits)

lemma write_presets_works:
  assumes "env_works env"
  shows "case write_presets env dir ps fs of (fs', paths, n, e) \<Rightarrow>
     e = None \<and> paths = map (channel_path env dir \<circ> pr_name) ps \<and>
     gm_get fs' = gm_get fs ++ map_of (rev (map (\<lambda>p. (channel_path env dir (pr_name p), generate_toml p)) ps))"
proof (induction ps arbitrary: fs)
  case (Cons p ps)
  obtain w where "snd (write_channel env dir p fs) = Inr (channel_path env dir (pr_name p), w)"
    using write_channel_works(2) [OF assms] by blast
  then have w: "write_channel env dir p fs =
      (fst (write_channel env dir p fs), Inr (channel_path env dir (pr_name p), w))"
    by (metis prod.collapse)
  show ?case
    using Cons.IH [of "fst (write_channel env dir p fs)"] write_channel_works(1) [OF assms, of dir p fs]
    by (subst write_presets.simps, subst w) (auto simp: fun_eq_iff map_add_def split: prod.splits option.splits)
qed simp

section \<open>The directory follows the registry\<close>

definition discovered_toml :: "bool \<Rightarrow> string \<Rightarrow> string \<Rightarrow> string" where
  "discovered_toml viz name ep =
     generate_toml \<lparr>pr_name = name, pr_description = ''Discovered smoke-alarm '' @ name,
       pr_command = fst (signal_commands viz ep), pr_watch = 5, pr_preview = snd (signal_commands viz ep)\<rparr>"

lemma discovered_preset_toml:
  "generate_toml (discovered_preset viz src) = discovered_toml viz (so_instance src) (so_endpoint src)"
  "pr_name (discovered_preset viz src) = so_instance src"
  by (simp_all add: discovered_preset_def discovered_toml_def case_prod_unfold)

definition cable_tracks :: "cable_env \<Rightarrow> bool \<Rightarrow> string \<Rightarrow> string set \<Rightarrow> files \<Rightarrow> (string \<Rightarrow> source_view option) \<Rightarrow> bool" where
  "cable_tracks env viz dir K fs m \<longleftrightarrow>
     (\<forall>k \<in> K. gm_get fs (channel_path env dir k) = map_option (\<lambda>v. discovered_toml viz k (fst v)) (m k))"

definition cable_names :: "bool \<Rightarrow> string set \<Rightarrow> bool" where
  "cable_names viz K \<longleftrightarrow> inj_on channel_file K \<and> (\<forall>k \<in> K. gm_get (builtin_presets viz) k = None)"

lemma watch_event_get:
  assumes "env_works env" and "cable_names viz K" and "so_instance (ev_source ev) \<in> K"
  shows "gm_get (watch_event env viz dir ev fs) = (gm_get fs)(channel_path env dir (so_instance (ev_source ev)) :=
     (if ev_kind ev = Retired then None
      else Some (discovered_toml viz (so_instance (ev_source ev)) (so_endpoint (ev_source ev)))))"
  using assms
  by (simp add: watch_event_def Let_def write_channel_works remove_channel_works discovered_preset_toml cable_names_def)

lemma watch_event_tracks:
  assumes "env_works env" and K: "cable_names viz K" and ev: "so_instance (ev_source ev) \<in> K"
    and "cable_tracks env viz dir K fs m"
  shows "cable_tracks env viz dir K (watch_event env viz dir ev fs) (mirror ev m)"
proof -
  have same: "channel_path env dir k = channel_path env dir (so_instance (ev_source ev)) \<longleftrightarrow> k = so_instance (ev_source ev)"
    if "k \<in> K" for k
    using that ev K by (auto simp: channel_path_inj cable_names_def inj_on_eq_iff)
  show ?thesis
    using assms(4) same
    by (simp add: cable_tracks_def watch_event_get [OF assms(1,2,3)] mirror_def view_of_def)
qed

lemma watch_events_track:
  assumes "env_works env" and "cable_names viz K"
  shows "\<forall>ev \<in> set evs. so_instance (ev_source ev) \<in> K \<Longrightarrow> cable_tracks env viz dir K fs m \<Longrightarrow>
     cable_tracks env viz dir K (fold (watch_event env viz dir) evs fs) (fold mirror evs m)"
  by (induction evs arbitrary: fs m) (simp_all add: watch_event_tracks [OF assms])

lemma watch_event_other:
  assumes "path \<noteq> channel_path env dir (so_instance (ev_source ev))"
  shows "gm_get (watch_event env viz dir ev fs) path = gm_get fs path"
proof -
  have "pr_name (discovered_preset viz src) = so_instance src" for src
    by (simp add: discovered_preset_def case_prod_unfold)
  then show ?thesis
    using assms
    by (auto simp: watch_event_def write_channel_def remove_channel_def Let_def split: option.split prod.split)
qed

lemma watch_events_frame:
  assumes "q \<notin> channel_path env dir ` K"
  shows "\<forall>ev \<in> set evs. so_instance (ev_source ev) \<in> K \<Longrightarrow>
     gm_get (fold (watch_event env viz dir) evs fs) q = gm_get fs q"
  using assms by (induction evs arbitrary: fs) (auto intro: watch_event_other trans)

text \<open>
  In the serving process the events are those of the registry, so the two views agree, and only
  the announced instances occur in them.
\<close>

definition feed_tracks :: "string set \<Rightarrow> serve_state \<Rightarrow> bool" where
  "feed_tracks K s \<longleftrightarrow> registry_ok (sv_reg s) \<and> registry_view (sv_reg s) = fold mirror (sv_events s) (\<lambda>_. None)
     \<and> (\<forall>k. get_source (sv_reg s) k \<noteq> None \<longrightarrow> k \<in> K)
     \<and> (\<forall>ev \<in> set (sv_events s). so_instance (ev_source ev) \<in> K)"

lemma on_change_events:
  "sv_reg (on_change now svc s) = fst (reg_apply (Observe now svc) (sv_reg s))"
  "sv_events (on_change now svc s) = sv_events s @ snd (reg_apply (Observe now svc) (sv_reg s))"
  by (auto simp: on_change_def Let_def split: prod.splits option.splits)

lemma on_remove_events:
  "sv_reg (on_remove svc s) = fst (reg_apply (Retire svc) (sv_reg s))"
  "sv_events (on_remove svc s) = sv_events s @ snd (reg_apply (Retire svc) (sv_reg s))"
  by (auto simp: on_remove_def split: prod.splits option.splits)

lemma reg_apply_instances:
  "ev \<in> set (snd (reg_apply (Observe now svc) r)) \<Longrightarrow> registry_ok r \<Longrightarrow> so_instance (ev_source ev) = service_instance svc"
  "ev \<in> set (snd (reg_apply (Retire svc) r)) \<Longrightarrow> registry_ok r \<Longrightarrow>
     so_instance (ev_source ev) = service_instance svc \<and> get_source r (service_instance svc) \<noteq> None"
  by (auto simp: observe_def retire_def get_source_def Let_def dest: registry_okD split: option.splits if_splits)

lemma reg_apply_keys:
  "get_source (fst (reg_apply (Observe now svc) r)) k \<noteq> None \<Longrightarrow> k = service_instance svc \<or> get_source r k \<noteq> None"
  "get_source (fst (reg_apply (Retire svc) r)) k \<noteq> None \<Longrightarrow> get_source r k \<noteq> None"
  by (cases "k = service_instance svc"; simp add: reg_apply_fst observe_get_other del: reg_apply.simps)
    (cases "k = service_instance svc"; auto simp: reg_apply_fst retire_get_other retire_def get_source_def
      simp del: reg_apply.simps split: option.splits if_splits)

lemma feed_tracks_apply:
  assumes "feed_tracks K s" and "\<And>ev. ev \<in> set (snd (reg_apply x (sv_reg s))) \<Longrightarrow> so_instance (ev_source ev) \<in> K"
    and "\<And>k. get_source (fst (reg_apply x (sv_reg s))) k \<noteq> None \<Longrightarrow> k \<in> K"
    and "sv_reg s' = fst (reg_apply x (sv_reg s))" and "sv_events s' = sv_events s @ snd (reg_apply x (sv_reg s))"
  shows "feed_tracks K s'"
  using assms reg_apply_ok [of "sv_reg s" x] reg.step_view [of "sv_reg s" x]
  by (auto simp: feed_tracks_def)

lemma on_change_tracks:
  assumes "feed_tracks K s" and "service_instance svc \<in> K"
  shows "feed_tracks K (on_change now svc s)"
proof (rule feed_tracks_apply [OF assms(1) _ _ on_change_events])
  have ok: "registry_ok (sv_reg s)" and keys: "\<And>k. get_source (sv_reg s) k \<noteq> None \<Longrightarrow> k \<in> K"
    using assms(1) by (simp_all add: feed_tracks_def)
  show "so_instance (ev_source ev) \<in> K" if "ev \<in> set (snd (reg_apply (Observe now svc) (sv_reg s)))" for ev
    using reg_apply_instances(1) [OF that ok] assms(2) by simp
  show "k \<in> K" if "get_source (fst (reg_apply (Observe now svc) (sv_reg s))) k \<noteq> None" for k
    using reg_apply_keys(1) [OF that] keys assms(2) by blast
qed

lemma on_remove_tracks:
  assumes "feed_tracks K s"
  shows "feed_tracks K (on_remove svc s)"
proof (rule feed_tracks_apply [OF assms _ _ on_remove_events])
  have ok: "registry_ok (sv_reg s)" and keys: "\<And>k. get_source (sv_reg s) k \<noteq> None \<Longrightarrow> k \<in> K"
    using assms by (simp_all add: feed_tracks_def)
  show "so_instance (ev_source ev) \<in> K" if "ev \<in> set (snd (reg_apply (Retire svc) (sv_reg s)))" for ev
    using reg_apply_instances(2) [OF that ok] keys by simp
  show "k \<in> K" if "get_source (fst (reg_apply (Retire svc) (sv_reg s))) k \<noteq> None" for k
    using reg_apply_keys(2) [OF that] keys by blast
qed

definition announced_in :: "string set \<Rightarrow> net_event \<Rightarrow> bool" where
  "announced_in K ev = (case ev of Announce _ _ _ svc \<Rightarrow> service_instance svc \<in> K | Expiry_tick _ \<Rightarrow> True)"

lemma sink_step_tracks:
  assumes "feed_tracks K (snd st)" and "announced_in K ev"
  shows "feed_tracks K (snd (sink_step on_change on_remove ev st))"
proof (cases ev)
  case (Announce seen found now svc)
  obtain b s where st: "st = (b, s)" by (cases st)
  have "service_instance rec = service_instance svc" if "snd (add_service seen found svc b) = Some rec" for rec
    using that service_instance_cong [of rec svc] by (auto simp: add_service_def Let_def split: if_splits)
  then show ?thesis
    using assms on_change_tracks [of K s]
    by (auto simp: Announce st announced_in_def split: prod.splits option.splits)
next
  case (Expiry_tick now)
  have "feed_tracks K s \<Longrightarrow> feed_tracks K (fold on_remove xs s)" for xs s
    by (induction xs arbitrary: s) (simp_all add: on_remove_tracks)
  then show ?thesis
    using assms by (cases st) (auto simp: Expiry_tick split: prod.splits)
qed

lemma serve_run_feed_tracks:
  "feed_tracks K (snd st) \<Longrightarrow> list_all (announced_in K) evs \<Longrightarrow> feed_tracks K (snd (serve_run evs st))"
  by (induction evs arbitrary: st) (simp_all add: serve_run_def sink_step_tracks)

lemma serve_init_feed_tracks: "feed_tracks K (snd (serve_init opts))"
  by (simp add: serve_init_def feed_tracks_def new_registry_def registry_ok_def gm.holds_all_def
      registry_view_def get_source_def fun_eq_iff)

lemma cable_follows_feed:
  assumes "env_works env" and "dir \<noteq> []" and "cable_names viz K" and feed: "feed_tracks K s"
    and "\<forall>k \<in> K. gm_get fs (channel_path env dir k) = None"
  shows "k \<in> K \<Longrightarrow> gm_get (watch_discovered env viz dir (sv_events s) fs) (channel_path env dir k) =
        map_option (\<lambda>src. generate_toml (discovered_preset viz src)) (get_source (sv_reg s) k)"
    and "q \<notin> channel_path env dir ` K \<Longrightarrow> gm_get (watch_discovered env viz dir (sv_events s) fs) q = gm_get fs q"
proof -
  have "cable_tracks env viz dir K fs (\<lambda>_. None)"
    using assms(5) by (simp add: cable_tracks_def)
  then have tracks: "cable_tracks env viz dir K (watch_discovered env viz dir (sv_events s) fs) (registry_view (sv_reg s))"
    using watch_events_track [OF assms(1,3), of "sv_events s" dir fs] feed assms(2)
    by (simp add: feed_tracks_def watch_discovered_def)
  have "so_instance src = k" if "get_source (sv_reg s) k = Some src" for src k
    using that feed registry_okD by (fastforce simp: feed_tracks_def get_source_def)
  with tracks show "gm_get (watch_discovered env viz dir (sv_events s) fs) (channel_path env dir k) =
      map_option (\<lambda>src. generate_toml (discovered_preset viz src)) (get_source (sv_reg s) k)" if "k \<in> K"
    using that by (cases "get_source (sv_reg s) k")
      (auto simp: cable_tracks_def registry_view_def view_of_def discovered_preset_toml)
  show "gm_get (watch_discovered env viz dir (sv_events s) fs) q = gm_get fs q"
    if "q \<notin> channel_path env dir ` K"
    using watch_events_frame [OF that, where evs = "sv_events s" and viz = viz and fs = fs] feed assms(2)
    by (simp add: feed_tracks_def watch_discovered_def)
qed


definition sample_env :: cable_env where
  "sample_env = \<lparr>ce_home = Some ''/home/op'', ce_mkdir = (\<lambda>_. None), ce_unreadable = (\<lambda>_. False),
     ce_write = (\<lambda>_ _. None), ce_remove = (\<lambda>_. None)\<rparr>"

lemma sample_env_works: "env_works sample_env"
  by (simp add: env_works_def sample_env_def)

theorem write_channel_exact_witness:
  "case write_channel sample_env ''~/cable'' (signal_preset True ''http://h:1'') [] of
     (fs', res) \<Rightarrow>
       res = Inr (channel_path sample_env ''~/cable'' ''signal'', True)
       \<and> gm_get fs' (channel_path sample_env ''~/cable'' ''signal'') = Some (generate_toml (signal_preset True ''http://h:1''))"
proof -
  let ?p = "signal_preset True ''http://h:1''"
  have n: "pr_name ?p = ''signal''" by (simp add: signal_preset_def case_prod_unfold)
  obtain w where r: "snd (write_channel sample_env ''~/cable'' ?p []) = Inr (channel_path sample_env ''~/cable'' ''signal'', w)"
    using write_channel_works(2) [OF sample_env_works, of "''~/cable''" ?p "[]"] n by auto
  then show ?thesis
    using write_channel_exact [where env = sample_env and dir = "''~/cable''" and p = ?p and fs = "[]"] n
    by (cases "write_channel sample_env ''~/cable'' ?p []") simp
qed

lemma sample_names: "cable_names viz {''a''}"
  by (simp add: cable_names_def builtin_presets_def signal_preset_def topology_preset_def case_prod_unfold)

lemma sample_announced: "list_all (announced_in {''a''}) sample_announcements"
  by (simp add: sample_announcements_def announced_in_def sample_alarm_instance)


section \<open>Presets\<close>

text \<open>
  What keeps a rendered channel a TOML document of the template's shape: no line break anywhere,
  nothing that ends or escapes in the basic strings, no single quote in the literal strings.
\<close>

definition toml_safe :: "preset \<Rightarrow> bool" where
  "toml_safe p \<longleftrightarrow>
     list_all (\<lambda>c. c \<noteq> newline \<and> c \<noteq> dquote \<and> c \<noteq> backslash) (pr_name p @ pr_description p)
     \<and> list_all (\<lambda>c. c \<noteq> newline \<and> c \<noteq> squote) (pr_command p @ pr_preview p)"

lemma builtin_files_distinct: "distinct (map (channel_file \<circ> fst) (builtin_presets viz))"
  by (cases viz; simp only:; code_simp)

lemma builtin_presets_named:
  "list_all (\<lambda>(k, p). pr_name p = k \<and> toml_safe p \<and> channel_file k = ''ocd-'' @ k @ ''.toml'') (builtin_presets viz)"
  by (cases viz; simp only:; code_simp)

text \<open>The built-in channels are sound, with or without tuner-viz: each is filed under its own
  name, no two share a file, each file is named after its channel, and each renders as a
  well-formed document.\<close>

theorem builtin_presets_sound:
  "list_all (\<lambda>(k, p). pr_name p = k \<and> toml_safe p \<and> channel_file k = ''ocd-'' @ k @ ''.toml'') (builtin_presets viz)
   \<and> distinct (map (channel_file \<circ> fst) (builtin_presets viz))"
  by (simp only: builtin_presets_named builtin_files_distinct simp_thms)

lemma builtin_paths_distinct:
  "distinct (map (\<lambda>p. channel_path env dir (pr_name p)) (map snd (builtin_presets viz)))"
proof -
  have "map (\<lambda>p. channel_file (pr_name p)) (map snd (builtin_presets viz)) =
      map (channel_file \<circ> fst) (builtin_presets viz)"
    using builtin_presets_named [of viz] by (auto simp: list_all_iff)
  then have "distinct (map (\<lambda>p. channel_file (pr_name p)) (map snd (builtin_presets viz)))"
    by (simp only: builtin_files_distinct)
  then show ?thesis
    by (auto simp: distinct_map inj_on_def channel_path_inj)
qed

text \<open>Syncing the presets is complete and idempotent, in whatever order the map is iterated:
  with a working file system every preset's file holds its TOML afterwards, no other file
  changes, and a second sync with readable files, in any other order, writes nothing.\<close>

theorem write_presets_sync:
  assumes "env_works env" and "mset ps = mset (map snd (builtin_presets viz))"
    and "write_presets env dir ps fs = (fs', paths, n, e)"
  shows "e = None \<and> paths = map (channel_path env dir \<circ> pr_name) ps
    \<and> (\<forall>p \<in> set ps. gm_get fs' (channel_path env dir (pr_name p)) = Some (generate_toml p))
    \<and> (\<forall>q. q \<notin> set paths \<longrightarrow> gm_get fs' q = gm_get fs q)
    \<and> (ce_unreadable env = (\<lambda>_. False) \<longrightarrow> mset ps' = mset ps \<longrightarrow>
         write_presets env dir ps' fs' = (fs', map (channel_path env dir \<circ> pr_name) ps', 0, None))"
proof (intro conjI)
  let ?tab = "map (\<lambda>p. (channel_path env dir (pr_name p), generate_toml p)) ps"
  have run: "e = None" "paths = map (channel_path env dir \<circ> pr_name) ps" "gm_get fs' = gm_get fs ++ map_of (rev ?tab)"
    using write_presets_works [OF assms(1), of dir ps fs] assms(3) by simp_all
  then show "e = None" and paths: "paths = map (channel_path env dir \<circ> pr_name) ps" by simp_all
  have "mset (map (\<lambda>p. channel_path env dir (pr_name p)) ps)
      = mset (map (\<lambda>p. channel_path env dir (pr_name p)) (map snd (builtin_presets viz)))"
    using assms(2) by (metis mset_map)
  then have dist: "distinct (map (\<lambda>p. channel_path env dir (pr_name p)) ps)"
    using builtin_paths_distinct mset_eq_imp_distinct_iff by metis
  then have tab: "map_of (rev ?tab) = map_of ?tab"
    using gm_perm_get [of ?tab "rev ?tab"] by (simp add: o_def)
  show files: "\<forall>p \<in> set ps. gm_get fs' (channel_path env dir (pr_name p)) = Some (generate_toml p)"
  proof
    fix p assume "p \<in> set ps"
    then have "map_of ?tab (channel_path env dir (pr_name p)) = Some (generate_toml p)"
      using dist by (intro map_of_is_SomeI) (auto simp: o_def)
    then show "gm_get fs' (channel_path env dir (pr_name p)) = Some (generate_toml p)"
      by (simp add: run(3) tab)
  qed
  show "\<forall>q. q \<notin> set paths \<longrightarrow> gm_get fs' q = gm_get fs q"
  proof (intro allI impI)
    fix q assume "q \<notin> set paths"
    then have "map_of ?tab q = None"
      by (auto simp: paths map_of_eq_None_iff)
    then show "gm_get fs' q = gm_get fs q"
      by (simp add: run(3) tab map_add_def)
  qed
  show "ce_unreadable env = (\<lambda>_. False) \<longrightarrow> mset ps' = mset ps \<longrightarrow>
      write_presets env dir ps' fs' = (fs', map (channel_path env dir \<circ> pr_name) ps', 0, None)"
  proof (intro impI)
    assume readable: "ce_unreadable env = (\<lambda>_. False)" and "mset ps' = mset ps"
    then have "set ps' = set ps" by (metis mset_eq_setD)
    then have "\<forall>p \<in> set ps'. gm_get fs' (channel_path env dir (pr_name p)) = Some (generate_toml p)"
      using files by simp
    then show "write_presets env dir ps' fs' = (fs', map (channel_path env dir \<circ> pr_name) ps', 0, None)"
    proof (induction ps')
      case (Cons p ps)
      have "write_channel env dir p fs' = (fs', Inr (channel_path env dir (pr_name p), False))"
        using Cons.prems readable assms(1) by (simp add: write_channel_def env_works_def Let_def)
      with Cons show ?case by simp
    qed simp
  qed
qed

theorem write_presets_sync_witness:
  "gm_get (fst (write_presets sample_env ''~/cable'' (map snd (builtin_presets False)) []))
     (channel_path sample_env ''~/cable'' ''ntp'') \<noteq> None"
proof -
  let ?r = "write_presets sample_env ''~/cable'' (map snd (builtin_presets False)) []"
  have "\<exists>p \<in> set (map snd (builtin_presets False)). pr_name p = ''ntp''"
    by (simp add: builtin_presets_def)
  then show ?thesis
    using write_presets_sync [OF sample_env_works refl, of "''~/cable''" False "[]" "fst ?r" "fst (snd ?r)"
        "fst (snd (snd ?r))" "snd (snd (snd ?r))"]
    by (metis option.distinct(1) prod.collapse)
qed

text \<open>
  Two limits of the generated channels. The retirement branch does not ask whether the instance
  shadows a preset, and file stems fold different labels together; and labels go into the
  document unescaped.
\<close>

text \<open>A retired instance takes the file of whatever channel has its stem: when an instance
  called like a built-in preset (or folding to its file name) appears and departs, the preset's
  file is gone, although the discovered one was never written.\<close>

theorem retirement_removes_preset:
  assumes "ce_remove env = (\<lambda>_. None)" and "dir \<noteq> []"
    and "gm_get (builtin_presets viz) name = Some p" and "file_stem (so_instance src) = file_stem name"
  shows "gm_get (watch_discovered env viz dir
       [\<lparr>ev_kind = Added, ev_source = src\<rparr>, \<lparr>ev_kind = Retired, ev_source = src\<rparr>] fs)
     (channel_path env dir (pr_name p)) = None"
proof -
  have "pr_name p = name"
    using assms(3) builtin_presets_named [of viz] by (auto simp: list_all_iff dest!: map_of_SomeD)
  moreover have "channel_path env dir (so_instance src) = channel_path env dir name"
    using assms(4) by (simp add: channel_path_inj channel_file_inj)
  ultimately show ?thesis
    using assms(1,2) by (simp add: watch_discovered_def watch_event_def remove_channel_def Let_def split: option.split)
qed

theorem retirement_removes_preset_witness:
  "gm_get (watch_discovered sample_env True ''~/cable''
       [\<lparr>ev_kind = Added, ev_source = source_from (sample_alarm ''ntp/'' 1)\<rparr>,
        \<lparr>ev_kind = Retired, ev_source = source_from (sample_alarm ''ntp/'' 1)\<rparr>]
       (fst (write_presets sample_env ''~/cable'' (map snd (builtin_presets True)) [])))
     (channel_path sample_env ''~/cable'' ''ntp'') = None"
proof -
  have "file_stem (so_instance (source_from (sample_alarm ''ntp/'' 1))) = file_stem ''ntp''" by code_simp
  moreover have "map_option pr_name (gm_get (builtin_presets True) ''ntp'') = Some ''ntp''"
    by (simp add: builtin_presets_def)
  then obtain p where "gm_get (builtin_presets True) ''ntp'' = Some p" "pr_name p = ''ntp''" by auto
  moreover have "ce_remove sample_env = (\<lambda>_. None)" by (simp add: sample_env_def)
  ultimately show ?thesis
    using retirement_removes_preset [of sample_env "''~/cable''" True "''ntp''" p
        "source_from (sample_alarm ''ntp/'' 1)"] by simp
qed

lemma split_char_mid: "c \<notin> set w \<Longrightarrow> w \<in> set (split_char c (u @ c # w @ c # v))"
  by (simp add: split_char_concat split_char_single)

text \<open>C40: Labels go into the document unescaped: any line an instance label contains is a line of
  its channel's TOML, so an announced name can add settings of its own.\<close>

theorem label_line_injected:
  assumes "newline \<notin> set line" and "so_instance src = pre @ newline # line @ newline # post"
  shows "line \<in> set (split_char newline (generate_toml (discovered_preset viz src)))"
proof -
  define post' where "post' = post @ drop (length (''[metadata]'' @ [newline] @ ''name = '' @ [dquote] @ so_instance src))
    (generate_toml (discovered_preset viz src))"
  have "generate_toml (discovered_preset viz src) =
      (''[metadata]'' @ [newline] @ ''name = '' @ [dquote] @ pre) @ newline # line @ newline # post'"
    by (simp add: post'_def generate_toml_def discovered_preset_toml assms(2))
  then show ?thesis
    using split_char_mid [OF assms(1)] by metis
qed

theorem label_line_injected_witness:
  "''[source]'' \<in> set (split_char newline (generate_toml (discovered_preset False
     (source_from (sample_alarm (''x'' @ newline # ''[source]'' @ newline # ''y'') 1)))))"
  by (rule label_line_injected [of _ _ "''x''" "''y''"]; code_simp)

end
