(* ===== verification/Signal.thy ===== *)
theory Signal
  imports GoStrings GoFloat
begin

text \<open>
  Package \<open>internal/signal\<close>: signal strength with its linear decay in \<open>float64\<close>, the bar, and
  the reading of a monitor's status document. What \<open>encoding/json\<close> decodes is an argument.
\<close>

section \<open>Alerts and their strength\<close>

definition severity_critical :: f64 where "severity_critical = Fin (round64 1)"
definition severity_warn :: f64 where "severity_warn = Fin (round64 (6 / 10))"
definition severity_info :: f64 where "severity_info = Fin (round64 (3 / 10))"

record alert =
  al_id :: string
  al_severity :: string
  al_triggered_at :: time
  al_source :: string
  al_message :: string

definition severity_weight :: "string \<Rightarrow> f64" where
  "severity_weight severity =
     (if severity = ''critical'' then severity_critical
      else if severity = ''warn'' \<or> severity = ''warning'' then severity_warn
      else severity_info)"

definition strength :: "time \<Rightarrow> alert \<Rightarrow> duration \<Rightarrow> f64" where
  "strength now alert max_age =
     (let weight = severity_weight (al_severity alert);
          age = time_sub now (al_triggered_at alert)
      in if age > max_age then Fin 0
         else let decay = f64_sub (Fin 1) (f64_div (f64_of_int age) (f64_of_int max_age))
              in f64_mul weight decay)"

section \<open>The bar\<close>

definition full_cell :: string where "full_cell = [CHR 0xE2, CHR 0x96, CHR 0x88]"
definition light_cell :: string where "light_cell = [CHR 0xE2, CHR 0x96, CHR 0x91]"

definition repeat_str :: "string \<Rightarrow> int \<Rightarrow> string" where
  "repeat_str s n = concat (replicate (nat n) s)"

definition bar_filled :: "(f64 \<Rightarrow> int) \<Rightarrow> f64 \<Rightarrow> int \<Rightarrow> int" where
  "bar_filled impl v bars =
     (let filled = f64_to_int impl (f64_mul v (f64_of_int bars));
          filled = (if filled > bars then bars else filled)
      in if filled < 0 then 0 else filled)"

definition viz_bar :: "(f64 \<Rightarrow> int) \<Rightarrow> f64 \<Rightarrow> int \<Rightarrow> string" where
  "viz_bar impl v bars =
     (let filled = bar_filled impl v bars
      in repeat_str full_cell filled @ repeat_str light_cell (bars - filled))"

section \<open>Status documents\<close>

record target_status =
  ts_id :: string
  ts_state :: string
  ts_severity :: string
  ts_message :: string
  ts_checked_at :: time

record status_document =
  sd_alerts :: "alert list"
  sd_targets :: "target_status list"

definition severity_for :: "string \<Rightarrow> string \<Rightarrow> string" where
  "severity_for severity state =
     (let s = to_lower (trim_space severity)
      in if s = ''critical'' then ''critical''
         else if s = ''warn'' \<or> s = ''warning'' then ''warn''
         else if s = ''info'' then ''info''
         else if state \<in> {''unhealthy'', ''outage'', ''regression'', ''down'', ''failed''} then ''critical''
         else ''warn'')"

definition target_state :: "target_status \<Rightarrow> string" where
  "target_state t = to_lower (trim_space (ts_state t))"

definition alert_for :: "target_status \<Rightarrow> alert option" where
  "alert_for t =
     (let state = target_state t
      in if state \<in> {''healthy'', ''unknown'', []} then None
         else Some \<lparr>al_id = ts_id t, al_severity = severity_for (ts_severity t) state,
                    al_triggered_at = ts_checked_at t, al_source = ts_id t, al_message = ts_message t\<rparr>)"

definition document_alerts :: "status_document \<Rightarrow> alert list" where
  "document_alerts d =
     (if sd_alerts d \<noteq> [] then sd_alerts d else List.map_filter alert_for (sd_targets d))"

definition first_line :: "string \<Rightarrow> string" where
  "first_line s = takeWhile (\<lambda>c. c \<noteq> CHR 0x0A) s"

datatype status_error =
  Empty_status | Bad_array string | Bad_document string | Unrecognized string

text \<open>\<open>DecodeStatus\<close> on the bytes read, with the two calls of \<open>json.Unmarshal\<close> as arguments.\<close>

definition decode_status :: "(string \<Rightarrow> string + alert list) \<Rightarrow> (string \<Rightarrow> string + status_document) \<Rightarrow>
    string \<Rightarrow> status_error + alert list" where
  "decode_status json_alerts json_document body =
     (case trim_space body of
        [] \<Rightarrow> Inl Empty_status
      | c # rest \<Rightarrow>
          if c = CHR ''['' then
            (case json_alerts body of Inl e \<Rightarrow> Inl (Bad_array e) | Inr alerts \<Rightarrow> Inr alerts)
          else if c = CHR ''{'' then
            (case json_document body of Inl e \<Rightarrow> Inl (Bad_document e) | Inr doc \<Rightarrow> Inr (document_alerts doc))
          else Inl (Unrecognized (first_line (c # rest))))"

section \<open>Strength\<close>

definition f64_val :: "f64 \<Rightarrow> rat" where
  "f64_val v = (case v of Fin x \<Rightarrow> x | _ \<Rightarrow> 0)"

lemma severity_weights:
  obtains c where "severity_weight s = Fin c" "0 < c" "c \<le> 1" "round64 c = c"
proof -
  have w: "0 < round64 (6 / 10) \<and> round64 (6 / 10) \<le> 1 \<and> round64 (round64 (6 / 10)) = round64 (6 / 10)"
    by code_simp
  have i: "0 < round64 (3 / 10) \<and> round64 (3 / 10) \<le> 1 \<and> round64 (round64 (3 / 10)) = round64 (3 / 10)"
    by code_simp
  show thesis
    unfolding severity_weight_def severity_critical_def severity_warn_def severity_info_def
    using that w i by (metis round64_1 severity_critical_def severity_info_def severity_warn_def
        severity_weight_def zero_less_one order_refl)
qed

text \<open>The value where neither endpoint of the division degenerates.\<close>

lemma strength_value:
  assumes "0 < max_age" and "time_sub now (al_triggered_at a) \<le> max_age"
    and "severity_weight (al_severity a) = Fin c"
  shows "strength now a max_age = Fin (round64 (c * round64 (1 -
     round64 (round64 (of_int (time_sub now (al_triggered_at a))) / round64 (of_int max_age)))))"
proof -
  have "round64 (of_int max_age) \<noteq> 0"
    using assms(1) round_pos_nonneg [of "of_int max_age"] by (simp add: round64_def)
  then show ?thesis
    using assms by (simp add: strength_def Let_def f64_of_int_def f64_sub_def)
qed

lemma time_sub_mono: "t \<le> t' \<Longrightarrow> time_sub t u \<le> time_sub t' u"
  by (auto simp: time_sub_def Let_def max_duration_def min_duration_def)

lemma time_sub_nonneg: "u \<le> t \<Longrightarrow> 0 \<le> time_sub t u"
  by (auto simp: time_sub_def Let_def max_duration_def min_duration_def)

definition decay :: "duration \<Rightarrow> duration \<Rightarrow> rat" where
  "decay max_age age = round64 (1 - round64 (round64 (of_int age) / round64 (of_int max_age)))"

lemma decay_antimono: "0 < max_age \<Longrightarrow> age \<le> age' \<Longrightarrow> decay max_age age' \<le> decay max_age age"
  unfolding decay_def
  by (intro round64_mono diff_left_mono divide_right_mono)
    (use round64_mono [of 0 "of_int max_age"] in simp_all)

lemma decay_unit:
  assumes "0 \<le> age" and "age \<le> max_age" and "0 < max_age"
  shows "0 \<le> decay max_age age" and "decay max_age age \<le> 1"
proof -
  have m: "0 < round64 (of_int max_age)"
    using assms(3) round_pos_nonneg [of "of_int max_age"] by (simp add: round64_def)
  have "0 \<le> round64 (of_int age)" "round64 (of_int age) \<le> round64 (of_int max_age)"
    using round64_mono [of 0 "of_int age"] round64_mono [of "of_int age" "of_int max_age"] assms by simp_all
  with m have "0 \<le> round64 (of_int age) / round64 (of_int max_age)"
    "round64 (of_int age) / round64 (of_int max_age) \<le> 1" by simp_all
  then have "0 \<le> round64 (round64 (of_int age) / round64 (of_int max_age))
      \<and> round64 (round64 (of_int age) / round64 (of_int max_age)) \<le> 1" by (rule round64_unit)
  then show "0 \<le> decay max_age age" "decay max_age age \<le> 1"
    unfolding decay_def using round64_unit by simp_all
qed


definition sample_alert :: alert where
  "sample_alert = \<lparr>al_id = ''db'', al_severity = ''warn'', al_triggered_at = 0, al_source = ''db'', al_message = []\<rparr>"


section \<open>The bar's cells\<close>

lemma runes_full: "runes (full_cell @ s) = full_cell # runes s"
  and runes_light: "runes (light_cell @ s) = light_cell # runes s"
  by (subst runes.simps, simp add: full_cell_def light_cell_def rune_width_def byte_in_def)+

lemma runes_cells:
  "runes (concat (replicate m full_cell) @ concat (replicate n light_cell)) = replicate m full_cell @ replicate n light_cell"
proof (induction m)
  case 0
  have "runes (concat (replicate n light_cell)) = replicate n light_cell"
    by (induction n) (simp_all add: runes_light)
  then show ?case by simp
next
  case (Suc m)
  then show ?case by (simp add: runes_full)
qed

lemma bar_filled_range: "0 \<le> bar_filled impl v bars" "bar_filled impl v bars \<le> max 0 bars"
  by (simp_all add: bar_filled_def Let_def)

lemma truncate_mono: "0 \<le> x \<Longrightarrow> x \<le> y \<Longrightarrow> truncate_rat x \<le> truncate_rat y"
  by (simp add: truncate_rat_def floor_mono)

lemma f64_to_int_clamped:
  assumes "0 \<le> x" and "x < 2 ^ 63"
  shows "f64_to_int impl (Fin x) = truncate_rat x"
proof -
  have "0 \<le> \<lfloor>x\<rfloor>" "\<lfloor>x\<rfloor> < 2 ^ 63" using assms by (simp_all add: floor_less_iff)
  with assms show ?thesis by (simp add: f64_to_int_def truncate_rat_def)
qed

text \<open>A bar always has the requested number of cells, full ones first, whatever the strength
  is (a NaN and the conversions the language leaves open included); for two strengths in range the
  stronger has at least as many full cells.\<close>

theorem viz_bar_cells:
  "(\<exists>f \<le> nat bars. runes (viz_bar impl v bars) = replicate f full_cell @ replicate (nat bars - f) light_cell)
   \<and> (0 \<le> x \<and> x \<le> y \<and> y * round64 (of_int bars) < 2 ^ 62 \<and> 0 \<le> bars \<longrightarrow>
        bar_filled impl (Fin x) bars \<le> bar_filled impl (Fin y) bars)"
proof (intro conjI impI)
  let ?f = "bar_filled impl v bars"
  have "nat (bars - ?f) = nat bars - nat ?f" "nat ?f \<le> nat bars"
    using bar_filled_range [of impl v bars] by (auto simp: nat_diff_distrib)
  then show "\<exists>f \<le> nat bars. runes (viz_bar impl v bars) = replicate f full_cell @ replicate (nat bars - f) light_cell"
    by (intro exI [of _ "nat ?f"]) (simp add: viz_bar_def repeat_str_def runes_cells Let_def)
next
  assume xy: "0 \<le> x \<and> x \<le> y \<and> y * round64 (of_int bars) < 2 ^ 62 \<and> 0 \<le> bars"
  let ?b = "round64 (of_int bars)"
  have b: "0 \<le> ?b" using round64_mono [of 0 "of_int bars"] xy by simp
  have prod: "0 \<le> x * ?b" "x * ?b \<le> y * ?b" using xy b by (simp_all add: mult_right_mono)
  have top: "round64 (y * ?b) < 2 ^ 63"
    using round64_mono [of "y * ?b" "2 ^ 62"] xy unfolding round64_pow62 by simp
  have r: "0 \<le> round64 (x * ?b)" "round64 (x * ?b) \<le> round64 (y * ?b)"
    using round64_mono [of 0 "x * ?b"] round64_mono [OF prod(2)] prod(1) by simp_all
  then have "f64_to_int impl (Fin (round64 (x * ?b))) \<le> f64_to_int impl (Fin (round64 (y * ?b)))"
    using top truncate_mono by (simp add: f64_to_int_clamped)
  then show "bar_filled impl (Fin x) bars \<le> bar_filled impl (Fin y) bars"
    by (simp add: bar_filled_def f64_of_int_def Let_def)
qed

theorem viz_bar_cells_witness:
  "bar_filled (\<lambda>_. 7) (Fin (1 / 2)) 12 \<le> bar_filled (\<lambda>_. 7) (Fin 1) 12"
proof -
  have "round64 (of_int 12) = 12" by code_simp
  then show ?thesis
    using viz_bar_cells [of 12 "\<lambda>_. 7" NaN "1 / 2" 1] by simp
qed

text \<open>Which targets alert, and how loudly: without explicit alerts the document's alerts are
  one per target whose state is neither healthy, unknown nor blank, in order and carrying the
  target's id, message and time; the severity is one of the three levels, the monitor's own where
  it gives one, and a failure state without one is critical.\<close>

theorem document_alerts_exact:
  assumes "sd_alerts d = []"
  shows "map al_id (document_alerts d) =
      map ts_id (filter (\<lambda>t. target_state t \<notin> {''healthy'', ''unknown'', []}) (sd_targets d))
    \<and> (\<forall>a \<in> set (document_alerts d). \<exists>t \<in> set (sd_targets d).
        al_source a = ts_id t \<and> al_message a = ts_message t \<and> al_triggered_at a = ts_checked_at t
        \<and> al_severity a \<in> {''critical'', ''warn'', ''info''}
        \<and> (to_lower (trim_space (ts_severity t)) \<in> {''critical'', ''warn'', ''info''} \<longrightarrow>
             al_severity a = to_lower (trim_space (ts_severity t)))
        \<and> (to_lower (trim_space (ts_severity t)) = [] \<and>
             target_state t \<in> {''unhealthy'', ''outage'', ''regression'', ''down'', ''failed''} \<longrightarrow>
             al_severity a = ''critical''))"
proof (intro conjI ballI)
  have "map al_id (List.map_filter alert_for ts) =
      map ts_id (filter (\<lambda>t. target_state t \<notin> {''healthy'', ''unknown'', []}) ts)" for ts
    by (induction ts) (simp_all add: List.map_filter_simps alert_for_def Let_def)
  then show "map al_id (document_alerts d) =
      map ts_id (filter (\<lambda>t. target_state t \<notin> {''healthy'', ''unknown'', []}) (sd_targets d))"
    by (simp add: document_alerts_def assms)
next
  fix a assume "a \<in> set (document_alerts d)"
  then obtain t where t: "t \<in> set (sd_targets d)" "alert_for t = Some a"
    by (auto simp: document_alerts_def assms List.map_filter_def)
  have "al_severity a = severity_for (ts_severity t) (target_state t)"
    "al_source a = ts_id t" "al_message a = ts_message t" "al_triggered_at a = ts_checked_at t"
    using t(2) by (auto simp: alert_for_def Let_def split: if_splits)
  with t(1) show "\<exists>t \<in> set (sd_targets d).
        al_source a = ts_id t \<and> al_message a = ts_message t \<and> al_triggered_at a = ts_checked_at t
        \<and> al_severity a \<in> {''critical'', ''warn'', ''info''}
        \<and> (to_lower (trim_space (ts_severity t)) \<in> {''critical'', ''warn'', ''info''} \<longrightarrow>
             al_severity a = to_lower (trim_space (ts_severity t)))
        \<and> (to_lower (trim_space (ts_severity t)) = [] \<and>
             target_state t \<in> {''unhealthy'', ''outage'', ''regression'', ''down'', ''failed''} \<longrightarrow>
             al_severity a = ''critical'')"
    by (intro bexI [of _ t] conjI impI) (auto simp: severity_for_def Let_def)
qed

definition sample_document :: status_document where
  "sample_document = \<lparr>sd_alerts = [],
     sd_targets = [\<lparr>ts_id = ''db'', ts_state = '' Down'', ts_severity = [], ts_message = ''refused'', ts_checked_at = 9\<rparr>,
       \<lparr>ts_id = ''web'', ts_state = ''healthy'', ts_severity = ''info'', ts_message = [], ts_checked_at = 9\<rparr>]\<rparr>"

theorem document_alerts_exact_witness:
  "map al_id (document_alerts sample_document) = [''db'']"
proof -
  have "map ts_id (filter (\<lambda>t. target_state t \<notin> {''healthy'', ''unknown'', []}) (sd_targets sample_document)) = [''db'']"
    by code_simp
  then show ?thesis
    using document_alerts_exact [of sample_document] by (simp add: sample_document_def)
qed

text \<open>A timestamp in the future is not clamped: its strength exceeds the severity's weight.\<close>

lemma future_alert_overshoots:
  "strength 0 (sample_alert\<lparr>al_severity := ''critical'', al_triggered_at := 5 * minute\<rparr>) (5 * minute) = Fin 2"
  by code_simp

end
