(* ===== verification/Config.thy ===== *)
theory Config
  imports GoTime Mdns
begin

text \<open>
  Package \<open>internal/config\<close>: the configuration record with its defaults and the values derived
  from it. Reading the file and decoding YAML are arguments of \<open>load_config\<close>. The inline map of
  unknown YAML keys is not kept.
\<close>

section \<open>The records\<close>

definition mode_broadcast :: string where "mode_broadcast = ''broadcast''"
definition mode_receive :: string where "mode_receive = ''receive''"

definition source_command :: string where "source_command = ''command''"
definition source_http :: string where "source_http = ''http''"
definition source_sse :: string where "source_sse = ''sse''"
definition source_webhook :: string where "source_webhook = ''webhook''"

record audience_config =
  au_enabled :: bool
  au_allow_mdns :: string

record broadcast_config =
  bc_listen :: string
  bc_advertise :: string
  bc_caller_enabled :: bool
  bc_audience :: audience_config

record receive_config =
  rc_mdns_service :: string
  rc_persist :: string

record mdns_config =
  md_service_type :: string
  md_isotope_types :: "string list"
  md_port :: int
  md_txt :: "(string, string) gomap"
  md_refresh :: string
  md_domains :: "string list"

record notes_channel =
  nc_name :: string
  nc_source :: string
  nc_refresh :: string

record preset_channel =
  pc_name :: string
  pc_enabled :: "bool option"

record source_config =
  sc_type :: string
  sc_command :: string
  sc_url :: string
  sc_endpoint :: string

record auth_config =
  ac_type :: string
  ac_token :: string

record theme_config =
  th_color :: string
  th_icon :: string

record custom_channel =
  cu_name :: string
  cu_source :: source_config
  cu_auth :: "auth_config option"
  cu_refresh :: string
  cu_theme :: "theme_config option"

record channels_config =
  ch_preset :: "preset_channel list"
  ch_custom :: "custom_channel list"
  ch_notes :: "notes_channel list"

record feature_endpoint =
  fe_name :: string
  fe_url :: string

record feature_browser_config =
  fb_endpoints :: "feature_endpoint list"
  fb_refresh :: string
  fb_identity :: string

record signal_config =
  sg_max_age :: string
  sg_decay_linear :: bool
  sg_viz_bars :: int

record tv_config =
  tv_cable_dir :: string
  tv_tuner_dir :: string
  tv_auto_launch :: bool
  tv_isolate :: bool

record logging_config =
  lg_level :: string
  lg_output :: string

record config =
  cf_version :: string
  cf_mode :: string
  cf_health :: string
  cf_broadcast :: broadcast_config
  cf_receive :: receive_config
  cf_mdns :: mdns_config
  cf_channels :: channels_config
  cf_features :: feature_browser_config
  cf_signal :: signal_config
  cf_tv :: tv_config
  cf_logging :: logging_config
  cf_extra :: "(string, string) gomap"

section \<open>Defaults and loading\<close>

definition default_config :: config where
  "default_config =
     \<lparr>cf_version = ''1.0'', cf_mode = mode_broadcast, cf_health = ''127.0.0.1:58092'',
      cf_broadcast =
        \<lparr>bc_listen = ''127.0.0.1:58093'', bc_advertise = ''_tuner._tcp'', bc_caller_enabled = True,
         bc_audience = \<lparr>au_enabled = True, au_allow_mdns = smoke_alarm_type\<rparr>\<rparr>,
      cf_receive = \<lparr>rc_mdns_service = ''_tuner._tcp'', rc_persist = ''~/.config/tuner/subscriptions.json''\<rparr>,
      cf_mdns =
        \<lparr>md_service_type = ''_tuner._tcp'', md_isotope_types = [''_adhd-isotope._tcp''], md_port = 58093,
         md_txt = [(''version'', ''1.0'')], md_refresh = ''30s'', md_domains = [''local'']\<rparr>,
      cf_channels =
        \<lparr>ch_preset = [\<lparr>pc_name = ''ntp'', pc_enabled = None\<rparr>, \<lparr>pc_name = ''dns'', pc_enabled = None\<rparr>,
           \<lparr>pc_name = ''ping'', pc_enabled = None\<rparr>],
         ch_custom = [], ch_notes = []\<rparr>,
      cf_features = \<lparr>fb_endpoints = [], fb_refresh = ''30s'', fb_identity = []\<rparr>,
      cf_signal = \<lparr>sg_max_age = ''30m'', sg_decay_linear = True, sg_viz_bars = 12\<rparr>,
      cf_tv = \<lparr>tv_cable_dir = ''~/.config/television/cable'', tv_tuner_dir = ''~/.config/tuner/cable'',
         tv_auto_launch = True, tv_isolate = True\<rparr>,
      cf_logging = \<lparr>lg_level = ''info'', lg_output = ''console''\<rparr>, cf_extra = []\<rparr>"

datatype load_error = Read_config string | Parse_config string

text \<open>\<open>Load\<close>: \<open>yaml.Unmarshal\<close> decodes over the defaults.\<close>

definition load_config :: "(string \<Rightarrow> string + string) \<Rightarrow> (string \<Rightarrow> config \<Rightarrow> string + config) \<Rightarrow>
    string \<Rightarrow> load_error + config" where
  "load_config read_file unmarshal path =
     (if path = [] then Inr default_config
      else case read_file path of
        Inl e \<Rightarrow> Inl (Read_config e)
      | Inr data \<Rightarrow> (case unmarshal data default_config of Inl e \<Rightarrow> Inl (Parse_config e) | Inr cfg \<Rightarrow> Inr cfg))"

section \<open>Derived values\<close>

definition service_types :: "mdns_config \<Rightarrow> string list" where
  "service_types m = (if md_service_type m = [] then [] else [md_service_type m])"

definition browse_types :: "mdns_config \<Rightarrow> string list" where
  "browse_types m =
     fold (\<lambda>candidates out. fold (\<lambda>t out. if t = [] \<or> t \<in> set out then out else out @ [t]) candidates out)
       [service_types m, [smoke_alarm_type], md_isotope_types m] []"

definition max_age_duration :: "config \<Rightarrow> duration" where
  "max_age_duration c =
     (case parse_duration (sg_max_age (cf_signal c)) of None \<Rightarrow> 30 * minute | Some d \<Rightarrow> d)"

definition refresh_duration :: "config \<Rightarrow> duration" where
  "refresh_duration c =
     (case parse_duration (md_refresh (cf_mdns c)) of None \<Rightarrow> 30 * second | Some d \<Rightarrow> d)"

definition feature_refresh_duration :: "config \<Rightarrow> duration" where
  "feature_refresh_duration c =
     (case parse_duration (fb_refresh (cf_features c)) of
        None \<Rightarrow> 30 * second | Some d \<Rightarrow> if d \<le> 0 then 30 * second else d)"

definition feature_identity :: "config \<Rightarrow> string" where
  "feature_identity c = (if fb_identity (cf_features c) \<noteq> [] then fb_identity (cf_features c) else ''tuner'')"

section \<open>Properties\<close>

definition add_type :: "string \<Rightarrow> string list \<Rightarrow> string list" where
  "add_type t out = (if t = [] \<or> t \<in> set out then out else out @ [t])"

lemma add_types:
  "distinct out \<Longrightarrow> [] \<notin> set out \<Longrightarrow>
   distinct (fold add_type ts out) \<and> set (fold add_type ts out) = set out \<union> (set ts - {[]})
   \<and> prefix out (fold add_type ts out)"
proof (induction ts arbitrary: out)
  case (Cons t ts)
  then have "distinct (add_type t out)" "[] \<notin> set (add_type t out)"
    "set (add_type t out) = set out \<union> ({t} - {[]})" "prefix out (add_type t out)"
    by (auto simp: add_type_def)
  with Cons.IH [of "add_type t out"] show ?case by (auto intro: prefix_order.trans)
qed simp

text \<open>The browse list is the single source of what is subscribed: it holds no type twice and
  no empty one, consists of tuner's own type, the smoke-alarm type and the registered isotope
  types, and starts with the own type and then the smoke-alarm type.\<close>

theorem browse_types_exact:
  "distinct (browse_types m)
   \<and> set (browse_types m) = ({md_service_type m, smoke_alarm_type} \<union> set (md_isotope_types m)) - {[]}
   \<and> prefix (remdups (service_types m @ [smoke_alarm_type])) (browse_types m)"
proof -
  have alarm: "smoke_alarm_type \<noteq> []" by (simp add: smoke_alarm_type_def)
  let ?base = "remdups (service_types m @ [smoke_alarm_type])"
  have "fold add_type (service_types m) [] = service_types m"
    by (simp add: service_types_def add_type_def)
  then have "browse_types m = fold add_type (md_isotope_types m) (add_type smoke_alarm_type (service_types m))"
    by (simp add: browse_types_def add_type_def [abs_def])
  moreover have "add_type smoke_alarm_type (service_types m) = ?base"
    using alarm by (simp add: add_type_def service_types_def)
  ultimately have eq: "browse_types m = fold add_type (md_isotope_types m) ?base" by simp
  have base: "distinct ?base" "[] \<notin> set ?base" "set ?base = {md_service_type m, smoke_alarm_type} - {[]}"
    using alarm by (auto simp: service_types_def)
  show ?thesis
    using add_types [OF base(1,2), of "md_isotope_types m"] base(3) unfolding eq by auto
qed

text \<open>Durations from the configuration are usable: whatever the strings are, the feature
  cache lifetime is positive and every derived duration fits the 64-bit range; the strings of the
  defaults parse to thirty seconds and thirty minutes.\<close>

theorem config_durations:
  "0 < feature_refresh_duration c \<and> feature_refresh_duration c \<le> max_duration
   \<and> min_duration \<le> max_age_duration c \<and> max_age_duration c \<le> max_duration
   \<and> min_duration \<le> refresh_duration c \<and> refresh_duration c \<le> max_duration
   \<and> feature_refresh_duration default_config = 30 * second \<and> refresh_duration default_config = 30 * second
   \<and> max_age_duration default_config = 30 * minute"
proof -
  have "digit_char 3 = CHR ''3''" "digit_char 0 = CHR ''0''" by code_simp+
  then have thirty: "show_nat 30 = ''30''" by (simp add: show_nat.simps)
  have s: "parse_duration ''30s'' = Some (30 * second)"
    using parse_duration_whole [of "''s''" 1000000000 30]
    by (simp add: thirty unit_ns_def unit_char_def is_digit_def byte_in_def second_def)
  have m: "parse_duration ''30m'' = Some (30 * minute)"
    using parse_duration_whole [of "''m''" 60000000000 30]
    by (simp add: thirty unit_ns_def unit_char_def is_digit_def byte_in_def second_def minute_def)
  have range: "0 < 30 * second" "30 * second \<le> max_duration" "min_duration \<le> 30 * second"
    "min_duration \<le> 30 * minute" "30 * minute \<le> max_duration"
    by (simp_all add: second_def minute_def max_duration_def min_duration_def)
  have "0 < feature_refresh_duration c \<and> feature_refresh_duration c \<le> max_duration"
    using range parse_duration_range by (auto simp: feature_refresh_duration_def split: option.split)
  moreover have "min_duration \<le> max_age_duration c \<and> max_age_duration c \<le> max_duration"
    using range parse_duration_range by (auto simp: max_age_duration_def split: option.split)
  moreover have "min_duration \<le> refresh_duration c \<and> refresh_duration c \<le> max_duration"
    using range parse_duration_range by (auto simp: refresh_duration_def split: option.split)
  moreover have "feature_refresh_duration default_config = 30 * second" "refresh_duration default_config = 30 * second"
    "max_age_duration default_config = 30 * minute"
    using s m range(1) by (simp_all add: feature_refresh_duration_def refresh_duration_def max_age_duration_def default_config_def)
  ultimately show ?thesis by blast
qed

end
