(* ===== verification/Notes.thy ===== *)
theory Notes
  imports Cache Tv
begin

text \<open>
  Package \<open>internal/notes\<close>: reading a feed of notes and caching it per channel. HTTP, the file
  system, \<open>encoding/xml\<close>, \<open>encoding/json\<close> and \<open>time.Parse\<close> are arguments.
\<close>

section \<open>Feeds\<close>

record item =
  it_id :: string
  it_title :: string
  it_kind :: string
  it_body :: string
  it_link :: string
  it_published :: time

record feed =
  fd_title :: string
  fd_items :: "item list"
  fd_fetched :: time

record rss_item =
  ri_title :: string
  ri_link :: string
  ri_guid :: string
  ri_pub_date :: string
  ri_description :: string
  ri_category :: string

record atom_entry =
  at_title :: string
  at_id :: string
  at_updated :: string
  at_summary :: string
  at_href :: string

record rss_doc =
  rd_channel_title :: string
  rd_items :: "rss_item list"
  rd_title :: string
  rd_entries :: "atom_entry list"

datatype notes_error =
  Request_failed string | Bad_status string int | Read_feed string | Parse_xml string | Parse_json string

text \<open>
  The outside: an HTTP GET (an error, or status code and the body as far as it can be read), a
  file read, and the decoders. The wrapped JSON form keeps whether \<open>items\<close> was present.
\<close>

record notes_env =
  ne_http_get :: "string \<Rightarrow> string + int \<times> (string + string)"
  ne_read_file :: "string \<Rightarrow> string + string"
  ne_home :: "string option"
  ne_xml :: "string \<Rightarrow> string + rss_doc"
  ne_json_wrapped :: "string \<Rightarrow> (string \<times> item list option) option"
  ne_json_items :: "string \<Rightarrow> string + item list"
  ne_parse_time :: "string \<Rightarrow> string \<Rightarrow> time option"

definition feed_limit :: nat where "feed_limit = 8 * 2 ^ 20"

definition is_http_source :: "string \<Rightarrow> bool" where
  "is_http_source s \<longleftrightarrow> prefix ''http://'' s \<or> prefix ''https://'' s"

definition load_feed :: "notes_env \<Rightarrow> string \<Rightarrow> notes_error + string" where
  "load_feed env source =
     (if is_http_source source then
        (case ne_http_get env source of
           Inl e \<Rightarrow> Inl (Request_failed e)
         | Inr (code, body) \<Rightarrow>
             if code \<noteq> 200 then Inl (Bad_status source code)
             else (case body of Inl e \<Rightarrow> Inl (Read_feed e) | Inr b \<Rightarrow> Inr (take feed_limit b)))
      else
        let path = trim_prefix ''file://'' source;
            path = (case cut_prefix ''~/'' path of
                      Some rest \<Rightarrow> (case ne_home env of Some h \<Rightarrow> join_path h rest | None \<Rightarrow> path)
                    | None \<Rightarrow> path)
        in case ne_read_file env path of Inl e \<Rightarrow> Inl (Read_feed e) | Inr b \<Rightarrow> Inr b)"

definition time_layouts :: "string list" where
  "time_layouts = [''Mon, 02 Jan 2006 15:04:05 -0700'', ''Mon, 02 Jan 2006 15:04:05 MST'',
     ''2006-01-02T15:04:05Z07:00'', ''Mon, 2 Jan 2006 15:04:05 MST'']"

definition feed_time :: "notes_env \<Rightarrow> string \<Rightarrow> time" where
  "feed_time env s =
     (case List.map_filter (\<lambda>layout. ne_parse_time env layout (trim_space s)) time_layouts of
        t # _ \<Rightarrow> t | [] \<Rightarrow> zero_time)"

definition item_of_rss :: "notes_env \<Rightarrow> rss_item \<Rightarrow> item" where
  "item_of_rss env r =
     \<lparr>it_id = (if ri_guid r = [] then ri_link r else ri_guid r), it_title = ri_title r, it_kind = ri_category r,
      it_body = ri_description r, it_link = ri_link r, it_published = feed_time env (ri_pub_date r)\<rparr>"

definition item_of_atom :: "notes_env \<Rightarrow> atom_entry \<Rightarrow> item" where
  "item_of_atom env e =
     \<lparr>it_id = at_id e, it_title = at_title e, it_kind = [], it_body = at_summary e, it_link = at_href e,
      it_published = feed_time env (at_updated e)\<rparr>"

definition feed_of_xml :: "notes_env \<Rightarrow> time \<Rightarrow> rss_doc \<Rightarrow> feed" where
  "feed_of_xml env now d =
     (if rd_channel_title d \<noteq> [] then
        \<lparr>fd_title = rd_channel_title d, fd_items = map (item_of_rss env) (rd_items d), fd_fetched = now\<rparr>
      else \<lparr>fd_title = rd_title d, fd_items = map (item_of_atom env) (rd_entries d), fd_fetched = now\<rparr>)"

definition parse_feed :: "notes_env \<Rightarrow> time \<Rightarrow> string \<Rightarrow> notes_error + feed" where
  "parse_feed env now body =
     (if prefix ''<'' (trim_space body) then
        (case ne_xml env body of Inl e \<Rightarrow> Inl (Parse_xml e) | Inr d \<Rightarrow> Inr (feed_of_xml env now d))
      else
        (case ne_json_wrapped env body of
           Some (title, Some items) \<Rightarrow> Inr \<lparr>fd_title = title, fd_items = items, fd_fetched = now\<rparr>
         | Some (t # title, None) \<Rightarrow> Inr \<lparr>fd_title = t # title, fd_items = [], fd_fetched = now\<rparr>
         | _ \<Rightarrow>
           (case ne_json_items env body of
              Inl e \<Rightarrow> Inl (Parse_json e)
            | Inr items \<Rightarrow> Inr \<lparr>fd_title = [], fd_items = items, fd_fetched = now\<rparr>)))"

definition read_feed :: "notes_env \<Rightarrow> time \<Rightarrow> string \<Rightarrow> notes_error + feed" where
  "read_feed env now source =
     (case load_feed env source of Inl e \<Rightarrow> Inl e | Inr body \<Rightarrow> parse_feed env now body)"

section \<open>The store\<close>

record store =
  st_cache :: "(string, feed \<times> time) gomap"
  st_ttl :: duration

definition new_store :: "duration \<Rightarrow> store" where
  "new_store ttl = \<lparr>st_cache = [], st_ttl = ttl\<rparr>"

text \<open>\<open>Get\<close>, with the result a read would have (\<open>now\<close> and \<open>finish\<close>: the clock at the check and
  after the read).\<close>

definition store_get :: "string \<Rightarrow> time \<Rightarrow> time \<Rightarrow> (notes_error + feed) \<Rightarrow> store \<Rightarrow> store \<times> (notes_error + feed)" where
  "store_get name now finish read_result s =
     (let fetch = (case read_result of
            Inl e \<Rightarrow> (s, Inl e)
          | Inr feed \<Rightarrow> (s\<lparr>st_cache := gm_put name (feed, finish) (st_cache s)\<rparr>, Inr feed))
      in case gm_get (st_cache s) name of
           Some (feed, since) \<Rightarrow> if time_sub now since < st_ttl s then (s, Inr feed) else fetch
         | None \<Rightarrow> fetch)"

interpretation feeds: ttl_cache "store_get name" "\<lambda>s. gm_get (st_cache s) name" st_ttl "\<lambda>finish _. finish" "\<lambda>_. True"
proof (unfold_locales, goal_cases)
  case (2 s now finish w)
  then show ?case
    by (cases "gm_get (st_cache s) name") (auto simp: store_get_def Let_def not_less)
qed (auto simp: store_get_def Let_def not_less split: option.splits)

section \<open>Properties\<close>

text \<open>A notes channel is never stale and never hammered: from a new store, every feed served
  was read by that very request or completed reading less than the lifetime ago; and while a
  cached feed is younger than the lifetime every request gets it unread, whatever the source would
  have answered.\<close>

theorem notes_cache_window:
  "(i < length qs \<longrightarrow> cache_run (store_get name) qs (new_store ttl) ! i = Inr feed \<longrightarrow>
      (\<exists>j \<le> i. snd (snd (qs ! j)) = Inr feed \<and> (j = i \<or> time_sub (fst (qs ! i)) (fst (snd (qs ! j))) < ttl)))
   \<and> ((\<forall>q \<in> set qs'. time_sub (fst q) since < st_ttl s) \<longrightarrow> gm_get (st_cache s) name = Some (feed, since) \<longrightarrow>
      cache_run (store_get name) qs' s = replicate (length qs') (Inr feed))"
  using feeds.served_recent [of "new_store ttl" name i qs feed] feeds.sheltered [of s name feed since qs']
  by (auto simp: new_store_def)

definition sample_requests :: "(time \<times> time \<times> (notes_error + feed)) list" where
  "sample_requests =
     [(0, 1, Inr \<lparr>fd_title = ''v1'', fd_items = [], fd_fetched = 1\<rparr>),
      (5, 6, Inr \<lparr>fd_title = ''v2'', fd_items = [], fd_fetched = 6\<rparr>)]"

theorem notes_cache_window_witness:
  "\<exists>j \<le> 1. snd (snd (sample_requests ! j)) = Inr \<lparr>fd_title = ''v1'', fd_items = [], fd_fetched = 1\<rparr>"
proof -
  have "cache_run (store_get ''n'') sample_requests (new_store 10) ! 1 = Inr \<lparr>fd_title = ''v1'', fd_items = [], fd_fetched = 1\<rparr>"
    by code_simp
  then show ?thesis
    using notes_cache_window [of 1 sample_requests "''n''" 10 "\<lparr>fd_title = ''v1'', fd_items = [], fd_fetched = 1\<rparr>"]
    by (auto simp: sample_requests_def)
qed

text \<open>Channels do not share cache entries.\<close>

lemma store_get_other:
  "k \<noteq> name \<Longrightarrow> gm_get (st_cache (fst (store_get name now finish r s))) k = gm_get (st_cache s) k"
  by (auto simp: store_get_def Let_def split: option.splits sum.splits)

lemma feed_of_xml_items:
  "length (fd_items (feed_of_xml env now d)) =
     (if rd_channel_title d \<noteq> [] then length (rd_items d) else length (rd_entries d))"
  by (simp add: feed_of_xml_def)

end
