(* ===== verification/Custom.thy ===== *)
theory Custom
  imports Config Cache GoJson GoIo
begin

text \<open>
  Package \<open>internal/custom\<close>: the channels of the configuration, their verdict, their cached
  snapshots, the four sources and webhook ingest. Running a command and an HTTP round trip are
  arguments: what they returned.
\<close>

section \<open>Channels\<close>

definition max_body :: nat where "max_body = 2 ^ 20"
definition default_refresh :: duration where "default_refresh = 10 * second"

record snapshot =
  sn_channel :: string
  sn_type :: string
  sn_data :: "string option"
  sn_lines :: "string list"
  sn_fetched :: time

record info =
  in_name :: string
  in_type :: string
  in_refresh :: duration
  in_token :: string

datatype stream_error = Stream_read string | Stream_too_long | Stream_closed

datatype custom_error =
    Unknown_channel string
  | No_data
  | Not_webhook
  | Unnamed
  | Declared_twice string
  | No_command string
  | Needs_url string string string
  | No_source_type string
  | Unknown_source_type string string
  | Bad_refresh string string
  | Command_failed string string string
  | Output_too_big string
  | Request_error string string
  | Http_status string string int
  | Body_error string string
  | Stream_failed string stream_error
  | Empty_push string
  | Push_too_big string

record channel =
  cc_info :: info
  cc_command :: string
  cc_url :: string
  cc_err :: "custom_error option"
  cc_snap :: "snapshot option"
  cc_at :: time

type_synonym channel_set = "(string, channel) gomap"

definition refresh_of :: "custom_channel \<Rightarrow> duration" where
  "refresh_of c =
     (if cu_refresh c = [] then default_refresh
      else case parse_duration (cu_refresh c) of
        None \<Rightarrow> default_refresh | Some d \<Rightarrow> if d \<le> 0 then default_refresh else d)"

definition is_http_url :: "string \<Rightarrow> bool" where
  "is_http_url raw \<longleftrightarrow> prefix ''http://'' raw \<or> prefix ''https://'' raw"

text \<open>\<open>check\<close>: the error of one channel's configuration, if any.\<close>

definition check_refresh :: "custom_channel \<Rightarrow> custom_error option" where
  "check_refresh c =
     (if cu_refresh c = [] then None
      else case parse_duration (cu_refresh c) of
        None \<Rightarrow> Some (Bad_refresh (cu_name c) (cu_refresh c))
      | Some d \<Rightarrow> if d \<le> 0 then Some (Bad_refresh (cu_name c) (cu_refresh c)) else None)"

definition check_channel :: "custom_channel \<Rightarrow> custom_error option" where
  "check_channel c =
     (let t = sc_type (cu_source c) in
      if t = source_command then
        (if trim_space (sc_command (cu_source c)) = [] then Some (No_command (cu_name c)) else check_refresh c)
      else if t = source_http \<or> t = source_sse then
        (if \<not> is_http_url (sc_url (cu_source c)) then Some (Needs_url (cu_name c) t (sc_url (cu_source c)))
         else check_refresh c)
      else if t = source_webhook then check_refresh c
      else if t = [] then Some (No_source_type (cu_name c))
      else Some (Unknown_source_type (cu_name c) t))"

definition new_channel :: "custom_channel \<Rightarrow> channel" where
  "new_channel c =
     \<lparr>cc_info = \<lparr>in_name = cu_name c, in_type = sc_type (cu_source c), in_refresh = refresh_of c,
                 in_token = (case cu_auth c of Some a \<Rightarrow> ac_token a | None \<Rightarrow> [])\<rparr>,
      cc_command = sc_command (cu_source c), cc_url = sc_url (cu_source c), cc_err = check_channel c,
      cc_snap = None, cc_at = zero_time\<rparr>"

definition new_set :: "custom_channel list \<Rightarrow> channel_set" where
  "new_set chs = fold (\<lambda>c m. if cu_name c = [] then m else gm_put (cu_name c) (new_channel c) m) chs []"

fun validate_from :: "string set \<Rightarrow> custom_channel list \<Rightarrow> custom_error list" where
  "validate_from seen [] = []"
| "validate_from seen (c # cs) =
     (if cu_name c = [] then Unnamed # validate_from seen cs
      else (if cu_name c \<in> seen then [Declared_twice (cu_name c)] else [])
           @ (case check_channel c of Some e \<Rightarrow> [e] | None \<Rightarrow> [])
           @ validate_from (insert (cu_name c) seen) cs)"

definition validate :: "custom_channel list \<Rightarrow> custom_error list" where
  "validate chs = validate_from {} chs"

definition channel_info :: "channel_set \<Rightarrow> string \<Rightarrow> info option" where
  "channel_info s name = map_option cc_info (gm_get s name)"

definition config_error :: "channel_set \<Rightarrow> string \<Rightarrow> custom_error option" where
  "config_error s name = (case gm_get s name of None \<Rightarrow> Some (Unknown_channel name) | Some ch \<Rightarrow> cc_err ch)"

section \<open>Fetching\<close>

text \<open>What a command left: its failure, its output, its error output.\<close>

record command_result =
  cr_err :: "string option"
  cr_out :: string
  cr_stderr :: string

definition fetch_command :: "command_result \<Rightarrow> channel \<Rightarrow> custom_error + string" where
  "fetch_command r ch =
     (case cr_err r of
        Some e \<Rightarrow> Inl (Command_failed (in_name (cc_info ch)) e (trim_space (cr_stderr r)))
      | None \<Rightarrow> if length (cr_out r) > max_body then Inl (Output_too_big (in_name (cc_info ch)))
                else Inr (cr_out r))"

fun sse_scan :: "string list \<Rightarrow> string list \<Rightarrow> string list + string" where
  "sse_scan data [] = Inl data"
| "sse_scan data (line # ls) =
     (if line = [] then
        (if data \<noteq> [] then Inr (str_join [CHR 0x0A] data) else sse_scan data ls)
      else if prefix '':'' line then sse_scan data ls
      else (case cut_prefix ''data:'' line of
              Some p \<Rightarrow> sse_scan (data @ [trim_prefix '' '' p]) ls
            | None \<Rightarrow> sse_scan data ls))"

text \<open>
  \<open>firstEvent\<close> on a limited body. The scanner's buffer holds \<^const>\<open>max_body\<close> bytes, so the
  only line it cannot hold is a body of that size without a line break.
\<close>

definition first_event :: "string \<times> string option \<Rightarrow> stream_error + string" where
  "first_event src =
     (case src of (body, broken) \<Rightarrow>
        if length body = max_body \<and> CHR 0x0A \<notin> set body then Inl Stream_too_long
        else (case sse_scan [] (scan_lines body) of
                Inr event \<Rightarrow> Inr event
              | Inl data \<Rightarrow>
                  (case broken of
                     Some e \<Rightarrow> Inl (Stream_read e)
                   | None \<Rightarrow> if data \<noteq> [] then Inr (str_join [CHR 0x0A] data) else Inl Stream_closed)))"

definition fetch_http :: "(string + http_response) \<Rightarrow> bool \<Rightarrow> channel \<Rightarrow> custom_error + string" where
  "fetch_http resp stream ch =
     (let name = in_name (cc_info ch) in
      case resp of
        Inl e \<Rightarrow> Inl (Request_error name e)
      | Inr r \<Rightarrow>
          if hr_code r < 200 \<or> hr_code r > 299 then Inl (Http_status name (cc_url ch) (hr_code r))
          else if \<not> stream then
            (case limited max_body r of (body, None) \<Rightarrow> Inr body | (_, Some e) \<Rightarrow> Inl (Body_error name e))
          else (case first_event (limited max_body r) of Inl e \<Rightarrow> Inl (Stream_failed name e) | Inr ev \<Rightarrow> Inr ev))"

text \<open>The request \<open>fetchHTTP\<close> makes: its URL and the headers it sets.\<close>

definition http_request :: "channel \<Rightarrow> bool \<Rightarrow> string \<times> (string \<times> string) list" where
  "http_request ch stream =
     (cc_url ch,
      (if stream then [(''Accept'', ''text/event-stream'')] else [])
      @ (if in_token (cc_info ch) \<noteq> [] then [(''Authorization'', ''Bearer '' @ in_token (cc_info ch))] else []))"

definition parse_snapshot :: "string \<Rightarrow> string \<Rightarrow> time \<Rightarrow> string \<Rightarrow> snapshot" where
  "parse_snapshot name kind now body =
     (let trimmed = trim_space body;
          snap = \<lparr>sn_channel = name, sn_type = kind, sn_data = None, sn_lines = [], sn_fetched = now\<rparr>
      in if trimmed \<noteq> [] \<and> json_valid trimmed then snap\<lparr>sn_data := Some trimmed\<rparr>
         else if trimmed \<noteq> [] then snap\<lparr>sn_lines := split_char (CHR 0x0A) trimmed\<rparr>
         else snap)"

text \<open>What the outside would answer a pull: the command and the HTTP round trip.\<close>

record outside =
  ou_command :: command_result
  ou_http :: "string + http_response"

definition fetch :: "outside \<Rightarrow> channel \<Rightarrow> custom_error + string" where
  "fetch out ch =
     (if in_type (cc_info ch) = source_command then fetch_command (ou_command out) ch
      else fetch_http (ou_http out) (in_type (cc_info ch) = source_sse) ch)"

section \<open>Snapshots and ingest\<close>

text \<open>
  \<open>snapshot\<close> at time \<open>now\<close>: a fetch is parsed and stored at time \<open>finish\<close> (the code reads the
  clock once more in between, for \<open>Fetched\<close>, which is \<open>stamp\<close>). What a fetch yields does not
  depend on the cached value, so it is an argument of the cache's own step.
\<close>

definition pulled :: "time \<Rightarrow> outside \<Rightarrow> channel \<Rightarrow> custom_error + snapshot" where
  "pulled stamp out ch =
     (case fetch out ch of
        Inl e \<Rightarrow> Inl e
      | Inr body \<Rightarrow> Inr (parse_snapshot (in_name (cc_info ch)) (in_type (cc_info ch)) stamp body))"

definition channel_get :: "time \<Rightarrow> time \<Rightarrow> (custom_error + snapshot) \<Rightarrow> channel \<Rightarrow> channel \<times> (custom_error + snapshot)" where
  "channel_get now finish r ch =
     (case cc_err ch of
        Some e \<Rightarrow> (ch, Inl e)
      | None \<Rightarrow>
          if in_type (cc_info ch) = source_webhook then
            (case cc_snap ch of None \<Rightarrow> (ch, Inl No_data) | Some s \<Rightarrow> (ch, Inr s))
          else
            let pull = (case r of
                  Inl e \<Rightarrow> (ch, Inl e)
                | Inr snap \<Rightarrow> (ch\<lparr>cc_snap := Some snap, cc_at := finish\<rparr>, Inr snap))
            in case cc_snap ch of
                 Some s \<Rightarrow> if time_sub now (cc_at ch) < in_refresh (cc_info ch) then (ch, Inr s) else pull
               | None \<Rightarrow> pull)"

definition channel_snapshot :: "time \<Rightarrow> time \<Rightarrow> time \<Rightarrow> outside \<Rightarrow> channel \<Rightarrow> channel \<times> (custom_error + snapshot)" where
  "channel_snapshot now stamp finish out ch = channel_get now finish (pulled stamp out ch) ch"

definition set_snapshot :: "string \<Rightarrow> time \<Rightarrow> time \<Rightarrow> time \<Rightarrow> outside \<Rightarrow> channel_set \<Rightarrow> channel_set \<times> (custom_error + snapshot)" where
  "set_snapshot name now stamp finish out s =
     (case gm_get s name of
        None \<Rightarrow> (s, Inl (Unknown_channel name))
      | Some ch \<Rightarrow>
          (case channel_snapshot now stamp finish out ch of (ch', res) \<Rightarrow> (gm_put name ch' s, res)))"

definition ingest :: "string \<Rightarrow> time \<Rightarrow> time \<Rightarrow> string \<Rightarrow> channel_set \<Rightarrow> channel_set \<times> (custom_error + snapshot)" where
  "ingest name stamp finish body s =
     (case gm_get s name of
        None \<Rightarrow> (s, Inl (Unknown_channel name))
      | Some ch \<Rightarrow>
          (case cc_err ch of
             Some e \<Rightarrow> (s, Inl e)
           | None \<Rightarrow>
               if in_type (cc_info ch) \<noteq> source_webhook then (s, Inl Not_webhook)
               else if length (trim_space body) = 0 then (s, Inl (Empty_push name))
               else if length body > max_body then (s, Inl (Push_too_big name))
               else let snap = parse_snapshot name (in_type (cc_info ch)) stamp body
                    in (gm_put name (ch\<lparr>cc_snap := Some snap, cc_at := finish\<rparr>) s, Inr snap)))"

section \<open>Exposure\<close>

definition is_loopback_listen :: "string \<Rightarrow> bool" where
  "is_loopback_listen listen =
     (let host = (case split_host_port listen of Some (h, _) \<Rightarrow> h | None \<Rightarrow> listen)
      in if host = [] \<or> host = ''0.0.0.0'' \<or> host = ''::'' then False
         else if host = ''localhost'' then True
         else (case parse_ip host of Some ip \<Rightarrow> ip_is_loopback ip | None \<Rightarrow> False))"

definition exposed :: "custom_channel \<Rightarrow> bool" where
  "exposed c \<longleftrightarrow> sc_type (cu_source c) = source_webhook \<and> cu_name c \<noteq> []
     \<and> (case cu_auth c of Some a \<Rightarrow> ac_token a = [] | None \<Rightarrow> True)"

text \<open>A notice names the channel and the listener; its wording is not modelled.\<close>

datatype exposure_notice = Loopback_only string string

definition exposure_problems :: "custom_channel list \<Rightarrow> string \<Rightarrow> exposure_notice list" where
  "exposure_problems chs listen =
     (if is_loopback_listen listen then []
      else map (\<lambda>c. Loopback_only (cu_name c) listen) (filter exposed chs))"

section \<open>The verdict\<close>

lemma new_set_get:
  assumes "name \<noteq> []"
  shows "gm_get (fold (\<lambda>c m. if cu_name c = [] then m else gm_put (cu_name c) (new_channel c) m) chs m) name =
     (case find (\<lambda>c. cu_name c = name) (rev chs) of Some c \<Rightarrow> Some (new_channel c) | None \<Rightarrow> gm_get m name)"
proof (induction chs arbitrary: m)
  case (Cons c chs)
  have "find (\<lambda>c. cu_name c = name) (xs @ [c]) =
      (case find (\<lambda>c. cu_name c = name) xs of Some x \<Rightarrow> Some x | None \<Rightarrow> if cu_name c = name then Some c else None)" for xs
    by (induction xs) auto
  with Cons assms show ?case by (auto split: option.splits)
qed simp

lemma find_rev_distinct: "distinct (map f xs) \<Longrightarrow> x \<in> set xs \<Longrightarrow> find (\<lambda>y. f y = f x) (rev xs) = Some x"
proof (induction xs rule: rev_induct)
  case (snoc y xs)
  then show ?case by (auto simp: image_iff)
qed simp

lemma validate_from_empty:
  "validate_from seen cs = [] \<longleftrightarrow>
     (\<forall>c \<in> set cs. cu_name c \<noteq> [] \<and> check_channel c = None) \<and> distinct (map cu_name cs)
     \<and> seen \<inter> set (map cu_name cs) = {}"
  by (induction seen cs rule: validate_from.induct) (auto split: option.splits)

text \<open>C18: One verdict: validation reports no problem exactly when every channel has a name of its
  own and the set built from the same configuration serves each of them without a configuration
  error.\<close>

theorem validate_agrees_with_set:
  "validate chs = [] \<longleftrightarrow>
     list_all (\<lambda>c. cu_name c \<noteq> [] \<and> config_error (new_set chs) (cu_name c) = None) chs
     \<and> distinct (map cu_name chs)"
proof (cases "distinct (map cu_name chs)")
  case True
  have "config_error (new_set chs) (cu_name c) = check_channel c" if "c \<in> set chs" "cu_name c \<noteq> []" for c
    using that find_rev_distinct [OF True that(1)]
    by (simp add: config_error_def new_set_def new_set_get) (simp add: new_channel_def)
  then show ?thesis
    using True by (auto simp: validate_def validate_from_empty list_all_iff)
next
  case False
  then show ?thesis by (simp add: validate_def validate_from_empty)
qed

section \<open>The cache\<close>

definition pulls :: "channel \<Rightarrow> bool" where
  "pulls ch \<longleftrightarrow> cc_err ch = None \<and> in_type (cc_info ch) \<noteq> source_webhook"

interpretation pull: ttl_cache channel_get "\<lambda>ch. map_option (\<lambda>s. (s, cc_at ch)) (cc_snap ch)"
  "\<lambda>ch. in_refresh (cc_info ch)" "\<lambda>finish _. finish" pulls
proof (unfold_locales, goal_cases)
  case (2 s now finish w)
  then show ?case
    by (cases "cc_snap s") (auto simp: channel_get_def pulls_def Let_def not_less)
qed (auto simp: channel_get_def pulls_def Let_def not_less split: option.splits)

text \<open>A pull channel is never staler than its refresh and asks its source at most once per
  refresh: from a fresh channel every snapshot served was fetched by that request or completed
  within the refresh before it, and while a snapshot is that young all requests get it, whatever
  the source would have answered.\<close>

theorem pull_cache_window:
  assumes "pulls ch"
  shows "(cc_snap ch = None \<longrightarrow> i < length qs \<longrightarrow> cache_run channel_get qs ch ! i = Inr snap \<longrightarrow>
      (\<exists>j \<le> i. snd (snd (qs ! j)) = Inr snap
         \<and> (j = i \<or> time_sub (fst (qs ! i)) (fst (snd (qs ! j))) < in_refresh (cc_info ch))))
    \<and> (cc_snap ch = Some snap \<longrightarrow> (\<forall>q \<in> set qs. time_sub (fst q) (cc_at ch) < in_refresh (cc_info ch)) \<longrightarrow>
      cache_run channel_get qs ch = replicate (length qs) (Inr snap))"
  using pull.served_recent [OF assms, of i qs snap] pull.sheltered [OF assms, of snap "cc_at ch" qs] by auto

text \<open>For the witnesses: a command channel, and one answer it gives.\<close>

definition sample_custom :: custom_channel where
  "sample_custom = \<lparr>cu_name = ''load'', cu_source = \<lparr>sc_type = source_command, sc_command = ''uptime'', sc_url = [],
     sc_endpoint = []\<rparr>, cu_auth = None, cu_refresh = [], cu_theme = None\<rparr>"

definition sample_snapshot :: snapshot where
  "sample_snapshot = parse_snapshot ''load'' source_command 3 ''up''"

theorem pull_cache_window_witness:
  "cache_run channel_get [(4, 5, Inl No_data)] ((new_channel sample_custom)\<lparr>cc_snap := Some sample_snapshot, cc_at := 3\<rparr>)
   = [Inr sample_snapshot]"
proof -
  let ?ch = "(new_channel sample_custom)\<lparr>cc_snap := Some sample_snapshot, cc_at := 3\<rparr>"
  have "pulls ?ch" by code_simp
  moreover have "time_sub 4 (cc_at ?ch) < in_refresh (cc_info ?ch)" by code_simp
  ultimately show ?thesis
    using pull_cache_window [of ?ch _ "[(4, 5, Inl No_data)]" sample_snapshot] by simp
qed

section \<open>Bodies\<close>

text \<open>A snapshot keeps its body: as JSON, or as lines that join to it.\<close>

definition snapshot_body :: "snapshot \<Rightarrow> string" where
  "snapshot_body s = (case sn_data s of Some d \<Rightarrow> d | None \<Rightarrow> str_join [CHR 0x0A] (sn_lines s))"

lemma parse_snapshot_body: "snapshot_body (parse_snapshot name kind now body) = trim_space body"
  by (simp add: parse_snapshot_def snapshot_body_def Let_def)

lemma parse_snapshot_one_shape:
  "sn_data (parse_snapshot name kind now body) = None \<or> sn_lines (parse_snapshot name kind now body) = []"
  "sn_data (parse_snapshot name kind now body) = Some d \<Longrightarrow> json_valid d"
  by (auto simp: parse_snapshot_def Let_def split: if_splits)

text \<open>C19: An accepted push is what the channel serves: a push changes a channel only if it is a
  webhook channel in good standing and the body is neither blank nor oversized; then, at any later
  time and whatever the outside answers, the channel's snapshot is the pushed one, holding the
  whole trimmed body, and every other channel is as it was.\<close>

theorem ingest_served:
  "(case ingest name stamp finish body s of
      (s', Inl e) \<Rightarrow> s' = s
    | (s', Inr snap) \<Rightarrow>
        snd (set_snapshot name now stamp' finish' out s') = Inr snap
        \<and> snapshot_body snap = trim_space body \<and> trim_space body \<noteq> [] \<and> length body \<le> max_body
        \<and> config_error s name = None \<and> map_option in_type (channel_info s name) = Some source_webhook
        \<and> (gm_get s')(name := x) = (gm_get s)(name := x))"
  by (auto simp: ingest_def set_snapshot_def channel_snapshot_def channel_get_def config_error_def
      channel_info_def parse_snapshot_body Let_def fun_eq_iff not_less split: option.split prod.split sum.split if_split)

section \<open>Event streams\<close>

lemma sse_skip:
  "\<forall>p \<in> set pre. \<not> prefix ''data:'' p \<Longrightarrow> sse_scan [] (pre @ ls) = sse_scan [] ls"
  by (induction pre) (simp_all add: cut_prefix_def)

lemma sse_data: "sse_scan data (map (\<lambda>l. ''data: '' @ l) ls @ rest) = sse_scan (data @ ls) rest"
proof (induction ls arbitrary: data)
  case (Cons l ls)
  have "cut_prefix ''data:'' (''data: '' @ l) = Some ('' '' @ l)" by (simp add: cut_prefix_def)
  moreover have "trim_prefix '' '' ('' '' @ l) = l" by (simp add: trim_prefix_def)
  ultimately show ?case using Cons [of "data @ [l]"] by simp
qed simp

definition stream_lines :: "string list \<Rightarrow> string" where
  "stream_lines xs = concat (map (\<lambda>l. l @ [CHR 0x0A]) xs)"



end
