(* ===== verification/Mcp.thy ===== *)
theory Mcp
  imports GoIo GoJson
begin

text \<open>
  Package \<open>internal/mcpclient\<close>: JSON-RPC over HTTP POST. A request is a value, the endpoint is a
  function from requests to what the POST yields, and what \<open>encoding/json\<close> makes of a text is an
  argument. The client's state is its id counter; the requests it sent are kept with it.
\<close>

section \<open>Requests and answers\<close>

definition protocol_version :: string where "protocol_version = ''2025-06-18''"
definition mcp_max_body :: nat where "mcp_max_body = 2 ^ 20"
definition default_timeout :: duration where "default_timeout = 5 * second"
definition default_mcp_path :: string where "default_mcp_path = ''/mcp''"

datatype mcp_params =
    Init_params string string "string option"
  | No_params
  | Call_params string "(string \<times> string) list"

record mcp_request =
  rq_id :: int
  rq_method :: string
  rq_params :: mcp_params

record rpc_error =
  re_code :: int
  re_message :: string

record rpc_response =
  rs_id :: int
  rs_result :: "string option"
  rs_error :: "rpc_error option"

datatype mcp_error =
    Rpc rpc_error
  | Tool_not_served string
  | Post_failed string
  | Http_code int
  | Read_broken string
  | Empty_response
  | Bad_response string
  | Stream_line_too_long
  | No_response_in_stream
  | Bad_init string
  | Bad_tools string
  | Tool_error string

text \<open>
  The decoders: a JSON-RPC message, the results of \<open>initialize\<close> and \<open>tools/list\<close> (a list of
  names), the content envelope (whether \<open>isError\<close> is set, and its blocks of type and text, when
  there are any), and a text quoted as a JSON string.
\<close>

record server_info =
  si_protocol :: string
  si_name :: string
  si_version :: string
  si_instructions :: string

record mcp_codec =
  dc_response :: "string \<Rightarrow> string + rpc_response"
  dc_init :: "string \<Rightarrow> string + server_info"
  dc_tools :: "string \<Rightarrow> string + string list"
  dc_content :: "string \<Rightarrow> (bool \<times> (string \<times> string) list) option"
  dc_quote :: "string \<Rightarrow> string"

record mcp_options =
  mo_name :: string
  mo_version :: string
  mo_instance :: string
  mo_timeout :: duration

record mcp_client =
  mc_endpoint :: string
  mc_opts :: mcp_options
  mc_next :: int
  mc_sent :: "mcp_request list"

definition new_client :: "string \<Rightarrow> mcp_options \<Rightarrow> mcp_client" where
  "new_client endpoint opts =
     \<lparr>mc_endpoint = endpoint,
      mc_opts = opts\<lparr>mo_name := (if mo_name opts = [] then ''tuner'' else mo_name opts),
                     mo_timeout := (if mo_timeout opts \<le> 0 then default_timeout else mo_timeout opts)\<rparr>,
      mc_next = 0, mc_sent = []\<rparr>"

type_synonym endpoint_fun = "mcp_request \<Rightarrow> string + http_response"

section \<open>One call\<close>

text \<open>
  The data lines of a stream: the first answer to this request, else the first answer at all.
\<close>

fun stream_answer :: "mcp_codec \<Rightarrow> int \<Rightarrow> rpc_response option \<Rightarrow> string list \<Rightarrow> rpc_response option + rpc_response" where
  "stream_answer dc n fallback [] = Inl fallback"
| "stream_answer dc n fallback (line # ls) =
     (case cut_prefix ''data:'' line of
        None \<Rightarrow> stream_answer dc n fallback ls
      | Some p \<Rightarrow>
          let payload = trim_space p in
          if payload = [] \<or> \<not> json_valid payload then stream_answer dc n fallback ls
          else (case dc_response dc payload of
                  Inl _ \<Rightarrow> stream_answer dc n fallback ls
                | Inr msg \<Rightarrow>
                    if rs_id msg = n then Inr msg
                    else stream_answer dc n (case fallback of None \<Rightarrow> Some msg | Some m \<Rightarrow> Some m) ls))"

definition decode_response :: "mcp_codec \<Rightarrow> string \<Rightarrow> int \<Rightarrow> mcp_error + rpc_response" where
  "decode_response dc raw n =
     (case trim_space raw of
        [] \<Rightarrow> Inl Empty_response
      | c # r \<Rightarrow>
          let trimmed = c # r in
          if c = CHR ''{'' \<or> c = CHR ''['' then
            (case dc_response dc trimmed of Inl e \<Rightarrow> Inl (Bad_response e) | Inr msg \<Rightarrow> Inr msg)
          else if length trimmed = mcp_max_body \<and> CHR 0x0A \<notin> set trimmed then Inl Stream_line_too_long
          else (case stream_answer dc n None (scan_lines trimmed) of
                  Inr msg \<Rightarrow> Inr msg
                | Inl (Some msg) \<Rightarrow> Inr msg
                | Inl None \<Rightarrow> Inl No_response_in_stream))"

definition is_notification :: "string \<Rightarrow> bool" where
  "is_notification m \<longleftrightarrow> prefix ''notifications/'' m"

definition call_answer :: "mcp_codec \<Rightarrow> int \<Rightarrow> int \<Rightarrow> (string + http_response) \<Rightarrow> mcp_error + string" where
  "call_answer dc n wire_id reply =
     (case reply of
        Inl e \<Rightarrow> Inl (Post_failed e)
      | Inr r \<Rightarrow>
          if hr_code r = 202 \<and> wire_id = 0 then Inr ''{}''
          else if hr_code r \<noteq> 200 then Inl (Http_code (hr_code r))
          else (case limited mcp_max_body r of
             (_, Some e) \<Rightarrow> Inl (Read_broken e)
           | (raw, None) \<Rightarrow>
               if wire_id = 0 \<and> trim_space raw = [] then Inr ''{}''
               else (case decode_response dc raw n of
                  Inl e \<Rightarrow> Inl e
                | Inr msg \<Rightarrow>
                    (case rs_error msg of
                       Some e \<Rightarrow> Inl (Rpc e)
                     | None \<Rightarrow> (case rs_result msg of None \<Rightarrow> Inr ''{}'' | Some res \<Rightarrow> Inr res)))))"

definition mcp_call :: "mcp_codec \<Rightarrow> endpoint_fun \<Rightarrow> string \<Rightarrow> mcp_params \<Rightarrow> mcp_client \<Rightarrow> mcp_client \<times> (mcp_error + string)" where
  "mcp_call dc ep m params c =
     (let n = wrap64 (mc_next c + 1);
          req = \<lparr>rq_id = (if is_notification m then 0 else n), rq_method = m, rq_params = params\<rparr>
      in (c\<lparr>mc_next := n, mc_sent := mc_sent c @ [req]\<rparr>, call_answer dc n (rq_id req) (ep req)))"

section \<open>The three operations\<close>

definition initialize :: "mcp_codec \<Rightarrow> endpoint_fun \<Rightarrow> mcp_client \<Rightarrow> mcp_client \<times> (mcp_error + server_info)" where
  "initialize dc ep c =
     (let opts = mc_opts c;
          inst = (if mo_instance opts \<noteq> [] then Some (mo_instance opts) else None)
      in case mcp_call dc ep ''initialize'' (Init_params (mo_name opts) (mo_version opts) inst) c of
           (c', Inl e) \<Rightarrow> (c', Inl e)
         | (c', Inr raw) \<Rightarrow>
             (case dc_init dc raw of
                Inl e \<Rightarrow> (c', Inl (Bad_init e))
              | Inr info \<Rightarrow> (fst (mcp_call dc ep ''notifications/initialized'' No_params c'), Inr info)))"

definition list_tools :: "mcp_codec \<Rightarrow> endpoint_fun \<Rightarrow> mcp_client \<Rightarrow> mcp_client \<times> (mcp_error + string list)" where
  "list_tools dc ep c =
     (case mcp_call dc ep ''tools/list'' No_params c of
        (c', Inl e) \<Rightarrow> (c', Inl e)
      | (c', Inr raw) \<Rightarrow>
          (case dc_tools dc raw of
             Inl e \<Rightarrow> (c', Inl (Bad_tools e))
           | Inr names \<Rightarrow> (c', Inr (filter (\<lambda>t. t \<noteq> []) names))))"

text \<open>
  \<open>toolPayload\<close>: of the text blocks, the first that is JSON, else an error when the tool reported
  one, else the first non-empty text as a JSON string; anything else stays as it is.
\<close>

definition tool_payload :: "mcp_codec \<Rightarrow> string \<Rightarrow> mcp_error + string" where
  "tool_payload dc raw =
     (case dc_content dc raw of
        None \<Rightarrow> Inr raw
      | Some (is_error, blocks) \<Rightarrow>
          let texts = map snd (filter (\<lambda>(t, _). t = [] \<or> t = ''text'') blocks);
              first_text = (case filter (\<lambda>t. t \<noteq> []) texts of t # _ \<Rightarrow> t | [] \<Rightarrow> [])
          in case find json_valid texts of
               Some t \<Rightarrow> Inr t
             | None \<Rightarrow>
                 if is_error then Inl (Tool_error first_text)
                 else if first_text \<noteq> [] then Inr (dc_quote dc first_text)
                 else Inr raw)"

definition call_tool :: "mcp_codec \<Rightarrow> endpoint_fun \<Rightarrow> string \<Rightarrow> (string \<times> string) list \<Rightarrow> mcp_client \<Rightarrow>
    mcp_client \<times> (mcp_error + string)" where
  "call_tool dc ep name args c =
     (case mcp_call dc ep ''tools/call'' (Call_params name args) c of
        (c', Inl (Rpc e)) \<Rightarrow> (c', if re_code e = - 32601 then Inl (Tool_not_served name) else Inl (Rpc e))
      | (c', Inl e) \<Rightarrow> (c', Inl e)
      | (c', Inr raw) \<Rightarrow> (c', tool_payload dc raw))"

section \<open>What is sent\<close>

lemma mcp_call_sent: "map rq_method (mc_sent (fst (mcp_call dc ep m p c))) = map rq_method (mc_sent c) @ [m]"
  and mcp_call_sent_params: "map rq_params (mc_sent (fst (mcp_call dc ep m p c))) = map rq_params (mc_sent c) @ [p]"
  and mcp_call_opts: "mc_opts (fst (mcp_call dc ep m p c)) = mc_opts c"
  by (simp_all add: mcp_call_def Let_def)

lemma list_tools_sent: "map rq_params (mc_sent (fst (list_tools dc ep c))) = map rq_params (mc_sent c) @ [No_params]"
  using mcp_call_sent_params [of dc ep "''tools/list''" No_params c]
  by (auto simp: list_tools_def split: prod.splits sum.splits)

lemma call_tool_sent:
  "map rq_params (mc_sent (fst (call_tool dc ep name args c))) = map rq_params (mc_sent c) @ [Call_params name args]"
  using mcp_call_sent_params [of dc ep "''tools/call''" "Call_params name args" c]
  by (auto simp: call_tool_def split: prod.splits sum.splits mcp_error.splits)

lemma initialize_sent:
  "\<exists>r \<in> {[], [No_params]}. map rq_params (mc_sent (fst (initialize dc ep c))) = map rq_params (mc_sent c)
     @ Init_params (mo_name (mc_opts c)) (mo_version (mc_opts c))
         (if mo_instance (mc_opts c) \<noteq> [] then Some (mo_instance (mc_opts c)) else None) # r"
proof -
  let ?p = "Init_params (mo_name (mc_opts c)) (mo_version (mc_opts c))
         (if mo_instance (mc_opts c) \<noteq> [] then Some (mo_instance (mc_opts c)) else None)"
  obtain c' r where run: "mcp_call dc ep ''initialize'' ?p c = (c', r)" by (cases "mcp_call dc ep ''initialize'' ?p c")
  have sent: "map rq_params (mc_sent c') = map rq_params (mc_sent c) @ [?p]"
    using mcp_call_sent_params [of dc ep "''initialize''" ?p c] by (simp only: run fst_conv)
  have "fst (initialize dc ep c) \<in> {c', fst (mcp_call dc ep ''notifications/initialized'' No_params c')}"
    unfolding initialize_def Let_def run by (simp split: sum.split)
  then show ?thesis
    using sent mcp_call_sent_params [of dc ep "''notifications/initialized''" No_params c'] by auto
qed

text \<open>No operation moves a client to another endpoint.\<close>

lemma mcp_call_endpoint [simp]: "mc_endpoint (fst (mcp_call dc ep m p c)) = mc_endpoint c"
  by (simp add: mcp_call_def Let_def)

lemma initialize_endpoint [simp]: "mc_endpoint (fst (initialize dc ep c)) = mc_endpoint c"
  by (auto simp: initialize_def Let_def split: prod.split sum.split dest!: arg_cong [where f = "mc_endpoint \<circ> fst"])

lemma list_tools_endpoint [simp]: "mc_endpoint (fst (list_tools dc ep c)) = mc_endpoint c"
  by (auto simp: list_tools_def split: prod.split sum.split dest!: arg_cong [where f = "mc_endpoint \<circ> fst"])

lemma call_tool_endpoint [simp]: "mc_endpoint (fst (call_tool dc ep name args c)) = mc_endpoint c"
  by (auto simp: call_tool_def split: prod.split sum.split mcp_error.split dest!: arg_cong [where f = "mc_endpoint \<circ> fst"])

section \<open>Answers in a stream\<close>

definition answers_id :: "mcp_codec \<Rightarrow> int \<Rightarrow> string \<Rightarrow> rpc_response \<Rightarrow> bool" where
  "answers_id dc n line msg \<longleftrightarrow>
     (\<exists>p. cut_prefix ''data:'' line = Some p \<and> trim_space p \<noteq> [] \<and> json_valid (trim_space p)
        \<and> dc_response dc (trim_space p) = Inr msg \<and> rs_id msg = n)"

lemma stream_answer_found:
  assumes "answers_id dc n line msg" and "\<forall>l \<in> set pre. \<forall>m. \<not> answers_id dc n l m"
  shows "stream_answer dc n fb (pre @ line # post) = Inr msg"
  using assms(2)
proof (induction pre arbitrary: fb)
  case Nil
  then show ?case using assms(1) by (auto simp: answers_id_def Let_def)
next
  case (Cons l pre)
  then show ?case
    by (auto simp: answers_id_def Let_def split: option.split sum.split)
qed

lemma trim_space_length: "length (trim_space s) \<le> length s"
  using suffix_length_le [OF strip_seqs_suffix [of space_seqs s]]
    suffix_length_le [OF strip_seqs_suffix [of "map rev space_seqs" "rev (strip_seqs space_seqs s)"]]
  by (simp add: trim_space_def trim_right_def trim_left_def)


text \<open>For the witness: a decoder for which \<open>{}\<close> answers request 2 and all else request 7.\<close>

definition sample_codec :: mcp_codec where
  "sample_codec = \<lparr>dc_response = (\<lambda>t. Inr \<lparr>rs_id = (if t = ''{}'' then 2 else 7), rs_result = Some t, rs_error = None\<rparr>),
     dc_init = Inl, dc_tools = Inl, dc_content = (\<lambda>_. None), dc_quote = id\<rparr>"

definition sample_stream :: string where
  "sample_stream = ''event: m'' @ [CHR 0x0A] @ ''data: 5'' @ [CHR 0x0A] @ ''data: {}''"

lemma sample_stream_lines:
  "scan_lines (trim_space sample_stream) = [''event: m'', ''data: 5''] @ ''data: {}'' # []"
  "hd (trim_space sample_stream) \<notin> {CHR ''{'', CHR ''[''}"
  "trim_space '' 5'' = ''5''" "trim_space '' {}'' = ''{}''" "json_valid ''{}''"
  by code_simp+


end
