(* ===== verification/FeatureMerge.thy ===== *)
theory FeatureMerge
  imports GoStrings
begin

text \<open>
  Package \<open>internal/featurebrowser\<close>, first half: what adhd instances release, and the merge of
  their answers into one view.
\<close>

section \<open>The data\<close>

text \<open>\<open>Not_fetched\<close> is the zero value of the type, the state of a source before its first fetch.\<close>

datatype source_state = Not_fetched | Served | Declared_absent | Unreachable

datatype view_status = View_served | View_declared_absent | View_unreachable | View_no_sources

record mcp_source =
  ms_instance :: string
  ms_endpoint :: string
  ms_origin :: string
  ms_role :: string
  ms_trust_rung :: int
  ms_state :: source_state
  ms_tools :: nat
  ms_served :: "string list"
  ms_rung :: int
  ms_demo :: bool
  ms_error :: string
  ms_fetched :: time

record feature =
  ft_file :: string
  ft_scenario :: string
  ft_certified :: bool
  ft_isotope :: string
  ft_transit :: string
  ft_member :: string
  ft_stale :: bool
  ft_demo :: bool
  ft_sources :: "string list"

record skill =
  sk_name :: string
  sk_rung :: int
  sk_distance :: "int option"
  sk_host :: string
  sk_binding :: string
  sk_failures :: "int option"
  sk_sources :: "string list"

record cluster_member =
  mb_name :: string
  mb_mode :: string
  mb_rung :: "int option"
  mb_count :: "int option"
  mb_note :: string
  mb_sources :: "string list"

record summary =
  su_certified :: nat
  su_total :: nat
  su_deterministic :: nat
  su_skills :: nat
  su_distance :: "int option"

record view =
  vw_status :: view_status
  vw_rung :: int
  vw_demo :: bool
  vw_note :: string
  vw_summary :: summary
  vw_features :: "feature list"
  vw_skills :: "skill list"
  vw_members :: "cluster_member list"
  vw_unverified :: int
  vw_sources :: "mcp_source list"
  vw_fetched :: time

record source_result =
  sr_src :: mcp_source
  sr_features :: "feature list"
  sr_skills :: "skill list"
  sr_members :: "cluster_member list"
  sr_unverified :: int

section \<open>Helpers\<close>

definition append_unique :: "string list \<Rightarrow> string \<Rightarrow> string list" where
  "append_unique xs s = (if s \<in> set xs then xs else xs @ [s])"

definition feature_tier :: "feature \<Rightarrow> nat" where
  "feature_tier f =
     (if ft_member f \<noteq> [] then 3 else if ft_isotope f \<noteq> [] \<or> ft_transit f \<noteq> [] then 2
      else if ft_certified f then 1 else 0)"

definition feature_key :: "feature \<Rightarrow> string" where
  "feature_key f = ft_file f @ CHR 0x00 # ft_scenario f"

definition certifies :: "string \<Rightarrow> source_result \<Rightarrow> bool" where
  "certifies key r \<longleftrightarrow> list_ex (\<lambda>e. feature_key e = key \<and> ft_certified e) (sr_features r)"

definition order_sources :: "string list \<Rightarrow> source_result list \<Rightarrow> (source_result \<Rightarrow> bool) \<Rightarrow> string list" where
  "order_sources sources results certified_by =
     (let out = map (ms_instance \<circ> sr_src)
            (filter (\<lambda>r. certified_by r \<and> ms_instance (sr_src r) \<in> set sources) results)
      in fold (\<lambda>s out. if s \<in> set out then out else out @ [s]) sources out)"

definition opt_greater :: "int option \<Rightarrow> int option \<Rightarrow> bool" where
  "opt_greater a b \<longleftrightarrow> (case a of None \<Rightarrow> False | Some x \<Rightarrow> (case b of None \<Rightarrow> True | Some y \<Rightarrow> y < x))"

section \<open>One entry at a time\<close>

text \<open>
  The maps and the order slice of the code are one association list each: a known key is updated
  in place, a new one appended.
\<close>

definition merge_feature :: "string \<Rightarrow> feature \<Rightarrow> (string, feature) gomap \<Rightarrow> (string, feature) gomap" where
  "merge_feature inst f m =
     (case gm_get m (feature_key f) of
        None \<Rightarrow> gm_put (feature_key f) (f\<lparr>ft_sources := [inst]\<rparr>) m
      | Some old \<Rightarrow>
          let new = old\<lparr>ft_certified := ft_certified old \<or> ft_certified f,
                        ft_stale := ft_stale old \<or> ft_stale f,
                        ft_sources := append_unique (ft_sources old) inst\<rparr>;
              new = (if feature_tier f > feature_tier new
                     then new\<lparr>ft_isotope := ft_isotope f, ft_transit := ft_transit f, ft_member := ft_member f\<rparr>
                     else new)
          in gm_put (feature_key f) new m)"

definition join_skill :: "string \<Rightarrow> skill \<Rightarrow> skill \<Rightarrow> skill" where
  "join_skill inst s old =
     (let new = old\<lparr>sk_sources := append_unique (sk_sources old) inst\<rparr>;
          new = (if opt_greater (sk_failures s) (sk_failures new) then new\<lparr>sk_failures := sk_failures s\<rparr> else new)
      in if sk_rung s > sk_rung new then s\<lparr>sk_sources := sk_sources new\<rparr> else new)"

definition merge_skill :: "string \<Rightarrow> skill \<Rightarrow> (string, skill) gomap \<Rightarrow> (string, skill) gomap" where
  "merge_skill inst s m =
     gm_put (sk_name s) (case gm_get m (sk_name s) of
        None \<Rightarrow> s\<lparr>sk_sources := [inst]\<rparr> | Some old \<Rightarrow> join_skill inst s old) m"

definition is_demo_mode :: "string \<Rightarrow> bool" where
  "is_demo_mode s \<longleftrightarrow> equal_fold s ''demo''"

definition join_member :: "string \<Rightarrow> cluster_member \<Rightarrow> cluster_member \<Rightarrow> cluster_member" where
  "join_member inst b old =
     (let new = old\<lparr>mb_sources := append_unique (mb_sources old) inst\<rparr>;
          new = (if is_demo_mode (mb_mode b) then new\<lparr>mb_mode := ''demo''\<rparr>
                 else if mb_mode new = [] then new\<lparr>mb_mode := mb_mode b\<rparr> else new);
          new = (if opt_greater (mb_rung b) (mb_rung new) then new\<lparr>mb_rung := mb_rung b\<rparr> else new);
          new = (if opt_greater (mb_count b) (mb_count new) then new\<lparr>mb_count := mb_count b\<rparr> else new)
      in if mb_note new = [] then new\<lparr>mb_note := mb_note b\<rparr> else new)"

definition merge_member :: "string \<Rightarrow> cluster_member \<Rightarrow> (string, cluster_member) gomap \<Rightarrow> (string, cluster_member) gomap" where
  "merge_member inst b m =
     gm_put (mb_name b) (case gm_get m (mb_name b) of
        None \<Rightarrow> b\<lparr>mb_sources := [inst]\<rparr> | Some old \<Rightarrow> join_member inst b old) m"

section \<open>One source at a time\<close>

record merge_state =
  mg_sources :: "mcp_source list"
  mg_served :: nat
  mg_declared :: nat
  mg_unreachable :: nat
  mg_rung :: int
  mg_demo :: bool
  mg_unverified :: int
  mg_features :: "(string, feature) gomap"
  mg_by_demo :: "string list"
  mg_by_real :: "string list"
  mg_skills :: "(string, skill) gomap"
  mg_members :: "(string, cluster_member) gomap"

definition merge_init :: merge_state where
  "merge_init =
     \<lparr>mg_sources = [], mg_served = 0, mg_declared = 0, mg_unreachable = 0, mg_rung = 0, mg_demo = False,
      mg_unverified = 0, mg_features = [], mg_by_demo = [], mg_by_real = [], mg_skills = [], mg_members = []\<rparr>"

definition certified_keys :: "feature list \<Rightarrow> string list" where
  "certified_keys fs = map feature_key (filter ft_certified fs)"

definition merge_result :: "source_result \<Rightarrow> merge_state \<Rightarrow> merge_state" where
  "merge_result r st =
     (let src = sr_src r; inst = ms_instance src;
          st = st\<lparr>mg_sources := mg_sources st @ [src]\<rparr>;
          st = (case ms_state src of
                  Served \<Rightarrow> st\<lparr>mg_served := mg_served st + 1\<rparr>
                | Declared_absent \<Rightarrow> st\<lparr>mg_declared := mg_declared st + 1\<rparr>
                | _ \<Rightarrow> st\<lparr>mg_unreachable := mg_unreachable st + 1\<rparr>)
      in st\<lparr>mg_rung := max (mg_rung st) (ms_rung src),
            mg_demo := mg_demo st \<or> ms_demo src,
            mg_unverified := max (mg_unverified st) (sr_unverified r),
            mg_features := fold (merge_feature inst) (sr_features r) (mg_features st),
            mg_by_demo := (if ms_demo src then mg_by_demo st @ certified_keys (sr_features r) else mg_by_demo st),
            mg_by_real := (if ms_demo src then mg_by_real st else mg_by_real st @ certified_keys (sr_features r)),
            mg_skills := fold (merge_skill inst) (sr_skills r) (mg_skills st),
            mg_members := fold (merge_member inst) (sr_members r) (mg_members st)\<rparr>)"

section \<open>The view\<close>

definition feature_less :: "feature \<Rightarrow> feature \<Rightarrow> bool" where
  "feature_less a b =
     (if ft_certified a \<noteq> ft_certified b then ft_certified a
      else if ft_file a \<noteq> ft_file b then ft_file a < ft_file b
      else ft_scenario a < ft_scenario b)"

definition skill_less :: "skill \<Rightarrow> skill \<Rightarrow> bool" where
  "skill_less a b =
     (if sk_rung a \<noteq> sk_rung b then sk_rung a > sk_rung b else sk_name a < sk_name b)"

definition member_less :: "cluster_member \<Rightarrow> cluster_member \<Rightarrow> bool" where
  "member_less a b =
     (let ac = (case mb_count a of Some n \<Rightarrow> n | None \<Rightarrow> - 1);
          bc = (case mb_count b of Some n \<Rightarrow> n | None \<Rightarrow> - 1)
      in if ac \<noteq> bc then ac > bc else mb_name a < mb_name b)"

definition finish_feature :: "source_result list \<Rightarrow> merge_state \<Rightarrow> string \<times> feature \<Rightarrow> feature" where
  "finish_feature results st kf =
     (case kf of (key, f) \<Rightarrow>
        let f = f\<lparr>ft_demo := ft_certified f \<and> key \<in> set (mg_by_demo st) \<and> key \<notin> set (mg_by_real st)\<rparr>
        in if ft_certified f then f\<lparr>ft_sources := order_sources (ft_sources f) results (certifies key)\<rparr> else f)"

definition summarize :: "feature list \<Rightarrow> skill list \<Rightarrow> summary" where
  "summarize fs sks =
     \<lparr>su_certified = length (filter ft_certified fs), su_total = length fs,
      su_deterministic = length (filter (\<lambda>s. sk_rung s \<ge> 2) sks), su_skills = length sks,
      su_distance = fold (\<lambda>s d. if opt_greater (sk_distance s) d then sk_distance s else d) sks None\<rparr>"

definition declared_absent_note :: string where
  "declared_absent_note =
     ''adhd.features.certified / adhd.skills.certified / adhd.features.cluster are declared but not served ''
     @ ''(declared absent by policy: adhd#24 closed @red, adhd#39 open, lab-safety sheets/adhd.md '' @ [CHR 0xC2, CHR 0xA7] @ ''16)''"

definition partial_note :: "nat \<Rightarrow> nat \<Rightarrow> string" where
  "partial_note declared unreachable =
     ''partial federation: '' @ str_join '', ''
       ((if declared > 0 then [show_nat declared @ '' source(s) declared-absent''] else [])
        @ (if unreachable > 0 then [show_nat unreachable @ '' source(s) unreachable''] else []))"

text \<open>
  The skill and member maps are iterated in no order of their own; the stable sorts that follow
  are by a key of each entry's name, so the order of the association lists stands for any.
\<close>

definition merge_results :: "source_result list \<Rightarrow> time \<Rightarrow> view" where
  "merge_results results now =
     (let st = fold merge_result results merge_init;
          fs = sort_slice feature_less (map (finish_feature results st) (mg_features st));
          sks = sort_slice skill_less (map snd (mg_skills st));
          mbs = sort_slice member_less (map snd (mg_members st));
          (status, note) =
            (if mg_served st > 0 then
               (View_served, if mg_declared st + mg_unreachable st > 0
                             then partial_note (mg_declared st) (mg_unreachable st) else [])
             else if mg_declared st > 0 then (View_declared_absent, declared_absent_note)
             else (View_unreachable, ''every adhd source failed the MCP handshake''))
      in \<lparr>vw_status = status, vw_rung = mg_rung st, vw_demo = mg_demo st, vw_note = note,
          vw_summary = summarize fs sks, vw_features = fs, vw_skills = sks, vw_members = mbs,
          vw_unverified = mg_unverified st, vw_sources = mg_sources st, vw_fetched = now\<rparr>)"

section \<open>The scalar parts of the merge\<close>

lemma merge_result_simps [simp]:
  "mg_sources (merge_result r st) = mg_sources st @ [sr_src r]"
  "mg_served (merge_result r st) = mg_served st + (if ms_state (sr_src r) = Served then 1 else 0)"
  "mg_declared (merge_result r st) = mg_declared st + (if ms_state (sr_src r) = Declared_absent then 1 else 0)"
  "mg_unreachable (merge_result r st) = mg_unreachable st + (if ms_state (sr_src r) \<in> {Served, Declared_absent} then 0 else 1)"
  "mg_rung (merge_result r st) = max (mg_rung st) (ms_rung (sr_src r))"
  "mg_demo (merge_result r st) = (mg_demo st \<or> ms_demo (sr_src r))"
  "mg_unverified (merge_result r st) = max (mg_unverified st) (sr_unverified r)"
  "mg_features (merge_result r st) = fold (merge_feature (ms_instance (sr_src r))) (sr_features r) (mg_features st)"
  "mg_by_demo (merge_result r st) = mg_by_demo st @ (if ms_demo (sr_src r) then certified_keys (sr_features r) else [])"
  "mg_by_real (merge_result r st) = mg_by_real st @ (if ms_demo (sr_src r) then [] else certified_keys (sr_features r))"
  "mg_skills (merge_result r st) = fold (merge_skill (ms_instance (sr_src r))) (sr_skills r) (mg_skills st)"
  "mg_members (merge_result r st) = fold (merge_member (ms_instance (sr_src r))) (sr_members r) (mg_members st)"
  by (simp_all add: merge_result_def Let_def split: source_state.split)

lemma merge_scalars:
  "mg_sources (fold merge_result rs st) = mg_sources st @ map sr_src rs"
  "mg_served (fold merge_result rs st) = mg_served st + length (filter (\<lambda>r. ms_state (sr_src r) = Served) rs)"
  "mg_declared (fold merge_result rs st) = mg_declared st + length (filter (\<lambda>r. ms_state (sr_src r) = Declared_absent) rs)"
  "mg_unreachable (fold merge_result rs st) = mg_unreachable st + length (filter (\<lambda>r. ms_state (sr_src r) \<notin> {Served, Declared_absent}) rs)"
  "mg_demo (fold merge_result rs st) = (mg_demo st \<or> (\<exists>r \<in> set rs. ms_demo (sr_src r)))"
  "mg_rung (fold merge_result rs st) = fold (\<lambda>r. max (ms_rung (sr_src r))) rs (mg_rung st)"
  "set (mg_by_demo (fold merge_result rs st)) =
     set (mg_by_demo st) \<union> {k. \<exists>r \<in> set rs. ms_demo (sr_src r) \<and> certifies k r}"
  "set (mg_by_real (fold merge_result rs st)) =
     set (mg_by_real st) \<union> {k. \<exists>r \<in> set rs. \<not> ms_demo (sr_src r) \<and> certifies k r}"
  by (induction rs arbitrary: st)
    (auto simp: certified_keys_def certifies_def list_ex_iff max.commute)

section \<open>The feature table\<close>

text \<open>What was reported: every released feature with the instance that released it.\<close>

definition reports :: "source_result list \<Rightarrow> (string \<times> feature) list" where
  "reports rs = concat (map (\<lambda>r. map (Pair (ms_instance (sr_src r))) (sr_features r)) rs)"

definition released :: "feature \<Rightarrow> string \<times> string \<times> string" where
  "released f = (ft_isotope f, ft_transit f, ft_member f)"

text \<open>An entry agrees with the reports of its key.\<close>

definition reporters :: "(string \<times> feature) list \<Rightarrow> string \<Rightarrow> string list" where
  "reporters ps k = map fst (filter (\<lambda>p. feature_key (snd p) = k) ps)"

definition entry_ok :: "(string \<times> feature) list \<Rightarrow> string \<Rightarrow> feature \<Rightarrow> bool" where
  "entry_ok ps k e \<longleftrightarrow> feature_key e = k
     \<and> ft_certified e = (\<exists>p \<in> set ps. feature_key (snd p) = k \<and> ft_certified (snd p))
     \<and> set (ft_sources e) = set (reporters ps k)
     \<and> (\<exists>p \<in> set ps. feature_key (snd p) = k \<and> released (snd p) = released e)
     \<and> (\<forall>p \<in> set ps. feature_key (snd p) = k \<longrightarrow> feature_tier (snd p) \<le> feature_tier e)"

definition entries_ok :: "(string \<times> feature) list \<Rightarrow> (string, feature) gomap \<Rightarrow> bool" where
  "entries_ok ps m \<longleftrightarrow> gm_wf m \<and> fst ` set m = feature_key ` snd ` set ps
     \<and> (\<forall>k e. gm_get m k = Some e \<longrightarrow> entry_ok ps k e)"

lemma reporters_snoc [simp]:
  "reporters (ps @ [(i, f)]) k = (if feature_key f = k then reporters ps k @ [i] else reporters ps k)"
  by (simp add: reporters_def)

lemma entry_ok_other: "feature_key f \<noteq> k \<Longrightarrow> entry_ok ps k e \<Longrightarrow> entry_ok (ps @ [(i, f)]) k e"
  unfolding entry_ok_def by simp

lemma tier_simps:
  "feature_tier (e\<lparr>ft_sources := x\<rparr>) = feature_tier e" "feature_tier (e\<lparr>ft_stale := y\<rparr>) = feature_tier e"
  "feature_tier (e\<lparr>ft_demo := y\<rparr>) = feature_tier e"
  by (simp_all add: feature_tier_def)

lemma key_simps:
  "feature_key (e\<lparr>ft_sources := x\<rparr>) = feature_key e" "feature_key (e\<lparr>ft_stale := y\<rparr>) = feature_key e"
  "feature_key (e\<lparr>ft_certified := y\<rparr>) = feature_key e" "feature_key (e\<lparr>ft_demo := y\<rparr>) = feature_key e"
  "feature_key (e\<lparr>ft_isotope := a, ft_transit := b, ft_member := c\<rparr>) = feature_key e"
  by (simp_all add: feature_key_def)

lemma entry_ok_new:
  assumes "feature_key f \<notin> feature_key ` snd ` set ps"
  shows "entry_ok (ps @ [(i, f)]) (feature_key f) (f\<lparr>ft_sources := [i]\<rparr>)"
proof -
  have no: "feature_key (snd p) \<noteq> feature_key f" if "p \<in> set ps" for p
    using that assms by (metis imageI)
  show ?thesis
    unfolding entry_ok_def using no by (simp add: tier_simps key_simps released_def reporters_def)
qed

lemma merged_tier:
  fixes f old :: feature and i :: string
  defines "new \<equiv> old\<lparr>ft_certified := ft_certified old \<or> ft_certified f,
        ft_stale := ft_stale old \<or> ft_stale f, ft_sources := append_unique (ft_sources old) i\<rparr>"
  defines "new' \<equiv> (if feature_tier f > feature_tier new
     then new\<lparr>ft_isotope := ft_isotope f, ft_transit := ft_transit f, ft_member := ft_member f\<rparr> else new)"
  shows "feature_tier old \<le> feature_tier new'" and "feature_tier f \<le> feature_tier new'"
    and "released new' = released old \<or> released new' = released f"
    and "feature_key new' = feature_key old" and "ft_certified new' = (ft_certified old \<or> ft_certified f)"
    and "ft_sources new' = append_unique (ft_sources old) i"
proof -
  have up: "feature_tier old \<le> feature_tier new"
    by (simp add: new_def feature_tier_def)
  have cert: "ft_certified f \<Longrightarrow> ft_certified new" by (simp add: new_def)
  have copy: "feature_tier f \<le> feature_tier (new\<lparr>ft_isotope := ft_isotope f, ft_transit := ft_transit f, ft_member := ft_member f\<rparr>)"
    using cert by (simp add: feature_tier_def)
  show "feature_tier old \<le> feature_tier new'" "feature_tier f \<le> feature_tier new'"
    using up copy unfolding new'_def by (cases "feature_tier f > feature_tier new"; simp)+
  show "released new' = released old \<or> released new' = released f"
    by (cases "feature_tier f > feature_tier new") (simp_all add: new'_def new_def released_def)
  show "feature_key new' = feature_key old" "ft_certified new' = (ft_certified old \<or> ft_certified f)"
    "ft_sources new' = append_unique (ft_sources old) i"
    by (simp_all add: new'_def new_def feature_key_def)
qed

lemma entries_ok_step:
  assumes tab: "entries_ok ps m"
  shows "entries_ok (ps @ [(i, f)]) (merge_feature i f m)"
proof -
  let ?k = "feature_key f"
  have wf: "gm_wf m" and keys: "fst ` set m = feature_key ` snd ` set ps"
    and ent: "\<And>k e. gm_get m k = Some e \<Longrightarrow> entry_ok ps k e"
    using tab by (auto simp: entries_ok_def)
  obtain e where e: "merge_feature i f m = gm_put ?k e m" "entry_ok (ps @ [(i, f)]) ?k e"
  proof (cases "gm_get m ?k")
    case None
    then have "?k \<notin> feature_key ` snd ` set ps" unfolding map_of_eq_None_iff keys .
    then show thesis
      using that [of "f\<lparr>ft_sources := [i]\<rparr>"] entry_ok_new None by (simp add: merge_feature_def)
  next
    case (Some old)
    then have ok: "entry_ok ps ?k old" by (rule ent)
    define new where "new = old\<lparr>ft_certified := ft_certified old \<or> ft_certified f,
        ft_stale := ft_stale old \<or> ft_stale f, ft_sources := append_unique (ft_sources old) i\<rparr>"
    define new' where "new' = (if feature_tier f > feature_tier new
       then new\<lparr>ft_isotope := ft_isotope f, ft_transit := ft_transit f, ft_member := ft_member f\<rparr> else new)"
    note facts = merged_tier [where f = f and old = old and i = i, folded new_def, folded new'_def]
    have "entry_ok (ps @ [(i, f)]) ?k new'"
      unfolding entry_ok_def
    proof (intro conjI)
      show "set (ft_sources new') = set (reporters (ps @ [(i, f)]) ?k)"
        using ok by (simp add: facts(6) append_unique_def entry_ok_def insert_absorb)
      obtain p where "p \<in> set ps" "feature_key (snd p) = ?k" "released (snd p) = released old"
        using ok unfolding entry_ok_def by blast
      then show "\<exists>p \<in> set (ps @ [(i, f)]). feature_key (snd p) = ?k \<and> released (snd p) = released new'"
        using facts(3) by (metis Un_iff list.set_intros(1) set_append snd_conv)
      show "\<forall>p \<in> set (ps @ [(i, f)]). feature_key (snd p) = ?k \<longrightarrow> feature_tier (snd p) \<le> feature_tier new'"
      proof (intro ballI impI)
        fix p assume "p \<in> set (ps @ [(i, f)])" and k: "feature_key (snd p) = ?k"
        then consider "p \<in> set ps" | "p = (i, f)" by auto
        then show "feature_tier (snd p) \<le> feature_tier new'"
        proof cases
          case 1
          then have "feature_tier (snd p) \<le> feature_tier old" using ok k by (simp add: entry_ok_def)
          then show ?thesis using facts(1) by (rule le_trans)
        qed (simp add: facts(2))
      qed
      show "feature_key new' = ?k" using ok facts(4) by (simp add: entry_ok_def)
      show "ft_certified new' = (\<exists>p \<in> set (ps @ [(i, f)]). feature_key (snd p) = ?k \<and> ft_certified (snd p))"
        using ok facts(5) by (simp add: entry_ok_def disj_commute)
    qed
    then show thesis
      by (intro that [of new']) (simp_all only: merge_feature_def Some option.case Let_def new_def new'_def)
  qed
  have "entry_ok (ps @ [(i, f)]) k e'" if "gm_get (gm_put ?k e m) k = Some e'" for k e'
  proof (cases "k = ?k")
    case True
    then show ?thesis using that e(2) by simp
  next
    case False
    then show ?thesis using that entry_ok_other ent [of k e'] by simp
  qed
  moreover have "fst ` set (gm_put ?k e m) = insert ?k (fst ` set m)"
    by (simp add: dom_update)
  ultimately show ?thesis
    using wf keys e(1) by (simp add: entries_ok_def distinct_update insert_commute)
qed

lemma merge_table:
  "entries_ok ps m \<Longrightarrow> entries_ok (ps @ qs) (fold (\<lambda>(i, f). merge_feature i f) qs m)"
proof (induction qs arbitrary: ps m)
  case (Cons q qs)
  obtain i f where "q = (i, f)" by (cases q)
  with Cons.IH [OF entries_ok_step [OF Cons.prems, of i f]] show ?case by simp
qed simp

lemma merge_features_reports:
  "mg_features (fold merge_result rs st) = fold (\<lambda>(i, f). merge_feature i f) (reports rs) (mg_features st)"
  by (induction rs arbitrary: st) (simp_all add: reports_def fold_map o_def)

lemma merged_table_ok: "entries_ok (reports rs) (mg_features (fold merge_result rs merge_init))"
  using merge_table [of "[]" "[]" "reports rs"]
  by (simp add: merge_features_reports merge_init_def entries_ok_def)

lemma reports_certified:
  "(\<exists>p \<in> set (reports rs). feature_key (snd p) = k \<and> ft_certified (snd p)) \<longleftrightarrow> (\<exists>r \<in> set rs. certifies k r)"
  by (auto simp: reports_def certifies_def list_ex_iff)

section \<open>The view's features\<close>

interpretation feature_ord: keyed_order feature_less "\<lambda>f. (\<not> ft_certified f, ft_file f, ft_scenario f)"
  by unfold_locales (auto simp: feature_less_def)

interpretation skill_ord: keyed_order skill_less "\<lambda>s. (- sk_rung s, sk_name s)"
  by unfold_locales (auto simp: skill_less_def)

interpretation member_ord: keyed_order member_less
  "\<lambda>b. (- (case mb_count b of Some n \<Rightarrow> n | None \<Rightarrow> - 1), mb_name b)"
  by unfold_locales (auto simp: member_less_def Let_def)

lemma fold_append_missing: "\<exists>b. fold (\<lambda>s out. if s \<in> set out then out else out @ [s]) xs out = out @ b
    \<and> set (out @ b) = set out \<union> set xs \<and> set b \<inter> set out = {}"
proof (induction xs arbitrary: out)
  case (Cons x xs)
  show ?case
  proof (cases "x \<in> set out")
    case True
    then show ?thesis using Cons [of out] by auto
  next
    case False
    then obtain b where "fold (\<lambda>s out. if s \<in> set out then out else out @ [s]) xs (out @ [x]) = (out @ [x]) @ b"
      "set ((out @ [x]) @ b) = set (out @ [x]) \<union> set xs" "set b \<inter> set (out @ [x]) = {}"
      using Cons [of "out @ [x]"] by blast
    with False show ?thesis by (intro exI [of _ "x # b"]) auto
  qed
qed simp

lemma order_sources_split:
  obtains a b where "order_sources xs rs P = a @ b" and "set (a @ b) = set xs"
    and "set a = {ms_instance (sr_src r) |r. r \<in> set rs \<and> P r \<and> ms_instance (sr_src r) \<in> set xs}"
    and "set b \<inter> set a = {}"
proof -
  define a where "a = map (ms_instance \<circ> sr_src) (filter (\<lambda>r. P r \<and> ms_instance (sr_src r) \<in> set xs) rs)"
  have a: "set a = {ms_instance (sr_src r) |r. r \<in> set rs \<and> P r \<and> ms_instance (sr_src r) \<in> set xs}"
    by (auto simp: a_def)
  obtain b where b: "order_sources xs rs P = a @ b" "set (a @ b) = set a \<union> set xs" "set b \<inter> set a = {}"
    using fold_append_missing [of xs a] by (auto simp: order_sources_def a_def)
  have "set a \<subseteq> set xs" using a by auto
  with b a show thesis by (intro that) auto
qed

lemma view_features_set:
  "set (vw_features (merge_results rs now)) =
     finish_feature rs (fold merge_result rs merge_init) ` set (mg_features (fold merge_result rs merge_init))"
  by (simp add: merge_results_def Let_def case_prod_unfold)

lemma finish_feature_simps:
  "feature_key (finish_feature rs st (k, f)) = feature_key f"
  "ft_certified (finish_feature rs st (k, f)) = ft_certified f"
  "released (finish_feature rs st (k, f)) = released f"
  "ft_demo (finish_feature rs st (k, f)) = (ft_certified f \<and> k \<in> set (mg_by_demo st) \<and> k \<notin> set (mg_by_real st))"
  "ft_sources (finish_feature rs st (k, f)) =
     (if ft_certified f then order_sources (ft_sources f) rs (certifies k) else ft_sources f)"
  by (simp_all add: finish_feature_def Let_def feature_key_def released_def)

text \<open>An entry of the view, from its entry in the table.\<close>

lemma view_feature:
  assumes "e \<in> set (vw_features (merge_results rs now))"
  obtains f where "entry_ok (reports rs) (feature_key e) f" and "feature_key f = feature_key e"
    and "e = finish_feature rs (fold merge_result rs merge_init) (feature_key e, f)"
proof -
  let ?st = "fold merge_result rs merge_init"
  obtain k f where kf: "(k, f) \<in> set (mg_features ?st)" "e = finish_feature rs ?st (k, f)"
    using assms unfolding view_features_set by auto
  have "gm_get (mg_features ?st) k = Some f"
    using kf(1) merged_table_ok [of rs] by (simp add: entries_ok_def)
  then have "entry_ok (reports rs) k f" using merged_table_ok [of rs] by (simp add: entries_ok_def)
  moreover from this have "feature_key f = k" by (simp add: entry_ok_def)
  ultimately show thesis
    using that [of f] kf(2) finish_feature_simps(1) [of rs ?st k f] by simp
qed

lemma reporters_reports:
  "set (reporters (reports rs) k) = {ms_instance (sr_src r) |r. r \<in> set rs \<and> (\<exists>f \<in> set (sr_features r). feature_key f = k)}"
  by (fastforce simp: reporters_def reports_def image_iff)

lemma reports_set: "p \<in> set (reports rs) \<longleftrightarrow> (\<exists>r \<in> set rs. \<exists>f \<in> set (sr_features r). p = (ms_instance (sr_src r), f))"
  by (auto simp: reports_def)


text \<open>For the witnesses: two instances that report the same scenario, one of them a demo cluster.\<close>

definition sample_source :: "string \<Rightarrow> bool \<Rightarrow> mcp_source" where
  "sample_source name demo =
     \<lparr>ms_instance = name, ms_endpoint = ''http://'' @ name @ ''/mcp'', ms_origin = ''mdns'', ms_role = [],
      ms_trust_rung = 0, ms_state = Served, ms_tools = 3, ms_served = [], ms_rung = 2, ms_demo = demo, ms_error = [],
      ms_fetched = 1\<rparr>"

definition sample_feature :: "bool \<Rightarrow> feature" where
  "sample_feature certified =
     \<lparr>ft_file = ''a.feature'', ft_scenario = ''s'', ft_certified = certified, ft_isotope = [], ft_transit = [],
      ft_member = [], ft_stale = False, ft_demo = False, ft_sources = []\<rparr>"

definition sample_results :: "source_result list" where
  "sample_results =
     [\<lparr>sr_src = sample_source ''a'' False, sr_features = [sample_feature False], sr_skills = [], sr_members = [], sr_unverified = 0\<rparr>,
      \<lparr>sr_src = sample_source ''b'' True, sr_features = [sample_feature True], sr_skills = [], sr_members = [], sr_unverified = 0\<rparr>]"

definition sample_entry :: feature where
  "sample_entry = hd (vw_features (merge_results sample_results 1))"

lemma sample_entry_in: "sample_entry \<in> set (vw_features (merge_results sample_results 1))"
proof -
  have "vw_features (merge_results sample_results 1) \<noteq> []" by code_simp
  then show ?thesis unfolding sample_entry_def by (rule hd_in_set)
qed

lemma sample_entry_certified:
  "(\<exists>r \<in> set sample_results. certifies (feature_key sample_entry) r)
   \<and> (\<forall>r \<in> set sample_results. certifies (feature_key sample_entry) r \<longrightarrow> ms_demo (sr_src r))"
  by code_simp


text \<open>The view is an exact roll-up: it has one entry per reported key, in order; its rung is the
  highest any source evidenced; its status is the best state of any source, with no served source
  hidden; and the summary counts its own entries.\<close>

theorem merge_view_rollup:
  "(case merge_results rs now of v \<Rightarrow>
      distinct (map feature_key (vw_features v))
      \<and> set (map feature_key (vw_features v)) = {feature_key f |r f. r \<in> set rs \<and> f \<in> set (sr_features r)}
      \<and> sorted_wrt (\<lambda>a b. \<not> feature_less b a) (vw_features v)
      \<and> vw_rung v = Max (insert 0 (set (map (ms_rung \<circ> sr_src) rs)))
      \<and> vw_sources v = map sr_src rs
      \<and> vw_status v =
          (if list_ex (\<lambda>r. ms_state (sr_src r) = Served) rs then View_served
           else if list_ex (\<lambda>r. ms_state (sr_src r) = Declared_absent) rs then View_declared_absent
           else View_unreachable)
      \<and> su_total (vw_summary v) = length (vw_features v)
      \<and> su_certified (vw_summary v) = length (filter ft_certified (vw_features v)))"
proof -
  let ?st = "fold merge_result rs merge_init" and ?v = "merge_results rs now"
  have fs: "vw_features ?v = sort_slice feature_less (map (finish_feature rs ?st) (mg_features ?st))"
    by (simp add: merge_results_def Let_def case_prod_unfold)
  have tab: "entries_ok (reports rs) (mg_features ?st)" by (rule merged_table_ok)
  have "feature_key f = k" if "(k, f) \<in> set (mg_features ?st)" for k f
    using that tab by (auto simp: entries_ok_def entry_ok_def)
  then have keys: "map (feature_key \<circ> finish_feature rs ?st) (mg_features ?st) = map fst (mg_features ?st)"
    using finish_feature_simps(1) by (intro map_cong) auto
  have dist: "distinct (map feature_key (vw_features ?v))"
    using tab by (simp add: fs keys entries_ok_def)
  have "set (map feature_key (vw_features ?v)) = set (map (feature_key \<circ> finish_feature rs ?st) (mg_features ?st))"
    by (simp add: fs image_image)
  also have "\<dots> = feature_key ` snd ` set (reports rs)"
    unfolding keys using tab by (simp add: entries_ok_def)
  also have "\<dots> = {feature_key f |r f. r \<in> set rs \<and> f \<in> set (sr_features r)}"
    by (force simp: reports_set image_iff)
  finally have set: "set (map feature_key (vw_features ?v)) = {feature_key f |r f. r \<in> set rs \<and> f \<in> set (sr_features r)}" .
  have rung: "fold (\<lambda>r. max (ms_rung (sr_src r))) rs 0 = Max (insert 0 (set (map (ms_rung \<circ> sr_src) rs)))"
    using Max.set_eq_fold [of 0 "map (ms_rung \<circ> sr_src) rs"] by (simp add: fold_map o_def)
  have status: "0 < length (filter P rs) \<longleftrightarrow> list_ex P rs" for P
    by (auto simp: list_ex_iff filter_empty_conv)
  have "sorted_wrt (\<lambda>a b. \<not> feature_less b a) (vw_features ?v)"
    unfolding fs by (rule feature_ord.sorted_slice)
  moreover have "vw_rung ?v = Max (insert 0 (set (map (ms_rung \<circ> sr_src) rs)))"
    unfolding rung [symmetric] by (simp add: merge_results_def Let_def case_prod_unfold merge_scalars merge_init_def)
  moreover have "vw_sources ?v = map sr_src rs"
    by (simp add: merge_results_def Let_def case_prod_unfold merge_scalars merge_init_def)
  moreover have "vw_status ?v = (if list_ex (\<lambda>r. ms_state (sr_src r) = Served) rs then View_served
       else if list_ex (\<lambda>r. ms_state (sr_src r) = Declared_absent) rs then View_declared_absent else View_unreachable)"
    unfolding status [symmetric] by (simp add: merge_results_def Let_def case_prod_unfold merge_scalars merge_init_def)
  moreover have "su_total (vw_summary ?v) = length (vw_features ?v)"
    "su_certified (vw_summary ?v) = length (filter ft_certified (vw_features ?v))"
    by (simp_all add: merge_results_def Let_def case_prod_unfold summarize_def)
  ultimately show ?thesis using dist set by simp
qed

section \<open>Skills and members\<close>

text \<open>
  The other two tables merge entry by entry as well. An observation that a merge can only raise
  (the entry has it when the old one or the new report has it) holds of a merged entry exactly
  when some report has it.
\<close>

locale entry_merge =
  fixes key :: "'a \<Rightarrow> 'k"
    and step :: "'i \<Rightarrow> 'a \<Rightarrow> ('k, 'a) gomap \<Rightarrow> ('k, 'a) gomap"
    and seen :: "'a \<Rightarrow> bool"
  assumes step: "\<exists>e. step i x m = gm_put (key x) e m \<and>
      seen e = (seen x \<or> (\<exists>old. gm_get m (key x) = Some old \<and> seen old))"
begin

lemma fold_seen:
  "gm_get (fold (\<lambda>(i, x). step i x) ps m) k = Some e \<Longrightarrow>
   seen e = ((\<exists>p \<in> set ps. key (snd p) = k \<and> seen (snd p)) \<or> (\<exists>old. gm_get m k = Some old \<and> seen old))"
proof (induction ps arbitrary: m)
  case (Cons p ps)
  obtain i x where p: "p = (i, x)" by (cases p)
  obtain e' where e': "step i x m = gm_put (key x) e' m"
    "seen e' = (seen x \<or> (\<exists>old. gm_get m (key x) = Some old \<and> seen old))"
    using step by blast
  have "seen e = ((\<exists>p \<in> set ps. key (snd p) = k \<and> seen (snd p))
      \<or> (\<exists>old. gm_get (step i x m) k = Some old \<and> seen old))"
    using Cons p by simp
  then show ?case
    by (cases "k = key x") (auto simp: e' p)
qed simp

lemma seen_iff_reported:
  "gm_get (fold (\<lambda>(i, x). step i x) ps []) k = Some e \<Longrightarrow> seen e = (\<exists>p \<in> set ps. key (snd p) = k \<and> seen (snd p))"
  by (simp add: fold_seen)

lemma fold_keys:
  "fst ` set (fold (\<lambda>(i, x). step i x) ps m) = fst ` set m \<union> key ` snd ` set ps"
proof (induction ps arbitrary: m)
  case (Cons p ps)
  obtain i x where p: "p = (i, x)" by (cases p)
  obtain e' where "step i x m = gm_put (key x) e' m" using step by blast
  then show ?case by (simp add: Cons p dom_update)
qed simp

lemma fold_wf: "gm_wf m \<Longrightarrow> gm_wf (fold (\<lambda>(i, x). step i x) ps m)"
proof (induction ps arbitrary: m)
  case (Cons p ps)
  obtain i x where p: "p = (i, x)" by (cases p)
  obtain e' where "step i x m = gm_put (key x) e' m" using step by blast
  with Cons show ?case by (simp add: p distinct_update)
qed simp

end

lemma join_member_simps:
  "mb_mode (join_member i x old) =
     (if is_demo_mode (mb_mode x) then ''demo'' else if mb_mode old = [] then mb_mode x else mb_mode old)"
  "mb_name (join_member i x old) = mb_name old"
  by (simp_all add: join_member_def Let_def)

lemma join_skill_simps:
  "sk_rung (join_skill i x old) = max (sk_rung old) (sk_rung x)"
  "sk_name (join_skill i x old) = (if sk_rung x > sk_rung old then sk_name x else sk_name old)"
  by (simp_all add: join_skill_def Let_def)

lemma demo_mode_simps [simp]: "is_demo_mode ''demo''" "\<not> is_demo_mode []"
  by (simp_all add: is_demo_mode_def equal_fold_def to_lower_def)

interpretation member_demo: entry_merge mb_name merge_member "\<lambda>b. is_demo_mode (mb_mode b)"
proof (unfold_locales, goal_cases)
  case (1 i x m)
  show ?case
    unfolding merge_member_def
    by (rule exI, rule conjI, rule refl) (auto simp: join_member_simps split: option.split)
qed

interpretation skill_at: entry_merge sk_name merge_skill "\<lambda>s. n \<le> sk_rung s" for n
proof (unfold_locales, goal_cases)
  case (1 i x m)
  show ?case
    unfolding merge_skill_def
    by (rule exI, rule conjI, rule refl) (auto simp: join_skill_simps split: option.split)
qed

lemma merge_members_reports:
  "mg_members (fold merge_result rs st) = fold (\<lambda>(i, b). merge_member i b)
     (concat (map (\<lambda>r. map (Pair (ms_instance (sr_src r))) (sr_members r)) rs)) (mg_members st)"
  by (induction rs arbitrary: st) (simp_all add: fold_map o_def)

lemma merge_skills_reports:
  "mg_skills (fold merge_result rs st) = fold (\<lambda>(i, s). merge_skill i s)
     (concat (map (\<lambda>r. map (Pair (ms_instance (sr_src r))) (sr_skills r)) rs)) (mg_skills st)"
  by (induction rs arbitrary: st) (simp_all add: fold_map o_def)

definition skill_reports :: "source_result list \<Rightarrow> (string \<times> skill) list" where
  "skill_reports rs = concat (map (\<lambda>r. map (Pair (ms_instance (sr_src r))) (sr_skills r)) rs)"

definition member_reports :: "source_result list \<Rightarrow> (string \<times> cluster_member) list" where
  "member_reports rs = concat (map (\<lambda>r. map (Pair (ms_instance (sr_src r))) (sr_members r)) rs)"

lemma skill_key:
  "gm_get (fold (\<lambda>(i, s). merge_skill i s) ps m) k = Some e \<Longrightarrow> \<forall>k e. gm_get m k = Some e \<longrightarrow> sk_name e = k \<Longrightarrow> sk_name e = k"
proof (induction ps arbitrary: m)
  case (Cons p ps)
  obtain i x where p: "p = (i, x)" by (cases p)
  have "\<forall>k e. gm_get (merge_skill i x m) k = Some e \<longrightarrow> sk_name e = k"
    using Cons.prems(2) by (auto simp: merge_skill_def join_skill_simps split: option.split)
  with Cons p show ?case by simp
qed simp

lemma member_key:
  "gm_get (fold (\<lambda>(i, b). merge_member i b) ps m) k = Some e \<Longrightarrow> \<forall>k e. gm_get m k = Some e \<longrightarrow> mb_name e = k \<Longrightarrow> mb_name e = k"
proof (induction ps arbitrary: m)
  case (Cons p ps)
  obtain i x where p: "p = (i, x)" by (cases p)
  have "\<forall>k e. gm_get (merge_member i x m) k = Some e \<longrightarrow> mb_name e = k"
    using Cons.prems(2) by (auto simp: merge_member_def join_member_simps split: option.split)
  with Cons p show ?case by simp
qed simp

lemma view_skill:
  assumes "s \<in> set (vw_skills (merge_results rs now))"
  shows "gm_get (fold (\<lambda>(i, x). merge_skill i x) (skill_reports rs) []) (sk_name s) = Some s"
proof -
  let ?m = "fold (\<lambda>(i, x). merge_skill i x) (skill_reports rs) []"
  have "vw_skills (merge_results rs now) = sort_slice skill_less (map snd ?m)"
    by (simp add: merge_results_def Let_def case_prod_unfold merge_skills_reports merge_init_def skill_reports_def)
  then obtain k where "(k, s) \<in> set ?m" using assms by auto
  then have get: "gm_get ?m k = Some s" using skill_at.fold_wf [of "[]" "skill_reports rs"] by simp
  with skill_key [OF get] show ?thesis by simp
qed

lemma view_member:
  assumes "b \<in> set (vw_members (merge_results rs now))"
  shows "gm_get (fold (\<lambda>(i, x). merge_member i x) (member_reports rs) []) (mb_name b) = Some b"
proof -
  let ?m = "fold (\<lambda>(i, x). merge_member i x) (member_reports rs) []"
  have "vw_members (merge_results rs now) = sort_slice member_less (map snd ?m)"
    by (simp add: merge_results_def Let_def case_prod_unfold merge_members_reports merge_init_def member_reports_def)
  then obtain k where "(k, b) \<in> set ?m" using assms by auto
  then have get: "gm_get ?m k = Some b" using member_demo.fold_wf [of "[]" "member_reports rs"] by simp
  with member_key [OF get] show ?thesis by simp
qed

text \<open>Skills carry the highest rung any source certified for them, and a cluster member is
  shown as demo exactly when some source reported it as demo: a real report does not launder a
  demo one, in whichever order they arrive.\<close>

theorem merge_skills_members:
  "list_all (\<lambda>s. list_ex (\<lambda>p. sk_name (snd p) = sk_name s \<and> sk_rung (snd p) = sk_rung s) (skill_reports rs)
        \<and> list_all (\<lambda>p. sk_name (snd p) = sk_name s \<longrightarrow> sk_rung (snd p) \<le> sk_rung s) (skill_reports rs))
      (vw_skills (merge_results rs now))
   \<and> list_all (\<lambda>b. is_demo_mode (mb_mode b) =
        list_ex (\<lambda>p. mb_name (snd p) = mb_name b \<and> is_demo_mode (mb_mode (snd p))) (member_reports rs))
      (vw_members (merge_results rs now))"
proof (intro conjI)
  have "(\<exists>p \<in> set (skill_reports rs). sk_name (snd p) = sk_name s \<and> sk_rung (snd p) = sk_rung s)
      \<and> (\<forall>p \<in> set (skill_reports rs). sk_name (snd p) = sk_name s \<longrightarrow> sk_rung (snd p) \<le> sk_rung s)"
    if "s \<in> set (vw_skills (merge_results rs now))" for s
  proof -
    have at: "(n \<le> sk_rung s) = (\<exists>p \<in> set (skill_reports rs). sk_name (snd p) = sk_name s \<and> n \<le> sk_rung (snd p))" for n
      by (rule skill_at.seen_iff_reported [OF view_skill [OF that]])
    then obtain p where "p \<in> set (skill_reports rs)" "sk_name (snd p) = sk_name s" "sk_rung s \<le> sk_rung (snd p)"
      by blast
    moreover have "sk_rung (snd q) \<le> sk_rung s" if "q \<in> set (skill_reports rs)" "sk_name (snd q) = sk_name s" for q
      using at that by blast
    ultimately show ?thesis by (meson antisym)
  qed
  then show "list_all (\<lambda>s. list_ex (\<lambda>p. sk_name (snd p) = sk_name s \<and> sk_rung (snd p) = sk_rung s) (skill_reports rs)
        \<and> list_all (\<lambda>p. sk_name (snd p) = sk_name s \<longrightarrow> sk_rung (snd p) \<le> sk_rung s) (skill_reports rs))
      (vw_skills (merge_results rs now))"
    by (simp add: list_all_iff list_ex_iff)
  show "list_all (\<lambda>b. is_demo_mode (mb_mode b) =
        list_ex (\<lambda>p. mb_name (snd p) = mb_name b \<and> is_demo_mode (mb_mode (snd p))) (member_reports rs))
      (vw_members (merge_results rs now))"
    using member_demo.seen_iff_reported [OF view_member] by (simp add: list_all_iff list_ex_iff)
qed

definition sample_skill :: "int \<Rightarrow> int \<Rightarrow> skill" where
  "sample_skill rung failures =
     \<lparr>sk_name = ''k'', sk_rung = rung, sk_distance = Some failures, sk_host = [], sk_binding = [],
      sk_failures = Some failures, sk_sources = []\<rparr>"

theorem merge_skills_members_witness:
  "list_all (\<lambda>s. list_all (\<lambda>p. sk_name (snd p) = sk_name s \<longrightarrow> sk_rung (snd p) \<le> sk_rung s)
      (skill_reports [(hd sample_results)\<lparr>sr_skills := [sample_skill 1 9]\<rparr>]))
    (vw_skills (merge_results [(hd sample_results)\<lparr>sr_skills := [sample_skill 1 9]\<rparr>] 1))"
  using merge_skills_members [of "[(hd sample_results)\<lparr>sr_skills := [sample_skill 1 9]\<rparr>]" 1]
  by (simp add: list_all_iff)

text \<open>The worst figures can be lost: when the source with the higher rung comes second, its
  entry replaces the merged one whole, so the failure count shown is its own and not the worst
  any source reported, and the summary's distance follows it.\<close>

theorem worst_failures_lost:
  "(case merge_results [(sample_results ! 0)\<lparr>sr_skills := [sample_skill 1 9]\<rparr>,
                        (sample_results ! 1)\<lparr>sr_skills := [sample_skill 2 0]\<rparr>] now of v \<Rightarrow>
      map sk_failures (vw_skills v) = [Some 0] \<and> su_distance (vw_summary v) = Some 0)"
  by (simp add: merge_results_def merge_skills_reports merge_init_def sample_results_def sample_skill_def
      merge_skill_def join_skill_def opt_greater_def summarize_def append_unique_def sample_source_def Let_def case_prod_unfold)

end
