(* ===== verification/FeatureBrowser.thy ===== *)
theory FeatureBrowser
  imports FeatureMerge Mcp Cache Config
begin

text \<open>
  Package \<open>internal/featurebrowser\<close>, second half: what is asked of one adhd instance and what its
  answers evidence, the cached view, live verification, and where sources come from. The network
  is a function from an endpoint and a request to the reply; \<open>encoding/json\<close> and \<open>net/url\<close> are
  arguments.
\<close>

section \<open>Answers\<close>

definition tool_features_certified :: string where "tool_features_certified = ''adhd.features.certified''"
definition tool_features_verify :: string where "tool_features_verify = ''adhd.features.verify''"
definition tool_features_cluster :: string where "tool_features_cluster = ''adhd.features.cluster''"
definition tool_skills_certified :: string where "tool_skills_certified = ''adhd.skills.certified''"

definition contract_tools :: "string list" where
  "contract_tools = [tool_features_certified, tool_skills_certified, tool_features_cluster]"

record envelope =
  ev_caller_rung :: "int option"
  ev_rung :: "int option"
  ev_mode :: string
  ev_note :: string
  ev_unverified :: int
  ev_demo :: bool

text \<open>
  The decoders. An envelope is decoded as far as it goes, with a flag that all of it did; an
  array and an object decode to raw texts.
\<close>

record feature_codec =
  fc_envelope :: "string \<Rightarrow> bool \<times> envelope"
  fc_array :: "string \<Rightarrow> string list option"
  fc_object :: "string \<Rightarrow> (string \<rightharpoonup> string) option"
  fc_feature :: "string \<Rightarrow> feature option"
  fc_skill :: "string \<Rightarrow> skill option"
  fc_member :: "string \<Rightarrow> cluster_member option"
  fc_verify :: "string \<Rightarrow> string + (bool \<times> string \<times> string \<times> string)"

definition decode_envelope :: "feature_codec \<Rightarrow> string \<Rightarrow> envelope" where
  "decode_envelope fc raw =
     (case fc_envelope fc raw of (ok, env) \<Rightarrow>
        let env = env\<lparr>ev_demo := False\<rparr> in
        if ok \<and> (str_contains (to_lower (ev_note env)) ''plaintext'' \<or> equal_fold (ev_mode env) ''demo'')
        then env\<lparr>ev_demo := True\<rparr> else env)"

definition rung_evidence :: "envelope \<Rightarrow> int \<Rightarrow> int" where
  "rung_evidence e inferred =
     (let rung = (case ev_caller_rung e of Some r \<Rightarrow> max inferred r | None \<Rightarrow> inferred)
      in case ev_rung e of Some r \<Rightarrow> max rung r | None \<Rightarrow> rung)"

fun first_array :: "feature_codec \<Rightarrow> (string \<rightharpoonup> string) \<Rightarrow> string list \<Rightarrow> string list" where
  "first_array fc obj [] = []"
| "first_array fc obj (k # ks) =
     (case obj k of
        None \<Rightarrow> first_array fc obj ks
      | Some candidate \<Rightarrow> (case fc_array fc candidate of Some arr \<Rightarrow> arr | None \<Rightarrow> first_array fc obj ks))"

definition entries_of :: "feature_codec \<Rightarrow> string \<Rightarrow> string list \<Rightarrow> string list" where
  "entries_of fc raw keys =
     (let trimmed = trim_space raw;
          from_object = (case fc_object fc trimmed of None \<Rightarrow> [] | Some obj \<Rightarrow> first_array fc obj keys)
      in if trimmed \<noteq> [] \<and> hd trimmed = CHR ''['' then
           (case fc_array fc trimmed of Some arr \<Rightarrow> arr | None \<Rightarrow> from_object)
         else from_object)"

definition decode_features :: "feature_codec \<Rightarrow> string \<Rightarrow> feature list" where
  "decode_features fc raw =
     filter (\<lambda>f. ft_file f \<noteq> [] \<or> ft_scenario f \<noteq> [])
       (List.map_filter (fc_feature fc) (entries_of fc raw [''features'', ''entries'', ''items'']))"

definition decode_skills :: "feature_codec \<Rightarrow> string \<Rightarrow> skill list" where
  "decode_skills fc raw =
     filter (\<lambda>s. sk_name s \<noteq> [])
       (List.map_filter (fc_skill fc) (entries_of fc raw [''skills'', ''entries'', ''items'']))"

definition decode_members :: "feature_codec \<Rightarrow> string \<Rightarrow> cluster_member list" where
  "decode_members fc raw =
     filter (\<lambda>b. mb_name b \<noteq> [])
       (List.map_filter (fc_member fc) (entries_of fc raw [''members'', ''cluster'', ''entries'', ''items'']))"

definition feature_rung_evidence :: "feature list \<Rightarrow> int" where
  "feature_rung_evidence fs =
     fold (\<lambda>f rung.
       let rung = (if ft_member f \<noteq> [] then max rung 3 else rung)
       in if ft_isotope f \<noteq> [] \<or> ft_transit f \<noteq> [] then max rung 2 else rung) fs 0"

definition skill_rung_evidence :: "skill list \<Rightarrow> int" where
  "skill_rung_evidence ss =
     fold (\<lambda>s rung.
       let rung = (if sk_binding s \<noteq> [] then max rung 3 else rung)
       in if sk_distance s \<noteq> None \<or> sk_host s \<noteq> [] then max rung 2 else rung) ss 0"

definition member_rung_evidence :: "cluster_member list \<Rightarrow> int" where
  "member_rung_evidence bs =
     fold (\<lambda>b rung. if mb_rung b \<noteq> None \<or> mb_count b \<noteq> None then max rung 2 else rung) bs 0"

section \<open>Refusals\<close>

text \<open>The leftmost match of \<open>have (\d+)\<close>.\<close>

fun refusal_digits :: "string \<Rightarrow> string option" where
  "refusal_digits [] = None"
| "refusal_digits (c # s) =
     (if prefix ''have '' (c # s) \<and> takeWhile is_digit (drop 5 (c # s)) \<noteq> []
      then Some (takeWhile is_digit (drop 5 (c # s)))
      else refusal_digits s)"

definition rung_from_refusal :: "string \<Rightarrow> int option" where
  "rung_from_refusal message = Option.bind (refusal_digits message) atoi"

definition append_detail :: "string \<Rightarrow> string \<Rightarrow> string" where
  "append_detail err detail = (if err = [] then detail else err @ ''; '' @ detail)"

text \<open>How an error reads (\<open>%v\<close>) is an argument.\<close>

definition record_call_failure :: "(mcp_error \<Rightarrow> string) \<Rightarrow> string \<Rightarrow> mcp_error \<Rightarrow> mcp_source \<Rightarrow> mcp_source" where
  "record_call_failure text tool e s =
     (case e of
        Rpc re \<Rightarrow>
          let s = (case rung_from_refusal (re_message re) of
                     Some r \<Rightarrow> if r > ms_rung s then s\<lparr>ms_rung := r\<rparr> else s
                   | None \<Rightarrow> s)
          in s\<lparr>ms_error := append_detail (ms_error s) (tool @ '' refused: '' @ re_message re)\<rparr>
      | _ \<Rightarrow> s\<lparr>ms_error := append_detail (ms_error s) (tool @ '': '' @ text e)\<rparr>)"

section \<open>One source\<close>

record fetch_env =
  fv_codec :: mcp_codec
  fv_json :: feature_codec
  fv_net :: "string \<Rightarrow> endpoint_fun"
  fv_error_text :: "mcp_error \<Rightarrow> string"
  fv_version :: string
  fv_identity :: "string option"

definition browser_identity :: "fetch_env \<Rightarrow> string" where
  "browser_identity env =
     (case fv_identity env of
        Some i \<Rightarrow> if trim_space i \<noteq> [] then trim_space i else ''tuner''
      | None \<Rightarrow> ''tuner'')"

definition client_for :: "fetch_env \<Rightarrow> mcp_source \<Rightarrow> mcp_client" where
  "client_for env src =
     new_client (ms_endpoint src)
       \<lparr>mo_name = [], mo_version = fv_version env, mo_instance = browser_identity env, mo_timeout = 0\<rparr>"

text \<open>
  One contract call: skipped unless served; a failure is recorded on the source, an answer is
  absorbed. The state is the client, the result so far and the rung so far.
\<close>

type_synonym fetch_state = "mcp_client \<times> source_result \<times> int"

definition contract_call :: "fetch_env \<Rightarrow> string \<Rightarrow> (string \<Rightarrow> source_result \<times> int \<Rightarrow> source_result \<times> int) \<Rightarrow>
    fetch_state \<Rightarrow> fetch_state" where
  "contract_call env tool absorb st =
     (case st of (c, r, rung) \<Rightarrow>
        if tool \<notin> set (ms_served (sr_src r)) then st
        else (case call_tool (fv_codec env) (fv_net env (mc_endpoint c)) tool [] c of
                (c', Inl e) \<Rightarrow>
                  (c', r\<lparr>sr_src := record_call_failure (fv_error_text env) tool e (sr_src r)\<rparr>, rung)
              | (c', Inr raw) \<Rightarrow> (c', absorb raw (r, rung))))"

definition mark_demo :: "bool \<Rightarrow> source_result \<Rightarrow> source_result" where
  "mark_demo d r = r\<lparr>sr_src := (sr_src r)\<lparr>ms_demo := ms_demo (sr_src r) \<or> d\<rparr>\<rparr>"

definition absorb_features :: "fetch_env \<Rightarrow> string \<Rightarrow> source_result \<times> int \<Rightarrow> source_result \<times> int" where
  "absorb_features env raw st =
     (case st of (r, rung) \<Rightarrow>
        let e = decode_envelope (fv_json env) raw;
            fs = decode_features (fv_json env) raw
        in (mark_demo (ev_demo e) (r\<lparr>sr_features := fs\<rparr>), max rung (rung_evidence e (feature_rung_evidence fs))))"

definition absorb_skills :: "fetch_env \<Rightarrow> string \<Rightarrow> source_result \<times> int \<Rightarrow> source_result \<times> int" where
  "absorb_skills env raw st =
     (case st of (r, rung) \<Rightarrow>
        let e = decode_envelope (fv_json env) raw;
            ss = decode_skills (fv_json env) raw
        in (mark_demo (ev_demo e) (r\<lparr>sr_skills := ss, sr_unverified := ev_unverified e\<rparr>),
            max rung (rung_evidence e (skill_rung_evidence ss))))"

definition absorb_members :: "fetch_env \<Rightarrow> string \<Rightarrow> source_result \<times> int \<Rightarrow> source_result \<times> int" where
  "absorb_members env raw st =
     (case st of (r, rung) \<Rightarrow>
        let e = decode_envelope (fv_json env) raw;
            bs = decode_members (fv_json env) raw
        in (mark_demo (equal_fold (ev_mode e) ''demo'' \<or> ev_demo e
                       \<or> list_ex (\<lambda>b. equal_fold (mb_mode b) ''demo'') bs) (r\<lparr>sr_members := bs\<rparr>),
            max rung (rung_evidence e (member_rung_evidence bs))))"

definition empty_result :: "mcp_source \<Rightarrow> source_result" where
  "empty_result src = \<lparr>sr_src = src, sr_features = [], sr_skills = [], sr_members = [], sr_unverified = 0\<rparr>"

definition served_tools :: "string list \<Rightarrow> string list" where
  "served_tools tools =
     filter (\<lambda>t. t \<in> set tools) contract_tools
     @ (if tool_features_verify \<in> set tools then [tool_features_verify] else [])"

definition not_served_text :: "nat \<Rightarrow> string" where
  "not_served_text n =
     str_join '', '' contract_tools @ '' not in tools/list ('' @ show_nat n @ '' tools served)''"

definition run_contract :: "fetch_env \<Rightarrow> fetch_state \<Rightarrow> fetch_state" where
  "run_contract env st =
     contract_call env tool_features_cluster (absorb_members env)
       (contract_call env tool_skills_certified (absorb_skills env)
         (contract_call env tool_features_certified (absorb_features env) st))"

definition fetch_source :: "fetch_env \<Rightarrow> time \<Rightarrow> mcp_source \<Rightarrow> mcp_client \<times> source_result" where
  "fetch_source env now src =
     (let src = src\<lparr>ms_fetched := now\<rparr>;
          c = client_for env src;
          dc = fv_codec env; ep = fv_net env (mc_endpoint c)
      in case initialize dc ep c of
           (c, Inl e) \<Rightarrow> (c, empty_result (src\<lparr>ms_state := Unreachable, ms_error := fv_error_text env e\<rparr>))
         | (c, Inr _) \<Rightarrow>
             (case list_tools dc ep c of
                (c, Inl e) \<Rightarrow> (c, empty_result (src\<lparr>ms_state := Unreachable, ms_error := fv_error_text env e\<rparr>))
              | (c, Inr tools) \<Rightarrow>
                  let src = src\<lparr>ms_tools := length tools, ms_served := ms_served src @ served_tools tools\<rparr>
                  in if ms_served src = [] then
                       (c, empty_result (src\<lparr>ms_state := Declared_absent, ms_error := not_served_text (length tools)\<rparr>))
                     else
                       (case run_contract env (c, empty_result (src\<lparr>ms_state := Served\<rparr>), 0) of
                          (c, r, rung) \<Rightarrow>
                            let r = mark_demo (list_ex ft_stale (sr_features r)) r
                            in (c, r\<lparr>sr_src := (sr_src r)\<lparr>ms_rung := rung\<rparr>\<rparr>))))"

section \<open>The cached view\<close>

record feature_browser =
  br_refresh :: duration
  br_cached :: "view option"

definition default_feature_refresh :: duration where "default_feature_refresh = 30 * second"

definition new_feature_browser :: "duration \<Rightarrow> feature_browser" where
  "new_feature_browser refresh =
     \<lparr>br_refresh = (if refresh \<le> 0 then default_feature_refresh else refresh), br_cached = None\<rparr>"

definition no_sources_view :: "time \<Rightarrow> view" where
  "no_sources_view now =
     \<lparr>vw_status = View_no_sources, vw_rung = 0, vw_demo = False,
      vw_note = ''no adhd instances: mDNS discovery found none and no fallback endpoint is configured (feature_browser.endpoints)'',
      vw_summary = \<lparr>su_certified = 0, su_total = 0, su_deterministic = 0, su_skills = 0, su_distance = None\<rparr>,
      vw_features = [], vw_skills = [], vw_members = [], vw_unverified = 0, vw_sources = [], vw_fetched = now\<rparr>"

text \<open>
  \<open>fetch\<close>: the sources are called concurrently, each with a client of its own, and their answers
  land in the slots of their sources; \<open>stamps\<close> are the clock readings of the calls.
\<close>

definition fetch_view :: "fetch_env \<Rightarrow> time \<Rightarrow> (mcp_source \<Rightarrow> time) \<Rightarrow> mcp_source list \<Rightarrow> view" where
  "fetch_view env now stamps sources =
     (if sources = [] then no_sources_view now
      else merge_results (map (\<lambda>s. snd (fetch_source env (stamps s) s)) sources) now)"

text \<open>
  \<open>View\<close>: the age of the cached view counts from its own \<open>Fetched\<close>, the start of its fetch. A
  fetch never fails, so the error side of the answer is not used.
\<close>

definition view_get :: "time \<Rightarrow> time \<Rightarrow> (unit + view) \<Rightarrow> feature_browser \<Rightarrow> feature_browser \<times> (unit + view)" where
  "view_get now finish r b =
     (let fetch = (case r of Inl e \<Rightarrow> (b, Inl e) | Inr v \<Rightarrow> (b\<lparr>br_cached := Some v\<rparr>, Inr v))
      in case br_cached b of
           Some v \<Rightarrow> if time_sub now (vw_fetched v) < br_refresh b then (b, Inr v) else fetch
         | None \<Rightarrow> fetch)"

interpretation views: ttl_cache view_get "\<lambda>b. map_option (\<lambda>v. (v, vw_fetched v)) (br_cached b)" br_refresh
  "\<lambda>_ v. vw_fetched v" "\<lambda>_. True"
proof (unfold_locales, goal_cases)
  case (2 s now finish w)
  then show ?case by (cases "br_cached s") (auto simp: view_get_def Let_def not_less)
qed (auto simp: view_get_def Let_def not_less split: option.splits)

section \<open>Live verification\<close>

datatype verify_error =
    No_instances
  | Verify_not_served
  | Advance_to_rung_3 int
  | Assigned_rung int
  | Verify_refused string
  | Verify_failed mcp_error
  | Bad_verify_result string

record verify_result =
  vr_feature :: string
  vr_still :: bool
  vr_state :: string
  vr_isotope :: string
  vr_probe_time :: string
  vr_note :: string
  vr_source :: string

definition best_verifier :: "mcp_source list \<Rightarrow> mcp_source option" where
  "best_verifier sources =
     fold (\<lambda>s best.
       if tool_features_verify \<notin> set (ms_served s) then best
       else (case best of None \<Rightarrow> Some s | Some b \<Rightarrow> if ms_rung s > ms_rung b then Some s else best))
       sources None"

definition verify_state :: "bool \<Rightarrow> string \<Rightarrow> string" where
  "verify_state still note =
     (if still then ''still certified''
      else if str_contains (to_lower note) ''rotated'' then ''isotope rotated''
      else ''certification lapsed'')"

text \<open>\<open>Verify\<close> on the current view: the requests it sends, and its outcome.\<close>

definition verify :: "fetch_env \<Rightarrow> view \<Rightarrow> string \<Rightarrow> mcp_request list \<times> (verify_error + verify_result)" where
  "verify env v feature =
     (if vw_status v = View_no_sources then ([], Inl No_instances)
      else case best_verifier (vw_sources v) of
        None \<Rightarrow> ([], Inl Verify_not_served)
      | Some best \<Rightarrow>
          if vw_rung v < 3 then ([], Inl (Advance_to_rung_3 (vw_rung v)))
          else (case call_tool (fv_codec env) (fv_net env (ms_endpoint best)) tool_features_verify
                       [(''feature'', feature)] (client_for env best) of
             (c, Inl (Rpc e)) \<Rightarrow>
               (mc_sent c,
                Inl (if re_code e = - 32003 then
                       (case rung_from_refusal (re_message e) of
                          Some r \<Rightarrow> Assigned_rung r | None \<Rightarrow> Verify_refused (re_message e))
                     else Verify_failed (Rpc e)))
           | (c, Inl e) \<Rightarrow> (mc_sent c, Inl (Verify_failed e))
           | (c, Inr raw) \<Rightarrow>
               (mc_sent c,
                (case fc_verify (fv_json env) raw of
                   Inl e \<Rightarrow> Inl (Bad_verify_result e)
                 | Inr (still, isotope, probe, note) \<Rightarrow>
                     Inr \<lparr>vr_feature = feature, vr_still = still, vr_state = verify_state still note,
                          vr_isotope = isotope, vr_probe_time = probe, vr_note = note,
                          vr_source = ms_instance best\<rparr>))))"

section \<open>What is asked of a source\<close>

lemma record_call_failure_keeps [simp]:
  "ms_served (record_call_failure text tool e s) = ms_served s"
  "ms_state (record_call_failure text tool e s) = ms_state s"
  "ms_demo (record_call_failure text tool e s) = ms_demo s"
  "ms_instance (record_call_failure text tool e s) = ms_instance s"
  by (simp_all add: record_call_failure_def Let_def split: mcp_error.split option.split)

lemma mark_demo_simps [simp]:
  "ms_served (sr_src (mark_demo d r)) = ms_served (sr_src r)"
  "ms_state (sr_src (mark_demo d r)) = ms_state (sr_src r)"
  "ms_instance (sr_src (mark_demo d r)) = ms_instance (sr_src r)"
  "ms_demo (sr_src (mark_demo d r)) = (ms_demo (sr_src r) \<or> d)"
  "sr_features (mark_demo d r) = sr_features r"
  "sr_skills (mark_demo d r) = sr_skills r"
  "sr_members (mark_demo d r) = sr_members r"
  by (simp_all add: mark_demo_def)

definition asked :: "mcp_client \<Rightarrow> mcp_params list" where
  "asked c = map rq_params (mc_sent c)"

text \<open>What an absorbing step may not touch: the source's served tools, state and name.\<close>

definition keeps_source :: "(string \<Rightarrow> source_result \<times> int \<Rightarrow> source_result \<times> int) \<Rightarrow> bool" where
  "keeps_source absorb \<longleftrightarrow>
     (\<forall>raw r n. ms_served (sr_src (fst (absorb raw (r, n)))) = ms_served (sr_src r)
        \<and> ms_state (sr_src (fst (absorb raw (r, n)))) = ms_state (sr_src r)
        \<and> ms_instance (sr_src (fst (absorb raw (r, n)))) = ms_instance (sr_src r))"

lemma absorbs_keep_source:
  "keeps_source (absorb_features env)" "keeps_source (absorb_skills env)" "keeps_source (absorb_members env)"
  by (simp_all add: keeps_source_def absorb_features_def absorb_skills_def absorb_members_def Let_def)

lemma contract_call_step:
  assumes "contract_call env tool absorb (c, r, n) = (c', r', n')" and "keeps_source absorb"
  shows "asked c' = asked c @ (if tool \<in> set (ms_served (sr_src r)) then [Call_params tool []] else [])"
    and "ms_served (sr_src r') = ms_served (sr_src r)" and "ms_state (sr_src r') = ms_state (sr_src r)"
    and "ms_instance (sr_src r') = ms_instance (sr_src r)"
proof -
  obtain d res where call: "call_tool (fv_codec env) (fv_net env (mc_endpoint c)) tool [] c = (d, res)"
    by (cases "call_tool (fv_codec env) (fv_net env (mc_endpoint c)) tool [] c")
  have d: "asked d = asked c @ [Call_params tool []]"
    using call_tool_sent [of "fv_codec env" "fv_net env (mc_endpoint c)" tool "[]" c] call by (simp add: asked_def)
  show "asked c' = asked c @ (if tool \<in> set (ms_served (sr_src r)) then [Call_params tool []] else [])"
    using assms(1) call d by (auto simp: contract_call_def split: sum.splits if_splits)
  have k: "ms_served (sr_src (fst (absorb raw (r, n)))) = ms_served (sr_src r)"
    "ms_state (sr_src (fst (absorb raw (r, n)))) = ms_state (sr_src r)"
    "ms_instance (sr_src (fst (absorb raw (r, n)))) = ms_instance (sr_src r)" for raw
    using assms(2) by (simp_all add: keeps_source_def)
  have r': "r' \<in> {r, r\<lparr>sr_src := record_call_failure (fv_error_text env) tool (projl res) (sr_src r)\<rparr>,
      fst (absorb (projr res) (r, n))}"
    using assms(1) call by (auto simp: contract_call_def split: sum.splits if_splits dest: arg_cong [where f = fst])
  show "ms_served (sr_src r') = ms_served (sr_src r)" using r' k(1) by auto
  show "ms_state (sr_src r') = ms_state (sr_src r)" using r' k(2) by auto
  show "ms_instance (sr_src r') = ms_instance (sr_src r)" using r' k(3) by auto
qed

lemma run_contract_step:
  assumes "run_contract env (c, r, n) = (c', r', n')"
  shows "asked c' = asked c @ map (\<lambda>t. Call_params t []) (filter (\<lambda>t. t \<in> set (ms_served (sr_src r))) contract_tools)"
    and "ms_served (sr_src r') = ms_served (sr_src r)" and "ms_state (sr_src r') = ms_state (sr_src r)"
    and "ms_instance (sr_src r') = ms_instance (sr_src r)"
proof -
  obtain c1 r1 n1 where 1: "contract_call env tool_features_certified (absorb_features env) (c, r, n) = (c1, r1, n1)"
    by (cases "contract_call env tool_features_certified (absorb_features env) (c, r, n)")
  obtain c2 r2 n2 where 2: "contract_call env tool_skills_certified (absorb_skills env) (c1, r1, n1) = (c2, r2, n2)"
    by (cases "contract_call env tool_skills_certified (absorb_skills env) (c1, r1, n1)")
  have 3: "contract_call env tool_features_cluster (absorb_members env) (c2, r2, n2) = (c', r', n')"
    using assms by (simp add: run_contract_def 1 2)
  note steps = contract_call_step [OF 1 absorbs_keep_source(1)] contract_call_step [OF 2 absorbs_keep_source(2)]
    contract_call_step [OF 3 absorbs_keep_source(3)]
  show "asked c' = asked c @ map (\<lambda>t. Call_params t []) (filter (\<lambda>t. t \<in> set (ms_served (sr_src r))) contract_tools)"
    by (simp add: contract_tools_def steps)
  show "ms_served (sr_src r') = ms_served (sr_src r)" "ms_state (sr_src r') = ms_state (sr_src r)"
    "ms_instance (sr_src r') = ms_instance (sr_src r)"
    by (simp_all add: steps)
qed

text \<open>How the contract run starts: the handshake and the listing.\<close>

lemma client_for_simps:
  "mc_sent (client_for env src) = []"
  "mo_name (mc_opts (client_for env src)) = ''tuner''"
  "mo_version (mc_opts (client_for env src)) = fv_version env"
  "mo_instance (mc_opts (client_for env src)) = browser_identity env"
  "mc_endpoint (client_for env src) = ms_endpoint src"
  by (simp_all add: client_for_def new_client_def asked_def)

lemma browser_identity_nonempty: "browser_identity env \<noteq> []"
  by (simp add: browser_identity_def split: option.split)

text \<open>The three ways a fetch ends.\<close>

lemma fetch_source_cases:
  obtains (no_handshake) c e where
    "initialize (fv_codec env) (fv_net env (ms_endpoint src)) (client_for env src) = (c, Inl e)"
    "fetch_source env now src =
       (c, empty_result (src\<lparr>ms_fetched := now, ms_state := Unreachable, ms_error := fv_error_text env e\<rparr>))"
  | (no_listing) c i c' e where
    "initialize (fv_codec env) (fv_net env (ms_endpoint src)) (client_for env src) = (c, Inr i)"
    "list_tools (fv_codec env) (fv_net env (ms_endpoint src)) c = (c', Inl e)"
    "fetch_source env now src =
       (c', empty_result (src\<lparr>ms_fetched := now, ms_state := Unreachable, ms_error := fv_error_text env e\<rparr>))"
  | (absent) c i c' tools where
    "initialize (fv_codec env) (fv_net env (ms_endpoint src)) (client_for env src) = (c, Inr i)"
    "list_tools (fv_codec env) (fv_net env (ms_endpoint src)) c = (c', Inr tools)"
    "ms_served src @ served_tools tools = []"
    "fetch_source env now src =
       (c', empty_result (src\<lparr>ms_fetched := now, ms_tools := length tools, ms_served := [],
              ms_state := Declared_absent, ms_error := not_served_text (length tools)\<rparr>))"
  | (contract) c i c' tools c'' r rung where
    "initialize (fv_codec env) (fv_net env (ms_endpoint src)) (client_for env src) = (c, Inr i)"
    "list_tools (fv_codec env) (fv_net env (ms_endpoint src)) c = (c', Inr tools)"
    "ms_served src @ served_tools tools \<noteq> []"
    "run_contract env (c', empty_result (src\<lparr>ms_fetched := now, ms_tools := length tools,
       ms_served := ms_served src @ served_tools tools, ms_state := Served\<rparr>), 0) = (c'', r, rung)"
    "fetch_source env now src =
       (c'', (mark_demo (list_ex ft_stale (sr_features r)) r)
          \<lparr>sr_src := (sr_src (mark_demo (list_ex ft_stale (sr_features r)) r))\<lparr>ms_rung := rung\<rparr>\<rparr>)"
proof -
  let ?s = "src\<lparr>ms_fetched := now\<rparr>"
  have c0: "client_for env ?s = client_for env src" by (simp add: client_for_def)
  obtain c hi where init: "initialize (fv_codec env) (fv_net env (ms_endpoint src)) (client_for env src) = (c, hi)"
    by (cases "initialize (fv_codec env) (fv_net env (ms_endpoint src)) (client_for env src)")
  obtain c' li where list: "list_tools (fv_codec env) (fv_net env (ms_endpoint src)) c = (c', li)"
    by (cases "list_tools (fv_codec env) (fv_net env (ms_endpoint src)) c")
  note unfold = fetch_source_def c0 Let_def client_for_simps init list
  show thesis
  proof (cases hi)
    case (Inl e)
    show ?thesis by (rule no_handshake [OF init [unfolded Inl]]) (simp add: unfold Inl)
  next
    case i: (Inr i)
    show ?thesis
    proof (cases li)
      case (Inl e)
      show ?thesis by (rule no_listing [OF init [unfolded i] list [unfolded Inl]]) (simp add: unfold i Inl)
    next
      case (Inr tools)
      note known = init [unfolded i] list [unfolded Inr]
      show ?thesis
      proof (cases "ms_served src @ served_tools tools = []")
        case True
        show ?thesis by (rule absent [OF known True]) (use True in \<open>simp add: unfold i Inr\<close>)
      next
        case False
        obtain c'' r rung where run: "run_contract env (c', empty_result (src\<lparr>ms_fetched := now, ms_tools := length tools,
            ms_served := ms_served src @ served_tools tools, ms_state := Served\<rparr>), 0) = (c'', r, rung)"
          using prod_cases3 by blast
        show ?thesis
          by (rule contract [OF known False run]) (use False in \<open>simp add: unfold i Inr run del: append_is_Nil_conv\<close>)
      qed
    qed
  qed
qed


section \<open>What the answers evidence\<close>

definition evidence :: "source_result \<Rightarrow> int" where
  "evidence r = max (feature_rung_evidence (sr_features r))
     (max (skill_rung_evidence (sr_skills r)) (member_rung_evidence (sr_members r)))"

definition shows_demo :: "source_result \<Rightarrow> bool" where
  "shows_demo r \<longleftrightarrow> list_ex (\<lambda>b. equal_fold (mb_mode b) ''demo'') (sr_members r)"

text \<open>No explicit rung in any answer exceeds \<open>k\<close>.\<close>

definition claims_at_most :: "int \<Rightarrow> feature_codec \<Rightarrow> bool" where
  "claims_at_most k fc \<longleftrightarrow>
     (\<forall>raw. (case ev_caller_rung (decode_envelope fc raw) of None \<Rightarrow> True | Some x \<Rightarrow> x \<le> k)
        \<and> (case ev_rung (decode_envelope fc raw) of None \<Rightarrow> True | Some x \<Rightarrow> x \<le> k))"

lemma rung_evidence_bounds:
  assumes "claims_at_most k fc"
  shows "x \<le> rung_evidence (decode_envelope fc raw) x" and "rung_evidence (decode_envelope fc raw) x \<le> max x k"
proof -
  have "(case ev_caller_rung (decode_envelope fc raw) of None \<Rightarrow> True | Some x \<Rightarrow> x \<le> k)"
    "(case ev_rung (decode_envelope fc raw) of None \<Rightarrow> True | Some x \<Rightarrow> x \<le> k)"
    using assms unfolding claims_at_most_def by blast+
  then show "x \<le> rung_evidence (decode_envelope fc raw) x" and "rung_evidence (decode_envelope fc raw) x \<le> max x k"
    by (auto simp: rung_evidence_def split: option.splits)
qed

lemma evidence_mono:
  assumes "\<And>x n. n \<le> step x n"
  shows "(n::int) \<le> fold step xs n"
proof (induction xs arbitrary: n)
  case (Cons x xs)
  show ?case using assms [of n x] Cons.IH [of "step x n"] by simp
qed simp

lemma evidence_nonneg: "0 \<le> feature_rung_evidence fs" "0 \<le> skill_rung_evidence ss" "0 \<le> member_rung_evidence bs"
  unfolding feature_rung_evidence_def skill_rung_evidence_def member_rung_evidence_def
  by (rule evidence_mono; simp add: Let_def)+

lemma evidence_Nil [simp]: "feature_rung_evidence [] = 0" "skill_rung_evidence [] = 0" "member_rung_evidence [] = 0"
  by (simp_all add: feature_rung_evidence_def skill_rung_evidence_def member_rung_evidence_def)

definition rung_inv :: "int \<Rightarrow> source_result \<Rightarrow> int \<Rightarrow> bool" where
  "rung_inv k r n \<longleftrightarrow> evidence r \<le> n \<and> n \<le> max k (evidence r) \<and> (shows_demo r \<longrightarrow> ms_demo (sr_src r))"

lemma rung_inv_features:
  assumes "claims_at_most k (fv_json env)" and "rung_inv k r n" and "sr_features r = []"
  shows "rung_inv k (fst (absorb_features env raw (r, n))) (snd (absorb_features env raw (r, n)))
    \<and> sr_skills (fst (absorb_features env raw (r, n))) = sr_skills r
    \<and> sr_members (fst (absorb_features env raw (r, n))) = sr_members r"
  using rung_evidence_bounds [OF assms(1), where raw = raw and x = "feature_rung_evidence (decode_features (fv_json env) raw)"]
    evidence_nonneg(1) [of "decode_features (fv_json env) raw"] evidence_nonneg(2) [of "sr_skills r"] evidence_nonneg(3) [of "sr_members r"] assms(2,3)
  by (auto simp: rung_inv_def evidence_def shows_demo_def absorb_features_def Let_def mark_demo_def)

lemma rung_inv_skills:
  assumes "claims_at_most k (fv_json env)" and "rung_inv k r n" and "sr_skills r = []"
  shows "rung_inv k (fst (absorb_skills env raw (r, n))) (snd (absorb_skills env raw (r, n)))
    \<and> sr_members (fst (absorb_skills env raw (r, n))) = sr_members r"
  using rung_evidence_bounds [OF assms(1), where raw = raw and x = "skill_rung_evidence (decode_skills (fv_json env) raw)"]
    evidence_nonneg(1) [of "sr_features r"] evidence_nonneg(2) [of "decode_skills (fv_json env) raw"] evidence_nonneg(3) [of "sr_members r"] assms(2,3)
  by (auto simp: rung_inv_def evidence_def shows_demo_def absorb_skills_def Let_def mark_demo_def)

lemma rung_inv_members:
  assumes "claims_at_most k (fv_json env)" and "rung_inv k r n" and "sr_members r = []"
  shows "rung_inv k (fst (absorb_members env raw (r, n))) (snd (absorb_members env raw (r, n)))"
  using rung_evidence_bounds [OF assms(1), where raw = raw and x = "member_rung_evidence (decode_members (fv_json env) raw)"]
    evidence_nonneg(1) [of "sr_features r"] evidence_nonneg(2) [of "sr_skills r"] evidence_nonneg(3) [of "decode_members (fv_json env) raw"] assms(2,3)
  by (auto simp: rung_inv_def evidence_def shows_demo_def absorb_members_def Let_def mark_demo_def)

lemma contract_call_cases:
  assumes "contract_call env tool absorb (c, r, n) = (c', r', n')"
  obtains (kept) s where "r' = r\<lparr>sr_src := s\<rparr>" "n' = n" "ms_demo s = ms_demo (sr_src r)"
  | (absorbed) raw where "(r', n') = absorb raw (r, n)"
proof (cases "tool \<in> set (ms_served (sr_src r))")
  case False
  with assms show ?thesis by (intro kept [of "sr_src r"]) (simp_all add: contract_call_def)
next
  case True
  then show ?thesis
    using assms kept absorbed [OF sym] by (auto simp: contract_call_def split: prod.splits sum.splits)
qed

lemma rung_inv_kept:
  "ms_demo s = ms_demo (sr_src r) \<Longrightarrow> rung_inv k r n \<Longrightarrow> rung_inv k (r\<lparr>sr_src := s\<rparr>) n"
  by (simp add: rung_inv_def evidence_def shows_demo_def)

lemma run_contract_rung_inv:
  assumes "run_contract env (c, empty_result src, 0) = (c', r', n')" and "claims_at_most k (fv_json env)" and "0 \<le> k"
  shows "rung_inv k r' n'"
proof -
  let ?r = "empty_result src"
  obtain c1 r1 n1 where 1: "contract_call env tool_features_certified (absorb_features env) (c, ?r, 0) = (c1, r1, n1)"
    by (cases "contract_call env tool_features_certified (absorb_features env) (c, ?r, 0)")
  obtain c2 r2 n2 where 2: "contract_call env tool_skills_certified (absorb_skills env) (c1, r1, n1) = (c2, r2, n2)"
    by (cases "contract_call env tool_skills_certified (absorb_skills env) (c1, r1, n1)")
  have 3: "contract_call env tool_features_cluster (absorb_members env) (c2, r2, n2) = (c', r', n')"
    using assms(1) by (simp add: run_contract_def 1 2)
  have i0: "rung_inv k ?r 0" "sr_features ?r = []" "sr_skills ?r = []" "sr_members ?r = []"
    using assms(3) by (simp_all add: rung_inv_def evidence_def shows_demo_def empty_result_def)
  have i1: "rung_inv k r1 n1 \<and> sr_skills r1 = [] \<and> sr_members r1 = []"
    using 1
  proof (cases rule: contract_call_cases)
    case (kept s)
    then show ?thesis using rung_inv_kept [OF kept(3) i0(1)] i0 by simp
  next
    case (absorbed raw)
    then show ?thesis using rung_inv_features [OF assms(2) i0(1,2), of raw] i0(3,4) by (metis fst_conv snd_conv)
  qed
  have i2: "rung_inv k r2 n2 \<and> sr_members r2 = []"
    using 2
  proof (cases rule: contract_call_cases)
    case (kept s)
    then show ?thesis using rung_inv_kept [OF kept(3)] i1 by simp
  next
    case (absorbed raw)
    then show ?thesis using rung_inv_skills [OF assms(2), of r1 n1 raw] i1 by (metis fst_conv snd_conv)
  qed
  show ?thesis
    using 3
  proof (cases rule: contract_call_cases)
    case (kept s)
    then show ?thesis using rung_inv_kept [OF kept(3)] i2 by simp
  next
    case (absorbed raw)
    then show ?thesis using rung_inv_members [OF assms(2), of r2 n2 raw] i2 by (metis fst_conv snd_conv)
  qed
qed


text \<open>For the witnesses: an instance whose listing names the tools given, and which refuses every call,
  telling the rung it assigned.\<close>

definition refusal :: rpc_error where
  "refusal = \<lparr>re_code = - 32003, re_message = ''insufficient trust rung: need 3, have 1''\<rparr>"

definition refusing_codec :: "string list \<Rightarrow> mcp_codec" where
  "refusing_codec tools =
     \<lparr>dc_response = (\<lambda>t. Inr (if t = ''{r}'' then \<lparr>rs_id = 1, rs_result = None, rs_error = Some refusal\<rparr>
                              else \<lparr>rs_id = 1, rs_result = Some t, rs_error = None\<rparr>)),
      dc_init = (\<lambda>_. Inr \<lparr>si_protocol = protocol_version, si_name = ''adhd'', si_version = [], si_instructions = []\<rparr>),
      dc_tools = (\<lambda>_. Inr tools), dc_content = (\<lambda>_. None), dc_quote = id\<rparr>"

definition refusing_net :: "string \<Rightarrow> endpoint_fun" where
  "refusing_net _ req =
     Inr \<lparr>hr_code = 200, hr_body = (if rq_method req = ''tools/call'' then ''{r}'' else ''{}''), hr_broken = None\<rparr>"

definition empty_codec :: feature_codec where
  "empty_codec =
     \<lparr>fc_envelope = (\<lambda>_. (False, \<lparr>ev_caller_rung = None, ev_rung = None, ev_mode = [], ev_note = [],
        ev_unverified = 0, ev_demo = False\<rparr>)),
      fc_array = (\<lambda>_. None), fc_object = (\<lambda>_. None), fc_feature = (\<lambda>_. None), fc_skill = (\<lambda>_. None),
      fc_member = (\<lambda>_. None), fc_verify = Inl\<rparr>"

definition refusing_env :: "string list \<Rightarrow> fetch_env" where
  "refusing_env tools =
     \<lparr>fv_codec = refusing_codec tools, fv_json = empty_codec, fv_net = refusing_net, fv_error_text = (\<lambda>_. ''err''),
      fv_version = ''1'', fv_identity = None\<rparr>"

lemma refusing_texts: "trim_space ''{r}'' = ''{r}''" "trim_space ''{}'' = ''{}''"
  by code_simp+

lemma refusing_answers:
  "call_answer (refusing_codec tools) n w (refusing_net ep req) =
     (if rq_method req = ''tools/call'' then Inl (Rpc refusal) else Inr ''{}'')"
  by (simp add: call_answer_def refusing_net_def limited_def mcp_max_body_def decode_response_def refusing_texts
      refusing_codec_def)

lemma refusing_call:
  "snd (call_tool (refusing_codec tools) (refusing_net ep) name args c) = Inl (Rpc refusal)"
  by (simp add: call_tool_def mcp_call_def Let_def refusing_answers) (simp add: refusal_def)

lemma refusing_init:
  "\<exists>c i. initialize (refusing_codec tools) (refusing_net ep) c0 = (c, Inr i)"
  by (simp add: initialize_def mcp_call_def Let_def refusing_answers) (simp add: refusing_codec_def)

lemma refusing_list:
  "\<exists>c. list_tools (refusing_codec tools) (refusing_net ep) c0 = (c, Inr (filter (\<lambda>t. t \<noteq> []) tools))"
  by (simp add: list_tools_def mcp_call_def Let_def refusing_answers) (simp add: refusing_codec_def)

section \<open>Served without an answer\<close>

lemma contract_call_refused:
  assumes "contract_call env tool absorb (c, r, n) = (c', r', n')"
    and "\<forall>t d. isl (snd (call_tool (fv_codec env) (fv_net env (mc_endpoint c)) t [] d))"
  shows "\<exists>s. r' = r\<lparr>sr_src := s\<rparr>" and "n' = n" and "mc_endpoint c' = mc_endpoint c"
proof -
  obtain d res where call: "call_tool (fv_codec env) (fv_net env (mc_endpoint c)) tool [] c = (d, res)"
    by (cases "call_tool (fv_codec env) (fv_net env (mc_endpoint c)) tool [] c")
  then obtain e where "res = Inl e" using assms(2) by (metis snd_conv isl_def)
  moreover have "mc_endpoint d = mc_endpoint c"
    using call_tool_endpoint [of "fv_codec env" "fv_net env (mc_endpoint c)" tool "[]" c] call by simp
  ultimately have "r' = r\<lparr>sr_src := sr_src r'\<rparr>" and rest: "n' = n" "mc_endpoint c' = mc_endpoint c"
    using assms(1) call by (auto simp: contract_call_def split: if_splits)
  then show "\<exists>s. r' = r\<lparr>sr_src := s\<rparr>" by blast
  show "n' = n" and "mc_endpoint c' = mc_endpoint c" by (fact rest)+
qed

text \<open>A source is called served as soon as it lists a tool of the contract: when every one of its
  tools is refused it still counts as served, with nothing released; and although each refusal
  names the rung adhd assigned, the source ends at rung 0.\<close>

theorem served_without_answer:
  assumes "initialize (fv_codec env) (fv_net env (ms_endpoint src)) (client_for env src) = (c, Inr i)"
    and "list_tools (fv_codec env) (fv_net env (ms_endpoint src)) c = (c', Inr tools)"
    and "ms_served src @ served_tools tools \<noteq> []"
    and "\<forall>t d. isl (snd (call_tool (fv_codec env) (fv_net env (ms_endpoint src)) t [] d))"
  shows "case snd (fetch_source env now src) of
     r \<Rightarrow> ms_state (sr_src r) = Served \<and> ms_rung (sr_src r) = 0
       \<and> sr_features r = [] \<and> sr_skills r = [] \<and> sr_members r = []"
proof (cases rule: fetch_source_cases [where env = env and src = src and now = now])
  case (contract c1 i1 c2 tools2 c'' r rung)
  let ?r0 = "empty_result (src\<lparr>ms_fetched := now, ms_tools := length tools2,
       ms_served := ms_served src @ served_tools tools2, ms_state := Served\<rparr>)"
  have ep: "mc_endpoint c2 = ms_endpoint src"
    using contract(1,2) initialize_endpoint [of "fv_codec env" "fv_net env (ms_endpoint src)" "client_for env src"]
      list_tools_endpoint [of "fv_codec env" "fv_net env (ms_endpoint src)" c1] client_for_simps(5) [of env src]
    by simp
  obtain d1 r1 n1 where 1: "contract_call env tool_features_certified (absorb_features env) (c2, ?r0, 0) = (d1, r1, n1)"
    by (cases "contract_call env tool_features_certified (absorb_features env) (c2, ?r0, 0)")
  obtain d2 r2 n2 where 2: "contract_call env tool_skills_certified (absorb_skills env) (d1, r1, n1) = (d2, r2, n2)"
    by (cases "contract_call env tool_skills_certified (absorb_skills env) (d1, r1, n1)")
  have 3: "contract_call env tool_features_cluster (absorb_members env) (d2, r2, n2) = (c'', r, rung)"
    using contract(4) by (simp add: run_contract_def 1 2)
  note refused = assms(4) [folded ep]
  note s1 = contract_call_refused [OF 1 refused]
  note s2 = contract_call_refused [OF 2 refused [folded s1(3)]]
  note s3 = contract_call_refused [OF 3 refused [folded s1(3), folded s2(3)]]
  have "rung = 0" using s1(2) s2(2) s3(2) by simp
  moreover have "sr_features r = [] \<and> sr_skills r = [] \<and> sr_members r = []"
    using s1(1) s2(1) s3(1) by (auto simp: empty_result_def)
  moreover have "ms_state (sr_src r) = Served"
    using run_contract_step(3) [OF contract(4)] by (simp add: empty_result_def)
  ultimately show ?thesis unfolding contract(5) by simp
qed (use assms(1-3) in simp_all)

theorem served_without_answer_witness:
  "case snd (fetch_source (refusing_env [tool_features_certified]) 7 (sample_source ''a'' False)) of
     r \<Rightarrow> ms_state (sr_src r) = Served \<and> ms_rung (sr_src r) = 0 \<and> rung_from_refusal (re_message refusal) = Some 1"
proof -
  let ?env = "refusing_env [tool_features_certified]" and ?src = "sample_source ''a'' False"
  obtain c i where init: "initialize (fv_codec ?env) (fv_net ?env (ms_endpoint ?src)) (client_for ?env ?src) = (c, Inr i)"
    using refusing_init by (metis refusing_env_def fetch_env.select_convs(1,3))
  obtain c' where list: "list_tools (fv_codec ?env) (fv_net ?env (ms_endpoint ?src)) c = (c', Inr [tool_features_certified])"
    using refusing_list [of "[tool_features_certified]" "ms_endpoint ?src" c]
    by (auto simp: refusing_env_def tool_features_certified_def)
  have tools: "ms_served ?src @ served_tools [tool_features_certified] \<noteq> []"
    by (simp add: served_tools_def contract_tools_def)
  have refused: "\<forall>t d. isl (snd (call_tool (fv_codec ?env) (fv_net ?env (ms_endpoint ?src)) t [] d))"
    by (simp add: refusing_env_def refusing_call)
  have "rung_from_refusal (re_message refusal) = Some 1" by code_simp
  then show ?thesis using served_without_answer [OF init list tools refused, of 7] by simp
qed

lemma fetch_source_served:
  assumes "initialize (fv_codec env) (fv_net env (ms_endpoint src)) (client_for env src) = (c, Inr i)"
    and "list_tools (fv_codec env) (fv_net env (ms_endpoint src)) c = (c', Inr tools)"
    and "ms_served src @ served_tools tools \<noteq> []"
  shows "ms_state (sr_src (snd (fetch_source env now src))) = Served"
    and "ms_served (sr_src (snd (fetch_source env now src))) = ms_served src @ served_tools tools"
proof -
  let ?r = "sr_src (snd (fetch_source env now src))"
  have "ms_state ?r = Served \<and> ms_served ?r = ms_served src @ served_tools tools"
  proof (cases rule: fetch_source_cases [where env = env and src = src and now = now])
    case (contract c1 i1 c2 tools2 c'' r rung)
    have "tools2 = tools" using assms(1,2) contract(1,2) by simp
    then show ?thesis
      unfolding contract(5) using run_contract_step(2,3) [OF contract(4)] by (simp add: empty_result_def)
  qed (use assms in simp_all)
  then show "ms_state ?r = Served" and "ms_served ?r = ms_served src @ served_tools tools" by simp_all
qed

lemma refusing_starts:
  obtains c i c' where
    "initialize (fv_codec (refusing_env tools)) (fv_net (refusing_env tools) (ms_endpoint src))
       (client_for (refusing_env tools) src) = (c, Inr i)"
    "list_tools (fv_codec (refusing_env tools)) (fv_net (refusing_env tools) (ms_endpoint src)) c
       = (c', Inr (filter (\<lambda>t. t \<noteq> []) tools))"
proof -
  obtain c i where "initialize (refusing_codec tools) (refusing_net (ms_endpoint src)) (client_for (refusing_env tools) src) = (c, Inr i)"
    using refusing_init by blast
  moreover obtain c' where "list_tools (refusing_codec tools) (refusing_net (ms_endpoint src)) c = (c', Inr (filter (\<lambda>t. t \<noteq> []) tools))"
    using refusing_list by blast
  ultimately show thesis by (intro that) (simp_all add: refusing_env_def)
qed


section \<open>Live verification is gated\<close>

lemma best_verifier_fold:
  "fold (\<lambda>s best. if tool_features_verify \<notin> set (ms_served s) then best
       else (case best of None \<Rightarrow> Some s | Some b \<Rightarrow> if ms_rung s > ms_rung b then Some s else best)) xs b0 = res \<Longrightarrow>
   (res = None \<longleftrightarrow> b0 = None \<and> (\<forall>s \<in> set xs. tool_features_verify \<notin> set (ms_served s)))
   \<and> (\<forall>b. res = Some b \<longrightarrow>
        (b0 = Some b \<or> b \<in> set xs \<and> tool_features_verify \<in> set (ms_served b))
        \<and> (\<forall>c. b0 = Some c \<longrightarrow> ms_rung c \<le> ms_rung b)
        \<and> (\<forall>s \<in> set xs. tool_features_verify \<in> set (ms_served s) \<longrightarrow> ms_rung s \<le> ms_rung b))"
proof (induction xs arbitrary: b0)
  case (Cons x xs)
  show ?case
    using Cons.IH [of "if tool_features_verify \<notin> set (ms_served x) then b0
        else (case b0 of None \<Rightarrow> Some x | Some b \<Rightarrow> if ms_rung x > ms_rung b then Some x else b0)"] Cons.prems
    by (cases "tool_features_verify \<in> set (ms_served x)"; cases b0) (auto split: if_splits)
qed auto

lemma best_verifier_exact:
  "best_verifier ss = None \<longleftrightarrow> (\<forall>s \<in> set ss. tool_features_verify \<notin> set (ms_served s))"
  "best_verifier ss = Some b \<Longrightarrow> b \<in> set ss \<and> tool_features_verify \<in> set (ms_served b)
     \<and> (\<forall>s \<in> set ss. tool_features_verify \<in> set (ms_served s) \<longrightarrow> ms_rung s \<le> ms_rung b)"
  using best_verifier_fold [of ss None "best_verifier ss"] by (auto simp: best_verifier_def)

lemma verify_requests:
  "map rq_params (fst (verify env v feature)) =
     (if vw_status v \<noteq> View_no_sources \<and> best_verifier (vw_sources v) \<noteq> None \<and> 3 \<le> vw_rung v
      then [Call_params tool_features_verify [(''feature'', feature)]] else [])"
proof (cases "vw_status v = View_no_sources \<or> best_verifier (vw_sources v) = None \<or> vw_rung v < 3")
  case True
  then show ?thesis by (auto simp: verify_def split: option.split)
next
  case False
  then obtain b where b: "best_verifier (vw_sources v) = Some b" by auto
  obtain c res where call: "call_tool (fv_codec env) (fv_net env (ms_endpoint b)) tool_features_verify
      [(''feature'', feature)] (client_for env b) = (c, res)"
    by (cases "call_tool (fv_codec env) (fv_net env (ms_endpoint b)) tool_features_verify
      [(''feature'', feature)] (client_for env b)")
  have "fst (verify env v feature) = mc_sent c"
    using False b call by (auto simp: verify_def split: sum.split mcp_error.split)
  moreover have "map rq_params (mc_sent c) = [Call_params tool_features_verify [(''feature'', feature)]]"
    using call_tool_sent [of "fv_codec env" "fv_net env (ms_endpoint b)" tool_features_verify
        "[(''feature'', feature)]" "client_for env b"] call client_for_simps(1) [of env b] by simp
  ultimately show ?thesis using False b by simp
qed

lemma fold_max_ge: "(k::int) \<le> fold (\<lambda>r. max (f r)) rs n \<longleftrightarrow> k \<le> n \<or> list_ex (\<lambda>r. k \<le> f r) rs"
  by (induction rs arbitrary: n) (auto simp: le_max_iff_disj)

lemma merged_view_simps:
  "vw_sources (merge_results rs now) = map sr_src rs"
  "vw_rung (merge_results rs now) = fold (\<lambda>r. max (ms_rung (sr_src r))) rs 0"
  "vw_status (merge_results rs now) \<noteq> View_no_sources"
  by (simp_all add: merge_results_def Let_def case_prod_unfold merge_scalars) (simp_all add: merge_init_def)

text \<open>Live verification is offered exactly when it can work: over any set of sources, \<open>Verify\<close>
  sends one call of the verification tool with the feature's name if some source evidenced rung 3
  and some source serves the tool, and sends nothing at all otherwise.\<close>

theorem verify_gate:
  "map rq_params (fst (verify env (fetch_view env now stamps sources) feature)) =
     (let rs = map (\<lambda>s. sr_src (snd (fetch_source env (stamps s) s))) sources
      in if list_ex (\<lambda>s. 3 \<le> ms_rung s) rs \<and> list_ex (\<lambda>s. tool_features_verify \<in> set (ms_served s)) rs
         then [Call_params tool_features_verify [(''feature'', feature)]] else [])"
proof (cases "sources = []")
  case True
  then show ?thesis by (simp add: verify_requests fetch_view_def no_sources_view_def)
next
  case False
  let ?rs = "map (\<lambda>s. snd (fetch_source env (stamps s) s)) sources"
  have "fetch_view env now stamps sources = merge_results ?rs now" using False by (simp add: fetch_view_def)
  then show ?thesis
    by (simp add: verify_requests merged_view_simps best_verifier_exact(1) fold_max_ge list_ex_iff Let_def)
qed

text \<open>The rung that opens verification need not be the rung of the source it is sent to: when one
  source evidenced rung 3 and only another one, of a lower rung, serves the tool, the call goes to
  the latter, which will refuse it.\<close>

theorem verify_below_rung:
  assumes "ms_rung a = 3" and "tool_features_verify \<notin> set (ms_served a)"
    and "ms_rung b < 3" and "tool_features_verify \<in> set (ms_served b)"
  shows "(case merge_results [empty_result a, empty_result b] now of
      v \<Rightarrow> best_verifier (vw_sources v) = Some b
        \<and> map rq_params (fst (verify env v feature)) = [Call_params tool_features_verify [(''feature'', feature)]])"
proof -
  have "best_verifier [a, b] = Some b" using assms by (simp add: best_verifier_def)
  then show ?thesis using assms(1) by (simp add: verify_requests merged_view_simps empty_result_def)
qed

theorem verify_below_rung_witness:
  "best_verifier (vw_sources (merge_results [empty_result ((sample_source ''a'' False)\<lparr>ms_rung := 3\<rparr>),
      empty_result ((sample_source ''b'' False)\<lparr>ms_rung := 1, ms_served := [tool_features_verify]\<rparr>)] 9)) =
   Some ((sample_source ''b'' False)\<lparr>ms_rung := 1, ms_served := [tool_features_verify]\<rparr>)"
  using verify_below_rung [of "(sample_source ''a'' False)\<lparr>ms_rung := 3\<rparr>"
      "(sample_source ''b'' False)\<lparr>ms_rung := 1, ms_served := [tool_features_verify]\<rparr>" 9]
  by (simp add: sample_source_def)

text \<open>One fetch serves a whole window: requests while the view is younger than the refresh get the
  same view whatever the sources would say, and no view older than the refresh is ever served.\<close>

theorem view_cache_window:
  "(i < length qs \<longrightarrow> cache_run view_get qs (new_feature_browser refresh) ! i = Inr v \<longrightarrow>
      (\<exists>j \<le> i. snd (snd (qs ! j)) = Inr v
         \<and> (j = i \<or> time_sub (fst (qs ! i)) (vw_fetched v) < br_refresh (new_feature_browser refresh))))
   \<and> ((\<forall>q \<in> set qs'. time_sub (fst q) (vw_fetched w) < br_refresh b) \<longrightarrow> br_cached b = Some w \<longrightarrow>
      cache_run view_get qs' b = replicate (length qs') (Inr w))"
  using views.served_recent [of "new_feature_browser refresh" i qs v] views.sheltered [of b w "vw_fetched w" qs']
  by (auto simp: new_feature_browser_def)

theorem view_cache_window_witness:
  "cache_run view_get [(5, 6, Inl ()), (9, 9, Inl ())] \<lparr>br_refresh = 10, br_cached = Some (no_sources_view 1)\<rparr>
     = [Inr (no_sources_view 1), Inr (no_sources_view 1)]"
proof -
  have "\<forall>q \<in> set [(5, 6, Inl ()), (9, 9, Inl ())]. time_sub (fst q) (vw_fetched (no_sources_view 1)) < 10"
    by (simp add: no_sources_view_def time_sub_def min_duration_def max_duration_def)
  then show ?thesis
    using view_cache_window [of 0 "[]" 0 "no_sources_view 1" "[(5, 6, Inl ()), (9, 9, Inl ())]" "no_sources_view 1"
        "\<lparr>br_refresh = 10, br_cached = Some (no_sources_view 1)\<rparr>"]
    by simp
qed

end
