(* ===== verification/FeatureSources.thy ===== *)
theory FeatureSources
  imports FeatureBrowser
begin

text \<open>
  Where the certification browser's sources come from: discovered isotope endpoints, configured
  endpoints as the fallback, and the check of that configuration. \<open>net/url\<close> is an argument.
\<close>

section \<open>URLs\<close>

text \<open>
  \<open>url.Parse\<close>, the fields of a parsed URL the code reads, the update of its path and
  \<open>URL.String\<close>.
\<close>

record 'u url_codec =
  ul_parse :: "string \<Rightarrow> string + 'u"
  ul_scheme :: "'u \<Rightarrow> string"
  ul_host :: "'u \<Rightarrow> string"
  ul_path :: "'u \<Rightarrow> string"
  ul_set_path :: "string \<Rightarrow> 'u \<Rightarrow> 'u"
  ul_show :: "'u \<Rightarrow> string"

definition normalize_endpoint :: "'u url_codec \<Rightarrow> string \<Rightarrow> string" where
  "normalize_endpoint U raw =
     (let trimmed = trim_space raw in
      if trimmed = [] then []
      else case ul_parse U trimmed of
        Inl _ \<Rightarrow> trimmed
      | Inr u \<Rightarrow>
          if ul_host U u = [] then trimmed
          else if ul_path U u = [] \<or> ul_path U u = ''/'' then ul_show U (ul_set_path U default_mcp_path u)
          else ul_show U u)"

definition endpoint_label :: "'u url_codec \<Rightarrow> string \<Rightarrow> string" where
  "endpoint_label U raw =
     (case ul_parse U raw of
        Inl _ \<Rightarrow> raw
      | Inr u \<Rightarrow> if ul_host U u = [] then raw else ul_host U u)"

section \<open>The configured fallback\<close>

datatype feature_problem =
    Empty_url nat
  | Unparsable_url nat string string
  | Not_http_url nat string
  | No_host nat string
  | Bad_feature_refresh string

definition endpoint_problems :: "'u url_codec \<Rightarrow> nat \<Rightarrow> feature_endpoint \<Rightarrow> feature_problem list" where
  "endpoint_problems U i ep =
     (let raw = trim_space (fe_url ep) in
      if raw = [] then [Empty_url i]
      else case ul_parse U raw of
        Inl e \<Rightarrow> [Unparsable_url i (fe_url ep) e]
      | Inr u \<Rightarrow>
          if ul_scheme U u \<noteq> ''http'' \<and> ul_scheme U u \<noteq> ''https'' then [Not_http_url i (fe_url ep)]
          else if ul_host U u = [] then [No_host i (fe_url ep)] else [])"

definition validate_feature_config :: "'u url_codec \<Rightarrow> feature_browser_config \<Rightarrow> feature_problem list" where
  "validate_feature_config U cfg =
     concat (map (\<lambda>(i, ep). endpoint_problems U i ep) (enumerate 0 (fb_endpoints cfg)))
     @ (let refresh = trim_space (fb_refresh cfg) in
        if refresh = [] then []
        else case parse_duration refresh of
          None \<Rightarrow> [Bad_feature_refresh (fb_refresh cfg)]
        | Some d \<Rightarrow> if d \<le> 0 then [Bad_feature_refresh (fb_refresh cfg)] else [])"

definition new_source :: "string \<Rightarrow> string \<Rightarrow> string \<Rightarrow> mcp_source" where
  "new_source inst endpoint origin =
     \<lparr>ms_instance = inst, ms_endpoint = endpoint, ms_origin = origin, ms_role = [], ms_trust_rung = 0,
      ms_state = Not_fetched, ms_tools = 0, ms_served = [], ms_rung = 0, ms_demo = False, ms_error = [],
      ms_fetched = zero_time\<rparr>"

definition config_source :: "'u url_codec \<Rightarrow> feature_endpoint \<Rightarrow> mcp_source option" where
  "config_source U ep =
     (let normalized = normalize_endpoint U (fe_url ep);
          name = (if trim_space (fe_name ep) = [] then endpoint_label U normalized else trim_space (fe_name ep))
      in if normalized = [] then None else Some (new_source name normalized ''config''))"

definition config_sources :: "'u url_codec \<Rightarrow> feature_endpoint list \<Rightarrow> mcp_source list" where
  "config_sources U eps = List.map_filter (config_source U) eps"

section \<open>The discovered set\<close>

definition discovered_source :: "'u url_codec \<Rightarrow> endpoint \<Rightarrow> mcp_source" where
  "discovered_source U ep =
     (let src = new_source (ep_host ep @ '':'' @ itoa (ep_port ep)) (normalize_endpoint U (endpoint_url ep)) ''mdns'';
          src = (case find (\<lambda>l. l \<noteq> []) (map service_instance (ep_services ep)) of
                   Some l \<Rightarrow> src\<lparr>ms_instance := l\<rparr> | None \<Rightarrow> src)
      in case ep_identities ep of
           i # _ \<Rightarrow> src\<lparr>ms_role := id_role i, ms_trust_rung := id_rung i\<rparr> | [] \<Rightarrow> src)"

definition instance_less :: "mcp_source \<Rightarrow> mcp_source \<Rightarrow> bool" where
  "instance_less a b \<longleftrightarrow> ms_instance a < ms_instance b"

definition discovered_sources :: "'u url_codec \<Rightarrow> endpoint list \<Rightarrow> mcp_source list" where
  "discovered_sources U eps = sort_slice instance_less (map (discovered_source U) eps)"

fun dedupe_by_endpoint :: "string set \<Rightarrow> mcp_source list \<Rightarrow> mcp_source list" where
  "dedupe_by_endpoint seen [] = []"
| "dedupe_by_endpoint seen (s # ss) =
     (if ms_endpoint s \<in> seen then dedupe_by_endpoint seen ss
      else s # dedupe_by_endpoint (insert (ms_endpoint s) seen) ss)"

definition source_set :: "mcp_source list \<Rightarrow> mcp_source list \<Rightarrow> mcp_source list" where
  "source_set discovered configured =
     dedupe_by_endpoint {} (if length discovered > 0 then discovered else configured)"

section \<open>Properties\<close>

lemma dedupe_set:
  "set (map ms_endpoint (dedupe_by_endpoint seen ss)) = set (map ms_endpoint ss) - seen"
  by (induction ss arbitrary: seen) auto

lemma dedupe_distinct: "distinct (map ms_endpoint (dedupe_by_endpoint seen ss))"
proof (induction ss arbitrary: seen)
  case (Cons s ss)
  have "ms_endpoint s \<notin> set (map ms_endpoint (dedupe_by_endpoint (insert (ms_endpoint s) seen) ss))"
    by (simp only: dedupe_set) simp
  then show ?case using Cons.IH by simp
qed simp

text \<open>A kept source is the first of its endpoint.\<close>

lemma dedupe_first:
  "s \<in> set (dedupe_by_endpoint seen ss) \<longleftrightarrow>
     ms_endpoint s \<notin> seen \<and> find (\<lambda>t. ms_endpoint t = ms_endpoint s) ss = Some s"
  by (induction ss arbitrary: seen) auto

lemma discovered_source_simps:
  "ms_endpoint (discovered_source U ep) = normalize_endpoint U (endpoint_url ep)"
  "ms_origin (discovered_source U ep) = ''mdns''" "ms_rung (discovered_source U ep) = 0"
  "ms_served (discovered_source U ep) = []"
  by (simp_all add: discovered_source_def new_source_def Let_def split: option.split list.split)

lemma config_source_simps:
  assumes "config_source U ep = Some s"
  shows "ms_endpoint s = normalize_endpoint U (fe_url ep)" "ms_endpoint s \<noteq> []" "ms_origin s = ''config''"
    "ms_rung s = 0" "ms_served s = []"
  using assms by (auto simp: config_source_def new_source_def Let_def split: if_splits)

lemma config_sources_in: "s \<in> set (config_sources U cfgs) \<longleftrightarrow> (\<exists>ep \<in> set cfgs. config_source U ep = Some s)"
  by (force simp: config_sources_def map_filter_def)

text \<open>C32: The source set: each address is asked once, by the first source that names it; it is the
  discovered addresses when discovery found any, and the configured ones, which are only a
  fallback, otherwise; and no source starts with a rung or with tools of tuner's making.\<close>

theorem source_set_exact:
  "(case source_set (discovered_sources U eps) (config_sources U cfgs) of
      ss \<Rightarrow>
        distinct (map ms_endpoint ss)
        \<and> set (map ms_endpoint ss) =
            (if eps \<noteq> [] then set (map (normalize_endpoint U \<circ> endpoint_url) eps)
             else set (map (normalize_endpoint U \<circ> fe_url) cfgs) - {[]})
        \<and> list_all (\<lambda>s. ms_origin s = (if eps \<noteq> [] then ''mdns'' else ''config'') \<and> ms_rung s = 0 \<and> ms_served s = []) ss)"
proof -
  let ?chosen = "if length (discovered_sources U eps) > 0 then discovered_sources U eps else config_sources U cfgs"
  have chosen: "?chosen = (if eps \<noteq> [] then discovered_sources U eps else config_sources U cfgs)"
    by (simp add: discovered_sources_def)
  have conf: "set (map ms_endpoint (config_sources U cfgs)) = set (map (normalize_endpoint U \<circ> fe_url) cfgs) - {[]}"
    by (force simp: config_sources_def map_filter_def config_source_def new_source_def Let_def image_iff)
  have disc: "set (map ms_endpoint (discovered_sources U eps)) = set (map (normalize_endpoint U \<circ> endpoint_url) eps)"
    by (auto simp: discovered_sources_def discovered_source_simps image_image)
  have all: "ms_origin s = (if eps \<noteq> [] then ''mdns'' else ''config'') \<and> ms_rung s = 0 \<and> ms_served s = []"
    if "s \<in> set (dedupe_by_endpoint {} ?chosen)" for s
  proof -
    have "s \<in> set ?chosen"
      using that unfolding dedupe_first by (metis (no_types) find_Some_iff nth_mem)
    then consider "eps \<noteq> []" "s \<in> set (discovered_sources U eps)" | "eps = []" "s \<in> set (config_sources U cfgs)"
      unfolding chosen by (cases "eps = []") simp_all
    then show ?thesis
    proof cases
      case 1
      then show ?thesis by (auto simp: discovered_sources_def discovered_source_simps)
    next
      case 2
      then obtain ep where "config_source U ep = Some s" by (auto simp: config_sources_in)
      with 2(1) show ?thesis by (simp add: config_source_simps)
    qed
  qed
  show ?thesis
    using all dedupe_set [of "{}" ?chosen] dedupe_distinct [of "{}" ?chosen] disc conf
    by (simp only: source_set_def chosen list_all_iff) (simp split: if_split_asm)
qed

text \<open>
  For the next property: what \<open>net/url\<close> documents of \<open>String\<close>, that a URL with a host prints as a
  non-empty text, whatever its path.
\<close>

definition prints_hosts :: "'u url_codec \<Rightarrow> bool" where
  "prints_hosts U \<longleftrightarrow>
     (\<forall>u. ul_host U u \<noteq> [] \<longrightarrow> ul_show U u \<noteq> [] \<and> ul_show U (ul_set_path U default_mcp_path u) \<noteq> [])"

lemma endpoint_problems_none:
  assumes "endpoint_problems U i ep = []"
  obtains u where "trim_space (fe_url ep) \<noteq> []" "ul_parse U (trim_space (fe_url ep)) = Inr u" "ul_host U u \<noteq> []"
  using assms by (auto simp: endpoint_problems_def Let_def split: if_splits sum.splits)

text \<open>A configuration without problems is used in full: every configured endpoint becomes a source,
  in order, with an address of its own to call, and the configured refresh, when there is one, is
  the one in force.\<close>

theorem validated_config_used:
  assumes "prints_hosts U" and "validate_feature_config U (cf_features cfg) = []"
  shows "map (Some :: mcp_source \<Rightarrow> mcp_source option) (config_sources U (fb_endpoints (cf_features cfg)))
      = map (config_source U) (fb_endpoints (cf_features cfg))
    \<and> (trim_space (fb_refresh (cf_features cfg)) = fb_refresh (cf_features cfg) \<and> fb_refresh (cf_features cfg) \<noteq> []
        \<longrightarrow> parse_duration (fb_refresh (cf_features cfg)) = Some (feature_refresh_duration cfg))"
proof -
  have none: "endpoint_problems U i (fb_endpoints (cf_features cfg) ! i) = []"
    if "i < length (fb_endpoints (cf_features cfg))" for i
  proof -
    have "(i, fb_endpoints (cf_features cfg) ! i) \<in> set (enumerate 0 (fb_endpoints (cf_features cfg)))"
      using that by (simp add: in_set_enumerate_eq)
    then show ?thesis using assms(2) by (fastforce simp: validate_feature_config_def)
  qed
  have some: "config_source U ep \<noteq> None" if ep: "ep \<in> set (fb_endpoints (cf_features cfg))" for ep
  proof -
    obtain i where "endpoint_problems U i ep = []" using ep none by (metis in_set_conv_nth)
    then obtain u where u: "trim_space (fe_url ep) \<noteq> []" "ul_parse U (trim_space (fe_url ep)) = Inr u" "ul_host U u \<noteq> []"
      by (rule endpoint_problems_none)
    then have "normalize_endpoint U (fe_url ep) \<noteq> []"
      using assms(1) by (auto simp: normalize_endpoint_def prints_hosts_def)
    then show ?thesis by (simp add: config_source_def Let_def)
  qed
  have "map Some (List.map_filter f xs) = map f xs" if "\<forall>x \<in> set xs. f x \<noteq> None" for f :: "feature_endpoint \<Rightarrow> mcp_source option" and xs
    using that by (induction xs) (auto simp: List.map_filter_simps)
  then show ?thesis
    using some assms(2)
    by (auto simp: config_sources_def validate_feature_config_def feature_refresh_duration_def Let_def
        split: option.splits if_splits)
qed

text \<open>For the witness: a parser of \<open>http://host:port/path\<close> addresses.\<close>

definition sample_urls :: "(string \<times> string) url_codec" where
  "sample_urls =
     \<lparr>ul_parse = (\<lambda>s. case cut_prefix ''http://'' s of
        None \<Rightarrow> Inl ''no scheme''
      | Some r \<Rightarrow> Inr (takeWhile (\<lambda>c. c \<noteq> CHR ''/'') r, dropWhile (\<lambda>c. c \<noteq> CHR ''/'') r)),
      ul_scheme = (\<lambda>_. ''http''), ul_host = fst, ul_path = snd, ul_set_path = (\<lambda>p u. (fst u, p)),
      ul_show = (\<lambda>u. ''http://'' @ fst u @ snd u)\<rparr>"

lemma sample_urls_print: "prints_hosts sample_urls"
  by (simp add: prints_hosts_def sample_urls_def)

definition sample_feature_config :: config where
  "sample_feature_config = default_config
     \<lparr>cf_features := \<lparr>fb_endpoints = [\<lparr>fe_name = [], fe_url = ''http://h:1''\<rparr>], fb_refresh = ''10s'', fb_identity = []\<rparr>\<rparr>"

lemma ten_seconds: "parse_duration ''10s'' = Some (10 * second)" "parse_duration ''10s '' = None"
proof -
  have "digit_char 1 = CHR ''1''" "digit_char 0 = CHR ''0''" by code_simp+
  then have ten: "show_nat 10 = ''10''" by (simp add: show_nat.simps)
  show "parse_duration ''10s'' = Some (10 * second)"
    using parse_duration_whole [of "''s''" 1000000000 10]
    by (simp add: ten unit_ns_def unit_char_def is_digit_def byte_in_def second_def)
  have "leading_int 0 ''10s '' = Some (10, ''s '')"
    using leading_int_show [of 10 "''s ''"] by (simp add: ten is_digit_def byte_in_def)
  then have "duration_item ''10s '' = None"
    by (simp add: duration_item_def unit_char_def unit_ns_def is_digit_def byte_in_def)
  then show "parse_duration ''10s '' = None"
    by (simp add: parse_duration_def duration_items.simps)
qed

lemma ten_trims: "trim_space ''10s'' = ''10s''" "trim_space ''10s '' = ''10s''"
  by code_simp+

lemma sample_config_source:
  "config_source sample_urls \<lparr>fe_name = [], fe_url = ''http://h:1''\<rparr> = Some (new_source ''h:1'' ''http://h:1/mcp'' ''config'')"
  "endpoint_problems sample_urls 0 \<lparr>fe_name = [], fe_url = ''http://h:1''\<rparr> = []"
  by code_simp+

lemma sample_feature_config_valid:
  "validate_feature_config sample_urls (cf_features sample_feature_config) = []"
  by (simp add: validate_feature_config_def sample_feature_config_def sample_config_source ten_trims ten_seconds second_def)

theorem validated_config_used_witness:
  "map Some (config_sources sample_urls (fb_endpoints (cf_features sample_feature_config))) =
      [Some (new_source ''h:1'' ''http://h:1/mcp'' ''config'')]
    \<and> parse_duration ''10s'' = Some (feature_refresh_duration sample_feature_config)"
proof -
  have features: "cf_features sample_feature_config =
      \<lparr>fb_endpoints = [\<lparr>fe_name = [], fe_url = ''http://h:1''\<rparr>], fb_refresh = ''10s'', fb_identity = []\<rparr>"
    by (simp add: sample_feature_config_def)
  show ?thesis
    using validated_config_used [OF sample_urls_print sample_feature_config_valid]
    by (simp only: features feature_browser_config.simps ten_trims list.map sample_config_source) simp
qed

text \<open>
  The check trims the refresh before it parses it, its reader does not: a padded refresh passes the
  check and is then ignored.
\<close>

lemma padded_refresh_ignored:
  "validate_feature_config U \<lparr>fb_endpoints = [], fb_refresh = ''10s '', fb_identity = []\<rparr> = []"
  "feature_refresh_duration (default_config\<lparr>cf_features := \<lparr>fb_endpoints = [], fb_refresh = ''10s '', fb_identity = []\<rparr>\<rparr>) = 30 * second"
  by (simp_all add: validate_feature_config_def feature_refresh_duration_def ten_trims ten_seconds second_def)

end
