(* ===== verification/Render.thy ===== *)
theory Render
  imports FeatureBrowser Signal
begin

text \<open>
  \<open>internal/featurebrowser/render.go\<close>: the merged view as terminal lines, and the line of a
  verification. Text is UTF-8, as everywhere; \<open>%-Ns\<close> pads by runes, and \<open>%.0f\<close> rounds the exact
  value of the double to the even integer.
\<close>

section \<open>Pieces\<close>

definition middle_dot :: string where "middle_dot = [CHR 0xC2, CHR 0xB7]"
definition em_dash :: string where "em_dash = [CHR 0xE2, CHR 0x80, CHR 0x94]"
definition check_mark :: string where "check_mark = [CHR 0xE2, CHR 0x9C, CHR 0x94]"
definition hollow_mark :: string where "hollow_mark = [CHR 0xE2, CHR 0x97, CHR 0x87]"

definition pad_right :: "nat \<Rightarrow> string \<Rightarrow> string" where
  "pad_right n s = s @ replicate (n - length (runes s)) (CHR '' '')"

definition opt_text :: "bool \<Rightarrow> string \<Rightarrow> string" where
  "opt_text c t = (if c then t else [])"

definition rung_label :: "int \<Rightarrow> string" where
  "rung_label rung =
     (if rung = 0 then ''(unverified)'' else if rung = 1 then ''exists'' else if rung = 2 then ''deterministic''
      else if rung = 3 then ''scenario-linked'' else ''rung '' @ itoa rung)"

definition next_step :: "int \<Rightarrow> string option" where
  "next_step rung =
     (if rung = 0 then Some ''probe call required to verify existence''
      else if rung = 1 then Some ''equality probe required for deterministic output''
      else if rung = 2 then Some ''isotope transit required to bind a scenario'' else None)"

definition state_text :: "source_state \<Rightarrow> string" where
  "state_text st =
     (case st of Served \<Rightarrow> ''served'' | Declared_absent \<Rightarrow> ''declared-absent'' | Unreachable \<Rightarrow> ''unreachable''
      | Not_fetched \<Rightarrow> [])"

text \<open>\<open>%.0f\<close>; infinities and NaN cannot arise from a quotient of counts.\<close>

definition fmt_whole :: "f64 \<Rightarrow> string" where
  "fmt_whole v = (case v of Fin x \<Rightarrow> itoa (round_even x) | Inf neg \<Rightarrow> if neg then ''-Inf'' else ''+Inf'' | NaN \<Rightarrow> ''NaN'')"

definition summary_line :: "(f64 \<Rightarrow> int) \<Rightarrow> summary \<Rightarrow> string" where
  "summary_line impl s =
     (if su_total s = 0 then ''0 / 0 certified''
      else let ratio = f64_div (f64_of_int (int (su_certified s))) (f64_of_int (int (su_total s)))
           in show_nat (su_certified s) @ '' / '' @ show_nat (su_total s) @ '' certified ('' @
              fmt_whole (f64_mul ratio (f64_of_int 100)) @ ''%) ['' @ viz_bar impl ratio 10 @ '']'')"

definition source_tally :: "mcp_source list \<Rightarrow> string" where
  "source_tally ss =
     (let count = (\<lambda>st. length (filter (\<lambda>s. ms_state s = st) ss));
          parts = map (\<lambda>st. show_nat (count st) @ '' '' @ state_text st)
                    (filter (\<lambda>st. count st > 0) [Served, Declared_absent, Unreachable])
      in show_nat (length ss) @ '' source(s): '' @ str_join '', '' parts)"

section \<open>Entries\<close>

definition feature_marker :: "feature \<Rightarrow> string" where
  "feature_marker f =
     (if ft_certified f \<and> ft_demo f then hollow_mark else if ft_certified f then check_mark else middle_dot)"

definition render_feature :: "feature \<Rightarrow> string" where
  "render_feature f =
     ''  '' @ feature_marker f @ '' '' @ ft_file f
     @ opt_text (ft_scenario f \<noteq> []) ('' '' @ em_dash @ '' '' @ ft_scenario f)
     @ opt_text (\<not> ft_certified f) ''   uncertified''
     @ opt_text (ft_member f \<noteq> []) (''   certified by '' @ trim_prefix ''smoke:'' (ft_member f))
     @ opt_text (ft_isotope f \<noteq> []) (''   isotope '' @ ft_isotope f)
     @ opt_text (ft_transit f \<noteq> []) (''   transit '' @ ft_transit f)
     @ opt_text (ft_stale f) ''   [stale demo cert]''
     @ opt_text (ft_demo f) ''   [demo]''
     @ opt_text (length (ft_sources f) > 1) (''   via '' @ str_join '', '' (ft_sources f))"

definition opt_int :: "string \<Rightarrow> int option \<Rightarrow> string \<Rightarrow> string" where
  "opt_int pre v post = (case v of None \<Rightarrow> [] | Some n \<Rightarrow> pre @ itoa n @ post)"

definition render_skill :: "skill \<Rightarrow> string" where
  "render_skill s =
     ''  '' @ pad_right 24 (sk_name s) @ '' rung '' @ itoa (sk_rung s) @ '' '' @ rung_label (sk_rung s)
     @ (case sk_failures s of Some n \<Rightarrow> opt_text (n > 0) (''   '' @ itoa n @ '' variation failures'') | None \<Rightarrow> [])
     @ opt_int ''   42i: '' (sk_distance s) []
     @ opt_text (sk_binding s \<noteq> []) (''   binding '' @ sk_binding s)
     @ opt_text (sk_host s \<noteq> []) (''   host '' @ sk_host s)
     @ (case next_step (sk_rung s) of Some t \<Rightarrow> ''   next: '' @ t | None \<Rightarrow> [])"

definition render_member :: "cluster_member \<Rightarrow> string" where
  "render_member b =
     ''  '' @ pad_right 16 (mb_name b)
     @ opt_text (mb_mode b \<noteq> []) ('' '' @ mb_mode b)
     @ opt_int ''   '' (mb_count b) '' features certified''
     @ opt_int ''   trust_rung '' (mb_rung b) []
     @ opt_text (mb_note b \<noteq> []) (''   '' @ mb_note b)"

definition render_source :: "mcp_source \<Rightarrow> string" where
  "render_source s =
     ''  '' @ pad_right 16 (ms_instance s) @ '' '' @ pad_right 32 (ms_endpoint s) @ '' '' @ state_text (ms_state s)
     @ (if ms_state s = Served then
          '' '' @ middle_dot @ '' '' @ show_nat (ms_tools s) @ '' tools''
          @ opt_text (ms_served s \<noteq> []) ('' '' @ middle_dot @ '' contract: '' @ str_join '', '' (ms_served s))
          @ opt_text (ms_rung s > 0) ('' '' @ middle_dot @ '' rung '' @ itoa (ms_rung s) @ '' assigned'')
        else opt_text (ms_error s \<noteq> []) ('' '' @ middle_dot @ '' '' @ ms_error s))
     @ opt_text (ms_role s \<noteq> [])
         ('' '' @ middle_dot @ '' role='' @ ms_role s @ '' trust_rung='' @ itoa (ms_trust_rung s))"

section \<open>The view\<close>

definition verify_offer :: string where "verify_offer = ''  verify: tuner features --verify=<feature>''"

definition verify_hint :: "view \<Rightarrow> string list" where
  "verify_hint v =
     (let served = list_ex (\<lambda>s. tool_features_verify \<in> set (ms_served s)) (vw_sources v)
      in if vw_rung v < 3 then [''  hint: advance to rung 3 to enable live verification'']
         else if \<not> served then [''  hint: '' @ tool_features_verify @ '' is not served by any source (declared absent)'']
         else [verify_offer])"

definition render_no_sources :: "view \<Rightarrow> string list" where
  "render_no_sources v =
     [''0 / 0 certified'', ''adhd-features: no sources''] @ (if vw_note v \<noteq> [] then [vw_note v] else [])
     @ [declared_absent_note]"

definition health_line :: "view \<Rightarrow> string" where
  "health_line v =
     ''cluster health: '' @ show_nat (su_certified (vw_summary v)) @ ''/'' @ show_nat (su_total (vw_summary v))
     @ '' features certified, '' @ show_nat (su_deterministic (vw_summary v)) @ ''/'' @ show_nat (su_skills (vw_summary v))
     @ '' skills deterministic'' @ opt_int ('' '' @ middle_dot @ '' 42i: '') (su_distance (vw_summary v)) []"

definition render_view :: "(f64 \<Rightarrow> int) \<Rightarrow> view \<Rightarrow> string list" where
  "render_view impl v =
     (if vw_status v = View_no_sources then render_no_sources v
      else
        [summary_line impl (vw_summary v), health_line v,
         ''rung '' @ itoa (vw_rung v) @ '' assigned by adhd '' @ middle_dot @ '' '' @ source_tally (vw_sources v)]
        @ (if vw_demo v then [''demo cluster: plaintext isotopes, not production evidence''] else [])
        @ (if vw_note v \<noteq> [] then [vw_note v] else [])
        @ [[], ''Gherkin Features'']
        @ (if vw_features v = [] then [''  (no feature entries released)''] else [])
        @ map render_feature (vw_features v)
        @ verify_hint v
        @ (if vw_skills v \<noteq> [] \<or> vw_unverified v > 0 then
             [[], ''Cluster Skills''] @ map render_skill (vw_skills v)
             @ (if vw_unverified v > 0
                then [''  '' @ itoa (vw_unverified v)
                        @ '' unverified skill(s) at rung 0 excluded (existence never confirmed)'']
                else [])
           else [])
        @ (if vw_members v \<noteq> [] then [[], ''Cluster Members''] @ map render_member (vw_members v) else [])
        @ [[], ''Sources''] @ map render_source (vw_sources v))"

definition render_verify :: "verify_result \<Rightarrow> string list" where
  "render_verify r =
     [vr_feature r @ '': '' @ vr_state r @ '' (probed via '' @ vr_source r @ '')'']
     @ (if vr_isotope r \<noteq> [] then [''  current isotope: '' @ vr_isotope r] else [])
     @ (if vr_probe_time r \<noteq> [] then [''  probe time: '' @ vr_probe_time r] else [])
     @ (if vr_note r \<noteq> [] then [''  note: '' @ vr_note r] else [])"

section \<open>Properties\<close>

lemma verify_hint_offer:
  "verify_hint v = [verify_offer] \<longleftrightarrow> 3 \<le> vw_rung v \<and> list_ex (\<lambda>s. tool_features_verify \<in> set (ms_served s)) (vw_sources v)"
  by (auto simp: verify_hint_def Let_def verify_offer_def)


lemma marker_prefix:
  "prefix (''  '' @ check_mark) (render_feature f) \<longleftrightarrow> ft_certified f \<and> \<not> ft_demo f"
  "prefix (''  '' @ hollow_mark) (render_feature f) \<longleftrightarrow> ft_certified f \<and> ft_demo f"
  by (auto simp: render_feature_def feature_marker_def check_mark_def hollow_mark_def middle_dot_def)

lemma render_view_features:
  "vw_status v \<noteq> View_no_sources \<Longrightarrow> f \<in> set (vw_features v) \<Longrightarrow> render_feature f \<in> set (render_view impl v)"
  by (simp add: render_view_def)

text \<open>What a reader takes for solid is real: every feature of the merged view has its line, drawn with
  the check mark exactly when some source that is no demo cluster certified it, and with the hollow
  mark exactly when it is certified by demo clusters only.\<close>

theorem solid_means_real:
  assumes "e \<in> set (vw_features (merge_results rs now))"
  shows "render_feature e \<in> set (render_view impl (merge_results rs now))
    \<and> prefix (''  '' @ check_mark) (render_feature e) = (\<exists>r \<in> set rs. certifies (feature_key e) r \<and> \<not> ms_demo (sr_src r))
    \<and> prefix (''  '' @ hollow_mark) (render_feature e) =
        ((\<exists>r \<in> set rs. certifies (feature_key e) r) \<and> (\<forall>r \<in> set rs. certifies (feature_key e) r \<longrightarrow> ms_demo (sr_src r)))"
proof -
  let ?st = "fold merge_result rs merge_init" and ?k = "feature_key e"
  obtain f where f: "entry_ok (reports rs) ?k f" "feature_key f = ?k" "e = finish_feature rs ?st (?k, f)"
    using assms by (rule view_feature)
  note fin = finish_feature_simps [of rs ?st ?k f, folded f(3)]
  have cert: "ft_certified e = (\<exists>r \<in> set rs. certifies ?k r)"
    using f(1) reports_certified [of rs ?k] fin(2) by (simp add: entry_ok_def)
  have demo: "ft_demo e = (ft_certified e \<and> (\<forall>r \<in> set rs. certifies ?k r \<longrightarrow> ms_demo (sr_src r)))"
    unfolding fin(2,4) merge_scalars using cert fin(2) by (auto simp: merge_init_def)
  have "render_feature e \<in> set (render_view impl (merge_results rs now))"
    by (rule render_view_features [OF merged_view_simps(3) assms])
  then show ?thesis unfolding marker_prefix using cert demo by blast
qed

theorem solid_means_real_witness:
  "prefix (''  '' @ hollow_mark) (render_feature sample_entry)"
  using solid_means_real [OF sample_entry_in] sample_entry_certified by blast

end
