(* ===== verification/SourceStatus.thy ===== *)
theory SourceStatus
  imports ChannelSource GoIo GoJson
begin

text \<open>
  The poll of a discovered source (\<open>Source.Status\<close> of \<open>internal/channelsource\<close>): one GET of the
  address the instance advertised, with a bound on what is read. The GET is an argument.
\<close>

definition status_limit :: nat where "status_limit = 2 ^ 20"

datatype status_error =
    No_endpoint string
  | Poll_failed string string
  | Status_unread string string
  | Unexpected_status string int
  | Not_json string

definition source_status :: "(string \<Rightarrow> string + http_response) \<Rightarrow> source \<Rightarrow> status_error + string" where
  "source_status http_get s =
     (if so_endpoint s = [] then Inl (No_endpoint (so_instance s))
      else case http_get (status_url s) of
        Inl e \<Rightarrow> Inl (Poll_failed (status_url s) e)
      | Inr r \<Rightarrow>
          (case limited status_limit r of
             (_, Some e) \<Rightarrow> Inl (Status_unread (status_url s) e)
           | (body, None) \<Rightarrow>
               if hr_code r \<noteq> 200 then Inl (Unexpected_status (status_url s) (hr_code r))
               else if \<not> json_valid body then Inl (Not_json (status_url s))
               else Inr body))"

text \<open>What comes back from a peer is bounded and well-formed, and comes from its own address.\<close>

lemma source_status_body:
  assumes "source_status http_get s = Inr body"
  shows "json_valid body" and "length body \<le> status_limit"
    and "\<exists>r. http_get (so_endpoint s @ ''/status'') = Inr r \<and> hr_code r = 200 \<and> body = take status_limit (hr_body r)"
  using assms
  by (auto simp: source_status_def limited_def status_url_def split: if_splits sum.splits option.splits)

lemma source_status_complete:
  "http_get (so_endpoint s @ ''/status'') = Inr \<lparr>hr_code = 200, hr_body = body, hr_broken = None\<rparr> \<Longrightarrow>
   so_endpoint s \<noteq> [] \<Longrightarrow> json_valid body \<Longrightarrow> length body \<le> status_limit \<Longrightarrow> source_status http_get s = Inr body"
  by (simp add: source_status_def limited_def status_url_def)

end
