(* ===== verification/Streams.thy ===== *)
theory Streams
  imports Notes Custom FeatureMerge "HOL-Library.Sublist"
begin

text \<open>
  The event streams of \<open>internal/server\<close>: what each of the four handlers writes, given what its
  polls return. A frame keeps its event name and its data; encoding is an argument where the
  handler compares or can lose an encoded value.
\<close>

section \<open>The polling loop\<close>

text \<open>
  The three data streams poll once at the start, then at each tick until the client has gone. An
  event of the loop is \<open>Some x\<close>, a tick whose poll returns \<open>x\<close>, or \<open>None\<close>, the client going.
\<close>

fun until_gone :: "'a option list \<Rightarrow> 'a list" where
  "until_gone [] = []"
| "until_gone (None # _) = []"
| "until_gone (Some x # evs) = x # until_gone evs"

datatype sse_frame =
    View_frame string
  | Item_frame string
  | Snapshot_frame string
  | Warning_frame string string
  | Connected_frame string
  | Heartbeat_frame time

section \<open>The certification view\<close>

text \<open>\<open>featureViewKey\<close>: the view without its times, encoded (\<open>""\<close> if it cannot be).\<close>

definition strip_times :: "view \<Rightarrow> view" where
  "strip_times v =
     v\<lparr>vw_fetched := zero_time, vw_sources := map (\<lambda>s. s\<lparr>ms_fetched := zero_time\<rparr>) (vw_sources v)\<rparr>"

definition feature_view_key :: "(view \<Rightarrow> string option) \<Rightarrow> view \<Rightarrow> string" where
  "feature_view_key enc v = (case enc (strip_times v) of None \<Rightarrow> [] | Some s \<Rightarrow> s)"

definition emit_if_changed :: "(view \<Rightarrow> string option) \<Rightarrow> (view \<Rightarrow> string option) \<Rightarrow> view \<Rightarrow>
    string \<times> sse_frame list \<Rightarrow> string \<times> sse_frame list" where
  "emit_if_changed enc enc_resp v st =
     (case st of (prev, out) \<Rightarrow>
        let key = feature_view_key enc v in
        if key = prev then (prev, out)
        else (key, out @ (case enc_resp v of None \<Rightarrow> [] | Some p \<Rightarrow> [View_frame p])))"

definition feature_stream :: "(view \<Rightarrow> string option) \<Rightarrow> (view \<Rightarrow> string option) \<Rightarrow> view \<Rightarrow> view option list \<Rightarrow> sse_frame list" where
  "feature_stream enc enc_resp first evs =
     snd (fold (emit_if_changed enc enc_resp) (first # until_gone evs) ([], []))"

section \<open>Notes\<close>

text \<open>The state: the identifiers announced so far.\<close>

definition announce_item :: "(item \<Rightarrow> string option) \<Rightarrow> item \<Rightarrow> string set \<times> sse_frame list \<Rightarrow> string set \<times> sse_frame list" where
  "announce_item enc it st =
     (case st of (seen, out) \<Rightarrow>
        if it_id it = [] \<or> it_id it \<in> seen then (seen, out)
        else (insert (it_id it) seen, out @ (case enc it of None \<Rightarrow> [] | Some p \<Rightarrow> [Item_frame p])))"

definition announce_feed :: "(item \<Rightarrow> string option) \<Rightarrow> notes_error + feed \<Rightarrow> string set \<times> sse_frame list \<Rightarrow> string set \<times> sse_frame list" where
  "announce_feed enc r st = (case r of Inl _ \<Rightarrow> st | Inr feed \<Rightarrow> fold (announce_item enc) (fd_items feed) st)"

definition notes_stream :: "(item \<Rightarrow> string option) \<Rightarrow> (notes_error \<Rightarrow> string) \<Rightarrow> string \<Rightarrow>
    notes_error + feed \<Rightarrow> (notes_error + feed) option list \<Rightarrow> sse_frame list" where
  "notes_stream enc text name first evs =
     (case first of Inl e \<Rightarrow> [Warning_frame name (text e)] | Inr _ \<Rightarrow> [])
     @ snd (fold (announce_feed enc) (first # until_gone evs) ({}, []))"

section \<open>Custom channels\<close>

definition emit_snapshot :: "(snapshot \<Rightarrow> string option) \<Rightarrow> (custom_error \<Rightarrow> string) \<Rightarrow> string \<Rightarrow>
    custom_error + snapshot \<Rightarrow> string option \<times> sse_frame list \<Rightarrow> string option \<times> sse_frame list" where
  "emit_snapshot enc text name r st =
     (case st of (prev, out) \<Rightarrow>
        (case r of
           Inl e \<Rightarrow> if e = No_data then (prev, out) else (prev, out @ [Warning_frame name (text e)])
         | Inr snap \<Rightarrow>
             (case enc snap of
                None \<Rightarrow> (prev, out)
              | Some p \<Rightarrow>
                  if p = (case prev of None \<Rightarrow> [] | Some l \<Rightarrow> l) then (prev, out)
                  else (Some p, out @ [Snapshot_frame p]))))"

definition custom_stream :: "(snapshot \<Rightarrow> string option) \<Rightarrow> (custom_error \<Rightarrow> string) \<Rightarrow> string \<Rightarrow>
    custom_error + snapshot \<Rightarrow> (custom_error + snapshot) option list \<Rightarrow> sse_frame list" where
  "custom_stream enc text name first evs =
     snd (fold (emit_snapshot enc text name) (first # until_gone evs) (None, []))"

section \<open>The generic stream\<close>

text \<open>
  \<open>handleChannelSSE\<close> ranges over its ticker and never looks at the request's context: a client that
  goes is no event of its loop.
\<close>

definition channel_stream :: "string \<Rightarrow> time option list \<Rightarrow> sse_frame list" where
  "channel_stream name evs = Connected_frame name # map Heartbeat_frame (List.map_filter id evs)"

section \<open>Properties\<close>

lemma until_gone_prefix: "until_gone evs = map the (takeWhile (\<lambda>e. e \<noteq> None) evs)"
  by (induction evs rule: until_gone.induct) simp_all

lemma until_gone_all: "until_gone (map Some xs) = xs"
  by (induction xs) simp_all

lemma until_gone_stops: "until_gone (map Some xs @ None # evs) = xs"
  by (induction xs) simp_all

lemma emit_if_changed_steps:
  "feature_view_key enc v = prev \<Longrightarrow> emit_if_changed enc enc_resp v (prev, out) = (prev, out)"
  "feature_view_key enc v \<noteq> prev \<Longrightarrow> enc_resp v = Some p \<Longrightarrow>
     emit_if_changed enc enc_resp v (prev, out) = (feature_view_key enc v, out @ [View_frame p])"
  by (simp_all add: emit_if_changed_def Let_def)

lemma announce_item_steps:
  "it_id it = [] \<or> it_id it \<in> seen \<Longrightarrow> announce_item enc it (seen, out) = (seen, out)"
  "it_id it \<noteq> [] \<Longrightarrow> it_id it \<notin> seen \<Longrightarrow> announce_item enc it (seen, out) =
     (insert (it_id it) seen, out @ (case enc it of None \<Rightarrow> [] | Some p \<Rightarrow> [Item_frame p]))"
  by (simp_all add: announce_item_def)

lemma emit_snapshot_step:
  "enc s = Some p \<Longrightarrow> p \<noteq> q \<Longrightarrow> emit_snapshot enc text name (Inr s) (Some q, out) = (Some p, out @ [Snapshot_frame p])"
  by (simp add: emit_snapshot_def)

lemma emit_changes_fold:
  assumes "\<And>v. v \<in> set vs \<Longrightarrow> \<exists>p. enc_resp v = Some p"
  shows "\<exists>ws. snd (fold (emit_if_changed enc enc_resp) vs (prev, out)) = out @ map (\<lambda>w. View_frame (the (enc_resp w))) ws
     \<and> subseq ws vs \<and> prev # map (feature_view_key enc) ws = remdups_adj (prev # map (feature_view_key enc) vs)"
  using assms
proof (induction vs arbitrary: prev out)
  case Nil
  then show ?case by (intro exI [of _ "[]"]) simp
next
  case (Cons v vs)
  let ?k = "feature_view_key enc v"
  obtain p where p: "enc_resp v = Some p" using Cons.prems by auto
  have rest: "\<exists>p. enc_resp w = Some p" if "w \<in> set vs" for w using Cons.prems that by simp
  show ?case
  proof (cases "?k = prev")
    case True
    obtain ws where "snd (fold (emit_if_changed enc enc_resp) vs (prev, out)) = out @ map (\<lambda>w. View_frame (the (enc_resp w))) ws"
      "subseq ws vs" "prev # map (feature_view_key enc) ws = remdups_adj (prev # map (feature_view_key enc) vs)"
      using Cons.IH [OF rest, of prev out] by blast
    then show ?thesis using True by (intro exI [of _ ws]) (auto simp: emit_if_changed_steps intro: list_emb_Cons)
  next
    case False
    obtain ws where "snd (fold (emit_if_changed enc enc_resp) vs (?k, out @ [View_frame p])) =
        (out @ [View_frame p]) @ map (\<lambda>w. View_frame (the (enc_resp w))) ws"
      "subseq ws vs" "?k # map (feature_view_key enc) ws = remdups_adj (?k # map (feature_view_key enc) vs)"
      using Cons.IH [OF rest, of ?k "out @ [View_frame p]"] by blast
    then show ?thesis using False p by (intro exI [of _ "v # ws"]) (simp add: emit_if_changed_steps)
  qed
qed



lemma announce_items_fold:
  "\<exists>ws. fold (announce_item enc) its (seen, out) =
       (seen \<union> (set (map it_id its) - {[]}), out @ concat (map (\<lambda>w. case enc w of None \<Rightarrow> [] | Some p \<Rightarrow> [Item_frame p]) ws))
     \<and> subseq ws its \<and> distinct (map it_id ws) \<and> set (map it_id ws) = set (map it_id its) - {[]} - seen"
proof (induction its arbitrary: seen out)
  case Nil
  then show ?case by (intro exI [of _ "[]"]) simp
next
  case (Cons it its)
  show ?case
  proof (cases "it_id it = [] \<or> it_id it \<in> seen")
    case True
    obtain ws where "fold (announce_item enc) its (seen, out) =
        (seen \<union> (set (map it_id its) - {[]}), out @ concat (map (\<lambda>w. case enc w of None \<Rightarrow> [] | Some p \<Rightarrow> [Item_frame p]) ws))"
      "subseq ws its" "distinct (map it_id ws)" "set (map it_id ws) = set (map it_id its) - {[]} - seen"
      using Cons.IH [of seen out] by blast
    then show ?thesis using True by (intro exI [of _ ws]) (auto simp: announce_item_steps)
  next
    case False
    let ?o = "case enc it of None \<Rightarrow> [] | Some p \<Rightarrow> [Item_frame p]"
    obtain ws where "fold (announce_item enc) its (insert (it_id it) seen, out @ ?o) =
        (insert (it_id it) seen \<union> (set (map it_id its) - {[]}),
         (out @ ?o) @ concat (map (\<lambda>w. case enc w of None \<Rightarrow> [] | Some p \<Rightarrow> [Item_frame p]) ws))"
      "subseq ws its" "distinct (map it_id ws)"
      "set (map it_id ws) = set (map it_id its) - {[]} - insert (it_id it) seen"
      using Cons.IH [of "insert (it_id it) seen" "out @ ?o"] by blast
    then show ?thesis using False by (intro exI [of _ "it # ws"]) (auto simp: announce_item_steps)
  qed
qed

text \<open>The items a sequence of polls brings, in order.\<close>

definition polled_items :: "(notes_error + feed) list \<Rightarrow> item list" where
  "polled_items rs = concat (map (case_sum (\<lambda>_. []) fd_items) rs)"

lemma announce_feeds_fold:
  "fold (announce_feed enc) rs st = fold (announce_item enc) (polled_items rs) st"
  by (induction rs arbitrary: st) (auto simp: polled_items_def announce_feed_def split: sum.split)

text \<open>C25: The notes stream announces each note once: the announced items are a subsequence of the items
  the polls brought, one for every identifier, in the order they first appeared. Items without an
  identifier, which the channel itself lists, are never announced.\<close>

theorem notes_stream_once:
  "\<exists>ws. notes_stream enc text name first evs =
       (case first of Inl e \<Rightarrow> [Warning_frame name (text e)] | Inr _ \<Rightarrow> [])
       @ concat (map (\<lambda>w. case enc w of None \<Rightarrow> [] | Some p \<Rightarrow> [Item_frame p]) ws)
     \<and> subseq ws (polled_items (first # until_gone evs))
     \<and> distinct (map it_id ws)
     \<and> set (map it_id ws) = set (map it_id (polled_items (first # until_gone evs))) - {[]}"
  using announce_items_fold [of enc "polled_items (first # until_gone evs)" "{}" "[]"]
  unfolding notes_stream_def announce_feeds_fold by auto

lemma emit_snapshots_fold:
  assumes "\<forall>s. \<exists>p. enc s = Some p \<and> p \<noteq> []"
    and "\<forall>s t. enc s = enc t \<longrightarrow> sn_fetched s = sn_fetched t"
    and "distinct (t # ts)"
  shows "snd (fold (emit_snapshot enc text name) (map (\<lambda>t. Inr (snap\<lparr>sn_fetched := t\<rparr>)) ts)
       (enc (snap\<lparr>sn_fetched := t\<rparr>), out)) =
     out @ map (\<lambda>t. Snapshot_frame (the (enc (snap\<lparr>sn_fetched := t\<rparr>)))) ts"
  using assms(3)
proof (induction ts arbitrary: t out)
  case (Cons u ts)
  obtain p where p: "enc (snap\<lparr>sn_fetched := u\<rparr>) = Some p" using assms(1) by blast
  obtain q where q: "enc (snap\<lparr>sn_fetched := t\<rparr>) = Some q" using assms(1) by blast
  have "u \<noteq> t" using Cons.prems by auto
  then have "enc (snap\<lparr>sn_fetched := u\<rparr>) \<noteq> enc (snap\<lparr>sn_fetched := t\<rparr>)"
    using assms(2) [rule_format, of "snap\<lparr>sn_fetched := u\<rparr>" "snap\<lparr>sn_fetched := t\<rparr>"] by auto
  then have "p \<noteq> q" using p q by simp
  then show ?case
    using Cons.IH [of u "out @ [Snapshot_frame p]"] Cons.prems p q by (simp add: emit_snapshot_step [of enc _ p q])
qed simp

text \<open>The stream of a custom channel announces more than changes: an encoded snapshot tells the time
  of its fetch, so every fetch is announced again although the source has not changed.\<close>

theorem custom_stream_repeats:
  assumes "\<forall>s. \<exists>p. enc s = Some p \<and> p \<noteq> []"
    and "\<forall>s t. enc s = enc t \<longrightarrow> sn_fetched s = sn_fetched t"
    and "distinct (t # ts)"
  shows "custom_stream enc text name (Inr (snap\<lparr>sn_fetched := t\<rparr>)) (map (\<lambda>t. Some (Inr (snap\<lparr>sn_fetched := t\<rparr>))) ts)
     = map (\<lambda>t. Snapshot_frame (the (enc (snap\<lparr>sn_fetched := t\<rparr>)))) (t # ts)"
proof -
  obtain p where p: "enc (snap\<lparr>sn_fetched := t\<rparr>) = Some p" "p \<noteq> []" using assms(1) by blast
  have polls: "until_gone (map (\<lambda>t. Some (Inr (snap\<lparr>sn_fetched := t\<rparr>))) ts) = map (\<lambda>t. Inr (snap\<lparr>sn_fetched := t\<rparr>)) ts" for ts
    by (induction ts) simp_all
  have "emit_snapshot enc text name (Inr (snap\<lparr>sn_fetched := t\<rparr>)) (None, []) =
      (enc (snap\<lparr>sn_fetched := t\<rparr>), [Snapshot_frame p])"
    using p by (simp add: emit_snapshot_def)
  then show ?thesis
    using emit_snapshots_fold [OF assms, of "text" name snap "[Snapshot_frame p]"] p
    by (simp add: custom_stream_def polls)
qed

text \<open>For the witness: an encoding that writes the fetch time in unary.\<close>

definition unary_times :: "snapshot \<Rightarrow> string option" where
  "unary_times s = Some ((if sn_fetched s < 0 then ''-'' else ''+'') @ replicate (nat \<bar>sn_fetched s\<bar>) (CHR ''1''))"

lemma unary_times_tells: "unary_times s = unary_times t \<Longrightarrow> sn_fetched s = sn_fetched t"
  by (simp add: unary_times_def split: if_split_asm)

theorem custom_stream_repeats_witness:
  "length (custom_stream unary_times (\<lambda>_. []) ''c'' (Inr (sample_snapshot\<lparr>sn_fetched := 1\<rparr>))
     [Some (Inr (sample_snapshot\<lparr>sn_fetched := 2\<rparr>))]) = 2"
proof -
  have total: "\<forall>s. \<exists>p. unary_times s = Some p \<and> p \<noteq> []" by (simp add: unary_times_def)
  have tells: "\<forall>s t. unary_times s = unary_times t \<longrightarrow> sn_fetched s = sn_fetched t" using unary_times_tells by blast
  have apart: "distinct [1, 2 :: int]" by simp
  have "length (custom_stream unary_times (\<lambda>_. []) ''c'' (Inr (sample_snapshot\<lparr>sn_fetched := 1\<rparr>))
     (map (\<lambda>t. Some (Inr (sample_snapshot\<lparr>sn_fetched := t\<rparr>))) [2])) = length [1, 2 :: int]"
    unfolding custom_stream_repeats [OF total tells apart] by (rule length_map)
  then show ?thesis by (simp only: list.map list.size)
qed


end
