(* ===== verification/Server.thy ===== *)
theory Server
  imports Streams SourceStatus FeatureSources GoFloat
begin

text \<open>
  Package \<open>internal/server\<close>: the state of the broadcast listener, its routes and its handlers. A
  request is a value; what the outside answers while it is handled (clock readings, files, HTTP,
  decoders) is an argument. A stream is named by the route and modelled in theory Streams.
\<close>

section \<open>Requests and responses\<close>

record request =
  hq_method :: string
  hq_path :: string
  hq_authorization :: string
  hq_remote :: string
  hq_body :: string
  hq_broken :: "string option"

datatype jval =
    J_str string
  | J_num int
  | J_time time
  | J_items "item list"
  | J_list "(string \<times> jval) list list"

datatype payload =
    Json "(string \<times> jval) list"
  | Snapshot_json snapshot
  | View_json string view
  | Raw_json string
  | Plain string

record response =
  rp_code :: int
  rp_headers :: "(string \<times> string) list"
  rp_body :: payload

datatype stream_route =
    Feature_stream
  | Notes_stream string string
  | Custom_stream info
  | Channel_stream string

datatype outcome = Respond response | Stream stream_route

definition write_json :: "payload \<Rightarrow> response" where
  "write_json p = \<lparr>rp_code = 200, rp_headers = [(''Content-Type'', ''application/json'')], rp_body = p\<rparr>"

definition http_error :: "string \<Rightarrow> int \<Rightarrow> (string \<times> string) list \<Rightarrow> response" where
  "http_error msg code headers =
     \<lparr>rp_code = code,
      rp_headers = headers @ [(''Content-Type'', ''text/plain; charset=utf-8''), (''X-Content-Type-Options'', ''nosniff'')],
      rp_body = Plain (msg @ [CHR 0x0A])\<rparr>"

section \<open>The server\<close>

record audience_metric =
  am_channel :: string
  am_count :: int
  am_signal :: f64
  am_metadata :: "(string \<times> string) list"
  am_updated :: time

record server =
  tn_cfg :: config
  tn_version :: string
  tn_start :: time
  tn_sources :: "registry option"
  tn_custom :: channel_set
  tn_audience :: "(string, audience_metric) gomap"
  tn_notes :: store
  tn_features :: feature_browser

definition new_server :: "config \<Rightarrow> string \<Rightarrow> registry option \<Rightarrow> time \<Rightarrow> server" where
  "new_server cfg version sources now =
     \<lparr>tn_cfg = cfg, tn_version = version, tn_start = now, tn_sources = sources,
      tn_custom = new_set (ch_custom (cf_channels cfg)), tn_audience = [],
      tn_notes = new_store (30 * second), tn_features = new_feature_browser (feature_refresh_duration cfg)\<rparr>"

text \<open>
  The outside of one request: the clock when it is handled, when a fetch is stamped and when it
  ends; what the sources of the channels answer; the network of the certification browser; the
  isotope endpoints of the moment; the decoders of the two posts; how errors read.
\<close>

record 'u server_env =
  se_now :: time
  se_stamp :: time
  se_finish :: time
  se_feeds :: notes_env
  se_outside :: "string \<Rightarrow> outside"
  se_fetch :: fetch_env
  se_stamps :: "mcp_source \<Rightarrow> time"
  se_urls :: "'u url_codec"
  se_isotopes :: "endpoint list option"
  se_http_get :: "string \<Rightarrow> string + http_response"
  se_caller :: "string \<Rightarrow> string option"
  se_metric :: "string \<Rightarrow> string + audience_metric"
  se_custom_text :: "custom_error \<Rightarrow> string"
  se_notes_text :: "notes_error \<Rightarrow> string"
  se_uptime :: "duration \<Rightarrow> string"
  se_format_time :: "time \<Rightarrow> string"

definition channel_source :: "server \<Rightarrow> string \<Rightarrow> source option" where
  "channel_source s name = (case tn_sources s of None \<Rightarrow> None | Some r \<Rightarrow> get_source r name)"

definition registered_sources :: "server \<Rightarrow> source list" where
  "registered_sources s = (case tn_sources s of None \<Rightarrow> [] | Some r \<Rightarrow> list_sources r)"

definition server_feature_sources :: "'u server_env \<Rightarrow> server \<Rightarrow> mcp_source list" where
  "server_feature_sources env s =
     (let discovered = (case se_isotopes env of None \<Rightarrow> [] | Some eps \<Rightarrow> discovered_sources (se_urls env) eps);
          configured = config_sources (se_urls env) (fb_endpoints (cf_features (tn_cfg s)))
      in source_set discovered configured)"

definition notes_source :: "server \<Rightarrow> string \<Rightarrow> string option" where
  "notes_source s name = map_option nc_source (find (\<lambda>n. nc_name n = name) (ch_notes (cf_channels (tn_cfg s))))"

definition feature_channel_name :: string where "feature_channel_name = ''adhd-features''"

section \<open>Health and listing\<close>

definition handle_healthz :: "'u server_env \<Rightarrow> response" where
  "handle_healthz env =
     write_json (Json [(''status'', J_str ''ok''), (''time'', J_str (se_format_time env (se_now env)))])"

definition handle_readyz :: "server \<Rightarrow> response" where
  "handle_readyz s = write_json (Json [(''status'', J_str ''ready''), (''mode'', J_str (cf_mode (tn_cfg s)))])"

definition channel_count :: "server \<Rightarrow> nat" where
  "channel_count s =
     (let c = cf_channels (tn_cfg s)
      in length (ch_preset c) + length (ch_custom c) + length (ch_notes c) + 1 + length (registered_sources s))"

definition handle_status :: "'u server_env \<Rightarrow> server \<Rightarrow> response" where
  "handle_status env s =
     write_json (Json
       [(''service'', J_str ''tuner''), (''version'', J_str (tn_version s)), (''mode'', J_str (cf_mode (tn_cfg s))),
        (''uptime'', J_str (se_uptime env (time_sub (se_now env) (tn_start s)))),
        (''channels'', J_num (int (channel_count s))), (''audience'', J_num (int (length (tn_audience s))))])"

definition custom_entry :: "'u server_env \<Rightarrow> server \<Rightarrow> custom_channel \<Rightarrow> (string \<times> jval) list" where
  "custom_entry env s c =
     [(''name'', J_str (cu_name c)), (''type'', J_str ''custom''), (''source'', J_str (sc_type (cu_source c)))]
     @ (case config_error (tn_custom s) (cu_name c) of
          None \<Rightarrow> []
        | Some e \<Rightarrow> [(''status'', J_str ''misconfigured''), (''error'', J_str (se_custom_text env e))])"

definition channel_entries :: "'u server_env \<Rightarrow> server \<Rightarrow> (string \<times> jval) list list" where
  "channel_entries env s =
     map (\<lambda>p. [(''name'', J_str (pc_name p)), (''type'', J_str ''preset'')]) (ch_preset (cf_channels (tn_cfg s)))
     @ map (custom_entry env s) (ch_custom (cf_channels (tn_cfg s)))
     @ map (\<lambda>n. [(''name'', J_str (nc_name n)), (''type'', J_str ''notes''), (''source'', J_str (nc_source n))])
         (ch_notes (cf_channels (tn_cfg s)))
     @ [[(''name'', J_str feature_channel_name), (''type'', J_str ''adhd-features''), (''source'', J_str ''adhd-mcp'')]]
     @ map (\<lambda>src. [(''name'', J_str (so_instance src)), (''type'', J_str ''discovered''),
              (''endpoint'', J_str (so_endpoint src)), (''status_url'', J_str (status_url src))]) (registered_sources s)"

definition handle_list_channels :: "'u server_env \<Rightarrow> server \<Rightarrow> response" where
  "handle_list_channels env s = write_json (Json [(''channels'', J_list (channel_entries env s))])"

section \<open>Paths\<close>

definition action_suffixes :: "string list" where
  "action_suffixes = [''/sse'', ''/status'', ''/caller'', ''/audience'', ''/ingest'']"

definition split_channel_path :: "string \<Rightarrow> string \<times> string" where
  "split_channel_path path0 =
     (let path = trim_prefix ''/channels/'' path0 in
      case find (\<lambda>sfx. suffix sfx path) action_suffixes of
        Some sfx \<Rightarrow> (trim_suffix sfx path, trim_prefix ''/'' sfx)
      | None \<Rightarrow> (path, []))"

section \<open>The handlers of one channel\<close>

definition handle_channel_status :: "'u server_env \<Rightarrow> server \<Rightarrow> string \<Rightarrow> response" where
  "handle_channel_status env s name =
     (case channel_source s name of
        None \<Rightarrow> http_error (''unknown discovered channel: '' @ name) 404 []
      | Some src \<Rightarrow>
          (case source_status (se_http_get env) src of
             Inl _ \<Rightarrow> http_error ''channel source unavailable'' 502 []
           | Inr body \<Rightarrow> write_json (Raw_json body)))"

definition handle_notes :: "'u server_env \<Rightarrow> string \<Rightarrow> string \<Rightarrow> server \<Rightarrow> server \<times> response" where
  "handle_notes env name src s =
     (case store_get name (se_now env) (se_finish env) (read_feed (se_feeds env) (se_stamp env) src) (tn_notes s) of
        (st, Inl e) \<Rightarrow>
          (s\<lparr>tn_notes := st\<rparr>,
           write_json (Json [(''channel'', J_str name), (''type'', J_str ''notes''), (''error'', J_str (se_notes_text env e))]))
      | (st, Inr feed) \<Rightarrow>
          (s\<lparr>tn_notes := st\<rparr>,
           write_json (Json [(''channel'', J_str name), (''type'', J_str ''notes''), (''title'', J_str (fd_title feed)),
             (''items'', J_items (fd_items feed)), (''count'', J_num (int (length (fd_items feed)))),
             (''fetched'', J_time (fd_fetched feed))])))"

definition handle_custom_snapshot :: "'u server_env \<Rightarrow> info \<Rightarrow> server \<Rightarrow> server \<times> response" where
  "handle_custom_snapshot env ci s =
     (case set_snapshot (in_name ci) (se_now env) (se_stamp env) (se_finish env) (se_outside env (in_name ci)) (tn_custom s) of
        (cs, Inl e) \<Rightarrow>
          (s\<lparr>tn_custom := cs\<rparr>,
           if e = No_data then
             write_json (Json [(''channel'', J_str (in_name ci)), (''type'', J_str (in_type ci)), (''status'', J_str ''waiting'')])
           else \<lparr>rp_code = 502, rp_headers = [(''Content-Type'', ''application/json'')],
                 rp_body = Json [(''channel'', J_str (in_name ci)), (''type'', J_str (in_type ci)),
                   (''status'', J_str ''error''), (''error'', J_str (se_custom_text env e))]\<rparr>)
      | (cs, Inr snap) \<Rightarrow> (s\<lparr>tn_custom := cs\<rparr>, write_json (Snapshot_json snap)))"

section \<open>Ingest\<close>

definition token_matches :: "request \<Rightarrow> string \<Rightarrow> bool" where
  "token_matches r token =
     (case cut_prefix ''Bearer '' (hq_authorization r) of None \<Rightarrow> False | Some got \<Rightarrow> trim_space got = token)"

definition is_loopback_peer :: "request \<Rightarrow> bool" where
  "is_loopback_peer r =
     (let host = (case split_host_port (hq_remote r) of Some (h, _) \<Rightarrow> h | None \<Rightarrow> hq_remote r)
      in case parse_ip host of Some ip \<Rightarrow> ip_is_loopback ip | None \<Rightarrow> False)"

text \<open>\<open>http.MaxBytesReader\<close>: more than the limit is an error before the body's own.\<close>

definition read_request_body :: "request \<Rightarrow> string + string" where
  "read_request_body r =
     (if length (hq_body r) > max_body then Inl ''http: request body too large''
      else case hq_broken r of Some e \<Rightarrow> Inl e | None \<Rightarrow> Inr (hq_body r))"

definition handle_custom_ingest :: "'u server_env \<Rightarrow> request \<Rightarrow> info \<Rightarrow> server \<Rightarrow> server \<times> response" where
  "handle_custom_ingest env r ci s =
     (if in_type ci \<noteq> source_webhook then
        (s, http_error (''channel '' @ in_name ci @ '' is a '' @ in_type ci @ '' channel, not webhook'') 405 [])
      else if hq_method r \<noteq> ''POST'' then (s, http_error ''method not allowed'' 405 [(''Allow'', ''POST'')])
      else if in_token ci \<noteq> [] \<and> \<not> token_matches r (in_token ci) then
        (s, http_error ''ingest refused: a bearer token is required for this channel'' 401
              [(''WWW-Authenticate'', ''Bearer realm='' @ [CHR 0x22] @ ''tuner'' @ [CHR 0x22])])
      else if in_token ci = [] \<and> \<not> is_loopback_peer r then
        (s, http_error (''ingest refused: channel '' @ in_name ci
              @ '' has no auth token and accepts pushes from loopback only'') 403 [])
      else case read_request_body r of
        Inl e \<Rightarrow> (s, http_error (''read body: '' @ e) 413 [])
      | Inr body \<Rightarrow>
          (case ingest (in_name ci) (se_stamp env) (se_finish env) body (tn_custom s) of
             (cs, Inl e) \<Rightarrow> (s\<lparr>tn_custom := cs\<rparr>, http_error (se_custom_text env e) 400 [])
           | (cs, Inr snap) \<Rightarrow> (s\<lparr>tn_custom := cs\<rparr>, write_json (Snapshot_json snap))))"

section \<open>Callers and audience\<close>

definition handle_caller :: "'u server_env \<Rightarrow> request \<Rightarrow> string \<Rightarrow> response" where
  "handle_caller env r name =
     (if hq_method r \<noteq> ''POST'' then http_error ''method not allowed'' 405 []
      else case se_caller env (hq_body r) of
        Some e \<Rightarrow> http_error e 400 []
      | None \<Rightarrow> write_json (Json [(''status'', J_str ''received''), (''channel'', J_str name)]))"

definition handle_audience :: "'u server_env \<Rightarrow> request \<Rightarrow> string \<Rightarrow> server \<Rightarrow> server \<times> response" where
  "handle_audience env r name s =
     (if hq_method r \<noteq> ''POST'' then (s, http_error ''method not allowed'' 405 [])
      else case se_metric env (hq_body r) of
        Inl e \<Rightarrow> (s, http_error e 400 [])
      | Inr m \<Rightarrow>
          (s\<lparr>tn_audience := gm_put name (m\<lparr>am_channel := name, am_updated := se_now env\<rparr>) (tn_audience s)\<rparr>,
           write_json (Json [(''status'', J_str ''ok'')])))"

section \<open>Routing\<close>

definition handle_features :: "'u server_env \<Rightarrow> server \<Rightarrow> server \<times> response" where
  "handle_features env s =
     (case view_get (se_now env) (se_finish env)
             (Inr (fetch_view (se_fetch env) (se_stamp env) (se_stamps env) (server_feature_sources env s))) (tn_features s) of
        (b, Inr v) \<Rightarrow> (s\<lparr>tn_features := b\<rparr>, write_json (View_json feature_channel_name v))
      | (b, Inl _) \<Rightarrow> (s\<lparr>tn_features := b\<rparr>, write_json (Json [])))"

definition discovered_info :: "string \<Rightarrow> source \<Rightarrow> (string \<times> jval) list" where
  "discovered_info name src =
     [(''channel'', J_str name), (''type'', J_str ''discovered''), (''status'', J_str ''available''),
      (''instance'', J_str (so_instance src)), (''endpoint'', J_str (so_endpoint src)), (''status_url'', J_str (status_url src)),
      (''role'', J_str (so_role src)), (''trust_rung'', J_num (so_rung src)),
      (''discovered_at'', J_time (so_discovered_at src)), (''last_seen'', J_time (so_last_seen src))]"

text \<open>The shared routes, for the names and actions no channel handles itself.\<close>

definition handle_shared :: "'u server_env \<Rightarrow> request \<Rightarrow> string \<Rightarrow> string \<Rightarrow> server \<Rightarrow> server \<times> outcome" where
  "handle_shared env r name action s =
     (if action = ''sse'' then (s, Stream (Channel_stream name))
      else if action = ''ingest'' then (s, Respond (http_error (''no webhook channel named '' @ name) 404 []))
      else if action = ''status'' then (s, Respond (handle_channel_status env s name))
      else if action = ''caller'' then (s, Respond (handle_caller env r name))
      else if action = ''audience'' then map_prod id Respond (handle_audience env r name s)
      else case channel_source s name of
        Some src \<Rightarrow> (s, Respond (write_json (Json (discovered_info name src))))
      | None \<Rightarrow> (s, Respond (write_json (Json [(''channel'', J_str name), (''status'', J_str ''available'')]))))"

definition handle_channel :: "'u server_env \<Rightarrow> request \<Rightarrow> server \<Rightarrow> server \<times> outcome" where
  "handle_channel env r s =
     (case split_channel_path (hq_path r) of
        (name, action) \<Rightarrow>
          if name = feature_channel_name \<and> action = [] then map_prod id Respond (handle_features env s)
          else if name = feature_channel_name \<and> action = ''sse'' then (s, Stream Feature_stream)
          else
            (case (if action = [] \<or> action = ''sse'' then notes_source s name else None) of
               Some src \<Rightarrow>
                 if action = ''sse'' then (s, Stream (Notes_stream name src))
                 else map_prod id Respond (handle_notes env name src s)
             | None \<Rightarrow>
                 (case channel_info (tn_custom s) name of
                    None \<Rightarrow> handle_shared env r name action s
                  | Some ci \<Rightarrow>
                      if action = [] then map_prod id Respond (handle_custom_snapshot env ci s)
                      else if action = ''sse'' then (s, Stream (Custom_stream ci))
                      else if action = ''ingest'' then map_prod id Respond (handle_custom_ingest env r ci s)
                      else handle_shared env r name action s)))"

section \<open>Stream intervals\<close>

definition feature_poll_interval :: "server \<Rightarrow> duration" where
  "feature_poll_interval s =
     (let interval = feature_refresh_duration (tn_cfg s) in if interval < 2 * second then 2 * second else interval)"

section \<open>Paths and listings\<close>

lemma split_path:
  "split_channel_path (''/channels/'' @ path) =
     (case find (\<lambda>sfx. suffix sfx path) action_suffixes of
        Some sfx \<Rightarrow> (trim_suffix sfx path, trim_prefix ''/'' sfx) | None \<Rightarrow> (path, []))"
proof -
  have "trim_prefix ''/channels/'' (''/channels/'' @ path) = path" by (simp add: trim_prefix_def)
  then show ?thesis by (simp only: split_channel_path_def Let_def)
qed

lemma find_action:
  assumes "a \<in> set action_suffixes"
  shows "find (\<lambda>sfx. suffix sfx (name @ a)) action_suffixes = Some a"
proof -
  have "a = ''/sse'' \<or> a = ''/status'' \<or> a = ''/caller'' \<or> a = ''/audience'' \<or> a = ''/ingest''"
    using assms by (simp add: action_suffixes_def)
  then show ?thesis
    by (elim disjE; hypsubst; simp add: action_suffixes_def suffix_to_prefix)
qed

lemma split_action:
  assumes "''/'' @ a \<in> set action_suffixes"
  shows "split_channel_path (''/channels/'' @ name @ ''/'' @ a) = (name, a)"
proof -
  have "trim_prefix ''/'' (''/'' @ a) = a" by (simp add: trim_prefix_def)
  then show ?thesis
    unfolding split_path find_action [OF assms] option.case trim_suffix_append by simp
qed

text \<open>Every channel keeps its routes: whatever its name, each action's path leads back to the name
  and the action; and the channel's own path leads to it exactly when its name does not itself end
  like an action.\<close>

theorem channel_paths_split:
  "list_all (\<lambda>a. split_channel_path (''/channels/'' @ name @ ''/'' @ a) = (name, a))
     [''sse'', ''status'', ''caller'', ''audience'', ''ingest'']
   \<and> (split_channel_path (''/channels/'' @ name) = (name, [])) = (\<not> list_ex (\<lambda>sfx. suffix sfx name) action_suffixes)"
proof -
  have "(split_channel_path (''/channels/'' @ name) = (name, [])) = (\<not> list_ex (\<lambda>sfx. suffix sfx name) action_suffixes)"
  proof (cases "find (\<lambda>sfx. suffix sfx name) action_suffixes")
    case None
    then have "\<not> list_ex (\<lambda>sfx. suffix sfx name) action_suffixes" by (simp add: find_None_iff list_ex_iff)
    with None show ?thesis by (simp only: split_path option.case) simp
  next
    case (Some sfx)
    then have sfx: "sfx \<in> set action_suffixes" "suffix sfx name" by (auto simp: find_Some_iff)
    then have "trim_prefix ''/'' sfx \<noteq> []" by (auto simp: action_suffixes_def trim_prefix_def)
    then have "split_channel_path (''/channels/'' @ name) \<noteq> (name, [])"
      by (simp only: split_path Some option.case prod.inject) simp
    moreover have "list_ex (\<lambda>sfx. suffix sfx name) action_suffixes" using sfx by (auto simp: list_ex_iff)
    ultimately show ?thesis by simp
  qed
  moreover have "list_all (\<lambda>a. split_channel_path (''/channels/'' @ name @ ''/'' @ a) = (name, a))
     [''sse'', ''status'', ''caller'', ''audience'', ''ingest'']"
  proof (unfold list_all_iff, intro ballI)
    fix a assume "a \<in> set [''sse'', ''status'', ''caller'', ''audience'', ''ingest'']"
    then have "''/'' @ a \<in> set action_suffixes" by (auto simp: action_suffixes_def)
    then show "split_channel_path (''/channels/'' @ name @ ''/'' @ a) = (name, a)" by (rule split_action)
  qed
  ultimately show ?thesis by (rule conjI [rotated])
qed

lemma new_server_custom:
  assumes "distinct (map cu_name chs)" and "c \<in> set chs" and "cu_name c \<noteq> []"
  shows "gm_get (new_set chs) (cu_name c) = Some (new_channel c)"
  using new_set_get [OF assms(3), of chs "[]"] find_rev_distinct [OF assms(1,2)] by (simp add: new_set_def)

text \<open>The directory is honest: the status document counts exactly the listed channels; a custom
  channel is marked misconfigured exactly when its configuration does not check, and such a channel
  answers 502 whatever its source would say.\<close>

theorem listing_honest:
  assumes "distinct (map cu_name (ch_custom (cf_channels cfg)))" and "c \<in> set (ch_custom (cf_channels cfg))"
    and "cu_name c \<noteq> []"
  shows "length (channel_entries env (new_server cfg ver srcs t)) = channel_count (new_server cfg ver srcs t)
    \<and> custom_entry env (new_server cfg ver srcs t) c \<in> set (channel_entries env (new_server cfg ver srcs t))
    \<and> (map_of (custom_entry env (new_server cfg ver srcs t) c) ''status'' = Some (J_str ''misconfigured'')) = (check_channel c \<noteq> None)
    \<and> (check_channel c \<noteq> None \<longrightarrow>
         rp_code (snd (handle_custom_snapshot env' (cc_info (new_channel c)) (new_server cfg ver srcs t))) \<in> {502})"
proof -
  let ?s = "new_server cfg ver srcs t"
  have get: "gm_get (tn_custom ?s) (cu_name c) = Some (new_channel c)"
    using new_server_custom [OF assms] by (simp add: new_server_def)
  have "length (channel_entries env ?s) = channel_count ?s"
    by (simp add: channel_entries_def channel_count_def Let_def)
  moreover have "custom_entry env ?s c \<in> set (channel_entries env ?s)"
    using assms(2) by (simp add: channel_entries_def new_server_def)
  moreover have "(map_of (custom_entry env ?s c) ''status'' = Some (J_str ''misconfigured'')) = (check_channel c \<noteq> None)"
    using get by (cases "check_channel c") (simp_all add: custom_entry_def config_error_def new_channel_def)
  moreover have "rp_code (snd (handle_custom_snapshot env' (cc_info (new_channel c)) ?s)) = 502" if "check_channel c = Some e" for e
  proof -
    have n: "in_name (cc_info (new_channel c)) = cu_name c" by (simp add: new_channel_def)
    have "set_snapshot (cu_name c) now stamp fin out (tn_custom ?s) = (gm_put (cu_name c) (new_channel c) (tn_custom ?s), Inl e)"
      for now stamp fin out
      using get that by (simp add: set_snapshot_def channel_snapshot_def channel_get_def) (simp add: new_channel_def)
    moreover have "e \<noteq> No_data"
      using that by (auto simp: check_channel_def check_refresh_def Let_def split: if_splits option.splits)
    ultimately show ?thesis by (simp add: handle_custom_snapshot_def n)
  qed
  ultimately show ?thesis by auto
qed

section \<open>The state of a serving process\<close>

text \<open>
  Well-formed: custom channels are filed under their own names, audience reports under the channel
  they are about.
\<close>

definition server_ok :: "server \<Rightarrow> bool" where
  "server_ok s \<longleftrightarrow>
     (\<forall>k c. gm_get (tn_custom s) k = Some c \<longrightarrow> in_name (cc_info c) = k)
     \<and> gm_wf (tn_audience s) \<and> (\<forall>k m. gm_get (tn_audience s) k = Some m \<longrightarrow> am_channel m = k)"

text \<open>What a request may not change.\<close>

definition same_setup :: "server \<Rightarrow> server \<Rightarrow> bool" where
  "same_setup s s' \<longleftrightarrow> tn_cfg s' = tn_cfg s \<and> tn_sources s' = tn_sources s \<and> tn_version s' = tn_version s
     \<and> (\<forall>k. map_option cc_info (gm_get (tn_custom s') k) = map_option cc_info (gm_get (tn_custom s) k))
     \<and> (\<forall>k. map_option cc_err (gm_get (tn_custom s') k) = map_option cc_err (gm_get (tn_custom s) k))"

lemma same_setup_refl [simp]: "same_setup s s"
  by (simp add: same_setup_def)

lemma same_setup_trans: "same_setup s s' \<Longrightarrow> same_setup s' s'' \<Longrightarrow> same_setup s s''"
  by (simp add: same_setup_def)

lemma channel_get_setup:
  "cc_info (fst (channel_get now finish r ch)) = cc_info ch \<and> cc_err (fst (channel_get now finish r ch)) = cc_err ch"
  by (auto simp: channel_get_def Let_def split: option.split sum.split)

lemma set_snapshot_setup:
  "map_option cc_info (gm_get (fst (set_snapshot name now stamp finish out cs)) k) = map_option cc_info (gm_get cs k)
   \<and> map_option cc_err (gm_get (fst (set_snapshot name now stamp finish out cs)) k) = map_option cc_err (gm_get cs k)"
  using channel_get_setup by (auto simp: set_snapshot_def channel_snapshot_def case_prod_unfold split: option.split)

lemma ingest_setup:
  "map_option cc_info (gm_get (fst (ingest name stamp finish body cs)) k) = map_option cc_info (gm_get cs k)
   \<and> map_option cc_err (gm_get (fst (ingest name stamp finish body cs)) k) = map_option cc_err (gm_get cs k)"
  by (auto simp: ingest_def Let_def split: option.split)

lemma setup_named:
  assumes "\<forall>k. map_option cc_info (gm_get cs' k) = map_option cc_info (gm_get cs k)"
    and "\<forall>k c. gm_get cs k = Some c \<longrightarrow> in_name (cc_info c) = k"
  shows "\<forall>k c. gm_get cs' k = Some c \<longrightarrow> in_name (cc_info c) = k"
proof (intro allI impI)
  fix k c
  assume "gm_get cs' k = Some c"
  then have "map_option cc_info (gm_get cs k) = Some (cc_info c)" using assms(1) by (metis option.simps(9))
  then obtain z where z: "gm_get cs k = Some z" "cc_info z = cc_info c" by auto
  have "in_name (cc_info z) = k" using assms(2) z(1) by blast
  then show "in_name (cc_info c) = k" using z(2) by simp
qed

text \<open>What each state-changing handler does to the state.\<close>

lemma handler_effects:
  "fst (handle_features env s) = s\<lparr>tn_features := tn_features (fst (handle_features env s))\<rparr>"
  "fst (handle_notes env name src s) = s\<lparr>tn_notes := tn_notes (fst (handle_notes env name src s))\<rparr>"
  "fst (handle_custom_snapshot env ci s) = s\<lparr>tn_custom := fst (set_snapshot (in_name ci) (se_now env) (se_stamp env)
     (se_finish env) (se_outside env (in_name ci)) (tn_custom s))\<rparr>"
  by (simp_all add: handle_features_def handle_notes_def handle_custom_snapshot_def split: prod.split sum.split)

lemma ingest_effect:
  "fst (handle_custom_ingest env r ci s) \<in>
     {s, s\<lparr>tn_custom := fst (ingest (in_name ci) (se_stamp env) (se_finish env) (hq_body r) (tn_custom s))\<rparr>}"
proof (cases "read_request_body r")
  case (Inl e)
  then show ?thesis unfolding handle_custom_ingest_def by (simp only: Inl sum.case fst_conv if_cancel insert_iff split: if_split) simp
next
  case (Inr body)
  then have body: "body = hq_body r" by (simp add: read_request_body_def split: if_split_asm option.split_asm)
  obtain cs res where run: "ingest (in_name ci) (se_stamp env) (se_finish env) (hq_body r) (tn_custom s) = (cs, res)"
    by (cases "ingest (in_name ci) (se_stamp env) (se_finish env) (hq_body r) (tn_custom s)")
  show ?thesis
    unfolding handle_custom_ingest_def Inr body sum.case run prod.case fst_conv
    by (cases res) (simp_all only: sum.case fst_conv insert_iff split: if_split, simp_all)
qed

lemma audience_effect:
  "fst (handle_audience env r name s) = s
   \<or> (hq_method r = ''POST'' \<and> (\<exists>m. se_metric env (hq_body r) = Inr m \<and> fst (handle_audience env r name s) =
        s\<lparr>tn_audience := gm_put name (m\<lparr>am_channel := name, am_updated := se_now env\<rparr>) (tn_audience s)\<rparr>))"
  by (auto simp: handle_audience_def split: sum.split)

text \<open>Where a request can lead.\<close>

lemma handle_channel_effect:
  obtains (same) "fst (handle_channel env r s) = s"
  | (features) b where "fst (handle_channel env r s) = s\<lparr>tn_features := b\<rparr>"
  | (feed) st where "fst (handle_channel env r s) = s\<lparr>tn_notes := st\<rparr>"
  | (snapshot) name ci where "gm_get (tn_custom s) name \<noteq> None" "channel_info (tn_custom s) name = Some ci"
      "fst (handle_channel env r s) = fst (handle_custom_snapshot env ci s)"
  | (push) name ci where "split_channel_path (hq_path r) = (name, ''ingest'')" "channel_info (tn_custom s) name = Some ci"
      "fst (handle_channel env r s) = fst (handle_custom_ingest env r ci s)"
  | (report) name where "split_channel_path (hq_path r) = (name, ''audience'')"
      "fst (handle_channel env r s) = fst (handle_audience env r name s)"
proof -
  obtain name action where split: "split_channel_path (hq_path r) = (name, action)" by fastforce
  have shared: thesis if eff: "fst (handle_channel env r s) = fst (handle_shared env r name action s)"
  proof (cases "action = ''audience''")
    case True
    have "fst (handle_shared env r name action s) = fst (handle_audience env r name s)"
      by (simp add: handle_shared_def True)
    then show thesis using report [of name] split True eff by simp
  next
    case False
    then have "fst (handle_shared env r name action s) = s"
      by (simp add: handle_shared_def split: option.split)
    then show thesis using same eff by simp
  qed
  show thesis
  proof (cases "name = feature_channel_name \<and> (action = [] \<or> action = ''sse'')")
    case True
    then have "fst (handle_channel env r s) = fst (handle_features env s) \<or> fst (handle_channel env r s) = s"
      using split by (auto simp: handle_channel_def)
    then show thesis using same features handler_effects(1) [of env s] by metis
  next
    case feat: False
    define src where "src = (if action = [] \<or> action = ''sse'' then notes_source s name else None)"
    have rest: "handle_channel env r s =
        (case src of
           Some src \<Rightarrow>
             if action = ''sse'' then (s, Stream (Notes_stream name src)) else map_prod id Respond (handle_notes env name src s)
         | None \<Rightarrow>
             (case channel_info (tn_custom s) name of
                None \<Rightarrow> handle_shared env r name action s
              | Some ci \<Rightarrow>
                  if action = [] then map_prod id Respond (handle_custom_snapshot env ci s)
                  else if action = ''sse'' then (s, Stream (Custom_stream ci))
                  else if action = ''ingest'' then map_prod id Respond (handle_custom_ingest env r ci s)
                  else handle_shared env r name action s))"
      using feat split by (auto simp: handle_channel_def src_def)
    show thesis
    proof (cases src)
      case (Some src')
      then have "fst (handle_channel env r s) = s \<or> fst (handle_channel env r s) = fst (handle_notes env name src' s)"
        using rest by simp
      then show thesis using same feed handler_effects(2) [of env name src' s] by metis
    next
      case none: None
      show thesis
      proof (cases "channel_info (tn_custom s) name")
        case None
        then show thesis using rest none shared by simp
      next
        case (Some ci)
        note rest = rest [unfolded none Some option.case]
        have here: "gm_get (tn_custom s) name \<noteq> None" using Some by (auto simp: channel_info_def)
        consider "action = []" | "action = ''sse''" | "action = ''ingest''"
          | "action \<noteq> []" "action \<noteq> ''sse''" "action \<noteq> ''ingest''" by blast
        then show thesis
        proof cases
          case 1
          then show thesis using rest snapshot [OF here Some] by simp
        next
          case 2
          then show thesis using rest same by simp
        next
          case 3
          then show thesis using rest push [OF _ Some] split by simp
        next
          case 4
          then show thesis using rest shared by simp
        qed
      qed
    qed
  qed
qed

lemma custom_update_ok:
  assumes "\<And>k. map_option cc_info (gm_get cs k) = map_option cc_info (gm_get (tn_custom s) k)
      \<and> map_option cc_err (gm_get cs k) = map_option cc_err (gm_get (tn_custom s) k)"
  shows "same_setup s (s\<lparr>tn_custom := cs\<rparr>) \<and> (server_ok s \<longrightarrow> server_ok (s\<lparr>tn_custom := cs\<rparr>))"
proof (intro conjI impI)
  show "same_setup s (s\<lparr>tn_custom := cs\<rparr>)" using assms by (simp add: same_setup_def)
next
  assume ok: "server_ok s"
  have "\<forall>k c. gm_get cs k = Some c \<longrightarrow> in_name (cc_info c) = k"
    by (rule setup_named [of cs "tn_custom s"]) (use assms ok in \<open>blast, unfold server_ok_def, blast\<close>)
  moreover have t: "tn_custom (s\<lparr>tn_custom := cs\<rparr>) = cs" "tn_audience (s\<lparr>tn_custom := cs\<rparr>) = tn_audience s" by simp_all
  ultimately show "server_ok (s\<lparr>tn_custom := cs\<rparr>)" using ok unfolding server_ok_def t by blast
qed

lemma step_setup:
  "same_setup s (fst (handle_channel env r s)) \<and> (server_ok s \<longrightarrow> server_ok (fst (handle_channel env r s)))"
proof (cases rule: handle_channel_effect [of env r s])
  case same
  then show ?thesis by simp
next
  case (features b)
  then show ?thesis by (simp add: same_setup_def server_ok_def)
next
  case (feed st)
  then show ?thesis by (simp add: same_setup_def server_ok_def)
next
  case (snapshot name ci)
  let ?cs = "fst (set_snapshot (in_name ci) (se_now env) (se_stamp env) (se_finish env) (se_outside env (in_name ci)) (tn_custom s))"
  have kept: "map_option cc_info (gm_get ?cs k) = map_option cc_info (gm_get (tn_custom s) k)
      \<and> map_option cc_err (gm_get ?cs k) = map_option cc_err (gm_get (tn_custom s) k)" for k
    by (rule set_snapshot_setup)
  have eff: "fst (handle_channel env r s) = s\<lparr>tn_custom := ?cs\<rparr>" using snapshot(3) handler_effects(3) by simp
  show ?thesis unfolding eff by (rule custom_update_ok [OF kept])
next
  case (push name ci)
  let ?cs = "fst (ingest (in_name ci) (se_stamp env) (se_finish env) (hq_body r) (tn_custom s))"
  have kept: "map_option cc_info (gm_get ?cs k) = map_option cc_info (gm_get (tn_custom s) k)
      \<and> map_option cc_err (gm_get ?cs k) = map_option cc_err (gm_get (tn_custom s) k)" for k
    by (rule ingest_setup)
  have "fst (handle_channel env r s) = s \<or> fst (handle_channel env r s) = s\<lparr>tn_custom := ?cs\<rparr>"
    using push(3) ingest_effect [of env r ci s] by simp
  then show ?thesis using custom_update_ok [OF kept] by (elim disjE) (auto simp only: same_setup_refl)
next
  case (report name)
  show ?thesis
    using audience_effect [of env r name s] report(2)
    by (elim disjE conjE exE) (simp_all add: same_setup_def server_ok_def)
qed

lemma new_server_ok: "server_ok (new_server cfg ver srcs t)"
proof -
  have "in_name (cc_info c) = k"
    if "gm_get (fold (\<lambda>c m. if cu_name c = [] then m else gm_put (cu_name c) (new_channel c) m) chs m) k = Some c"
      and "\<forall>k c. gm_get m k = Some c \<longrightarrow> in_name (cc_info c) = k" for chs m k c
    using that
  proof (induction chs arbitrary: m)
    case (Cons x chs)
    have "\<forall>k c. gm_get (if cu_name x = [] then m else gm_put (cu_name x) (new_channel x) m) k = Some c \<longrightarrow> in_name (cc_info c) = k"
    proof (intro allI impI)
      fix k c
      assume "gm_get (if cu_name x = [] then m else gm_put (cu_name x) (new_channel x) m) k = Some c"
      then have "gm_get m k = Some c \<or> c = new_channel x \<and> k = cu_name x" by (auto split: if_splits)
      then show "in_name (cc_info c) = k" using Cons.prems(2) by (auto simp: new_channel_def)
    qed
    from Cons.IH [OF _ this] show ?case using Cons.prems(1) by simp
  qed simp
  then show ?thesis by (auto simp: server_ok_def new_server_def new_set_def)
qed

text \<open>A serving process: requests handled one after the other, each in its own outside.\<close>

definition serve_requests :: "('u server_env \<times> request) list \<Rightarrow> server \<Rightarrow> server" where
  "serve_requests qs s = fold (\<lambda>q s. fst (handle_channel (fst q) (snd q) s)) qs s"

text \<open>C12: No sequence of requests, well-formed or not, corrupts a serving process: its custom channels
  keep their names, configuration and verdicts, every audience report stays filed once under the
  channel it is about, and configuration and discovery state are never written by a request.\<close>

theorem server_invariant:
  "server_ok (serve_requests qs (new_server cfg ver srcs t))
   \<and> same_setup (new_server cfg ver srcs t) (serve_requests qs (new_server cfg ver srcs t))"
proof -
  have "server_ok (serve_requests qs s) \<and> same_setup s (serve_requests qs s)" if "server_ok s" for s :: server and qs :: "('u server_env \<times> request) list"
    using that
  proof (induction qs arbitrary: s)
    case (Cons q qs)
    then show ?case
      using step_setup [of s "fst q" "snd q"] same_setup_trans by (auto simp: serve_requests_def)
  qed (simp add: serve_requests_def)
  then show ?thesis using new_server_ok by blast
qed

section \<open>Who may write\<close>

definition authorised :: "request \<Rightarrow> info \<Rightarrow> bool" where
  "authorised r ci \<longleftrightarrow> (if in_token ci \<noteq> [] then token_matches r (in_token ci) else is_loopback_peer r)"

lemma ingest_refused:
  assumes "\<not> (in_type ci = source_webhook \<and> hq_method r = ''POST'' \<and> authorised r ci \<and> length (hq_body r) \<le> max_body)"
  shows "fst (handle_custom_ingest env r ci s) = s"
proof -
  consider "in_type ci \<noteq> source_webhook" | "hq_method r \<noteq> ''POST''" | "\<not> authorised r ci" | "max_body < length (hq_body r)"
    using assms by linarith
  then show ?thesis
  proof cases
    case 3
    then show ?thesis
      by (cases "in_token ci = []") (simp_all add: handle_custom_ingest_def authorised_def)
  next
    case 4
    then have "read_request_body r = Inl ''http: request body too large''" by (simp add: read_request_body_def)
    then show ?thesis unfolding handle_custom_ingest_def by (simp only: sum.case fst_conv split: if_split) simp
  qed (simp_all add: handle_custom_ingest_def)
qed

text \<open>C9: A webhook channel's value changes in one way only: by a POST to its own ingest route that
  carries the channel's token or, for a channel without one, comes from this machine, with a body
  within the limit. Every other request leaves the channel exactly as it was.\<close>

theorem webhook_written_only_by_ingest:
  assumes "server_ok s" and "gm_get (tn_custom s) n = Some ch" and "in_type (cc_info ch) = source_webhook"
  shows "gm_get (tn_custom (fst (handle_channel env r s))) n = Some ch
    \<or> (split_channel_path (hq_path r) = (n, ''ingest'') \<and> hq_method r = ''POST'' \<and> authorised r (cc_info ch)
       \<and> length (hq_body r) \<le> max_body)"
proof (cases rule: handle_channel_effect [of env r s])
  case same
  then show ?thesis using assms(2) by simp
next
  case (features b)
  then show ?thesis using assms(2) by simp
next
  case (feed st)
  then show ?thesis using assms(2) by simp
next
  case (snapshot name ci)
  have "fst (channel_get now finish x ch) = ch" for now finish x
    using assms(3) by (simp add: channel_get_def split: option.split)
  then have "gm_get (fst (set_snapshot m now stamp finish out (tn_custom s))) n = Some ch" for m now stamp finish out
    using assms(2) by (auto simp: set_snapshot_def channel_snapshot_def case_prod_unfold split: option.split)
  then show ?thesis using snapshot(3) handler_effects(3) [of env ci s] by simp
next
  case (push name ci)
  then obtain c where c: "gm_get (tn_custom s) name = Some c" "ci = cc_info c" by (auto simp: channel_info_def)
  then have name: "in_name ci = name" using assms(1) by (auto simp: server_ok_def)
  show ?thesis
  proof (cases "name = n")
    case False
    have "gm_get (fst (ingest (in_name ci) stamp finish body (tn_custom s))) n = gm_get (tn_custom s) n" for stamp finish body
      using False name by (auto simp: ingest_def Let_def split: option.split)
    then show ?thesis using push(3) ingest_effect [of env r ci s] assms(2) by (elim insertE) simp_all
  next
    case True
    then have ci: "ci = cc_info ch" using c assms(2) by simp
    show ?thesis
    proof (cases "in_type ci = source_webhook \<and> hq_method r = ''POST'' \<and> authorised r ci \<and> length (hq_body r) \<le> max_body")
      case asked: True
      then show ?thesis unfolding ci using push(1) \<open>name = n\<close> by (intro disjI2 conjI) simp_all
    next
      case False
      then show ?thesis using ingest_refused [OF False, of env s] push(3) assms(2) by simp
    qed
  qed
next
  case (report name)
  then show ?thesis using audience_effect [of env r name s] assms(2) by (elim disjE conjE exE) simp_all
qed

text \<open>For the witnesses: one webhook channel without a token, and a push to it.\<close>

definition sample_hook :: custom_channel where
  "sample_hook = \<lparr>cu_name = ''h'', cu_source = \<lparr>sc_type = source_webhook, sc_command = [], sc_url = [], sc_endpoint = []\<rparr>,
     cu_auth = None, cu_refresh = [], cu_theme = None\<rparr>"

definition sample_cfg :: config where
  "sample_cfg = default_config\<lparr>cf_channels := \<lparr>ch_preset = [], ch_custom = [sample_hook], ch_notes = []\<rparr>\<rparr>"

lemma sample_cfg_custom: "ch_custom (cf_channels sample_cfg) = [sample_hook]"
  by (simp add: sample_cfg_def)

lemma sample_hook_simps: "cu_name sample_hook = ''h''" "check_channel sample_hook = None"
  "sc_type (cu_source sample_hook) = source_webhook" "exposed sample_hook"
  "in_type (cc_info (new_channel sample_hook)) = source_webhook" "in_token (cc_info (new_channel sample_hook)) = []"
  by code_simp+

definition sample_server_env :: "(string \<times> string) server_env" where
  "sample_server_env =
     \<lparr>se_now = 5, se_stamp = 5, se_finish = 6,
      se_feeds = \<lparr>ne_http_get = (\<lambda>_. Inl ''down''), ne_read_file = (\<lambda>_. Inl ''missing''), ne_home = None, ne_xml = Inl,
        ne_json_wrapped = (\<lambda>_. None), ne_json_items = Inl, ne_parse_time = (\<lambda>_ _. None)\<rparr>,
      se_outside = (\<lambda>_. \<lparr>ou_command = \<lparr>cr_err = None, cr_out = ''up'', cr_stderr = []\<rparr>, ou_http = Inl ''down''\<rparr>),
      se_fetch = refusing_env [], se_stamps = (\<lambda>_. 5), se_urls = sample_urls, se_isotopes = None,
      se_http_get = (\<lambda>_. Inr \<lparr>hr_code = 200, hr_body = ''{}'', hr_broken = None\<rparr>), se_caller = (\<lambda>_. None),
      se_metric = Inl, se_custom_text = (\<lambda>_. ''error''), se_notes_text = (\<lambda>_. ''error''), se_uptime = (\<lambda>_. ''1s''),
      se_format_time = (\<lambda>_. ''t'')\<rparr>"

definition push_from :: "string \<Rightarrow> request" where
  "push_from peer = \<lparr>hq_method = ''POST'', hq_path = ''/channels/h/ingest'', hq_authorization = ''Bearer '', hq_remote = peer,
     hq_body = ''1'', hq_broken = None\<rparr>"

lemma push_from_split: "split_channel_path (hq_path (push_from peer)) = (''h'', ''ingest'')"
proof -
  have "split_channel_path (''/channels/'' @ ''h'' @ ''/'' @ ''ingest'') = (''h'', ''ingest'')"
    by (rule split_action) (simp add: action_suffixes_def)
  then show ?thesis by (simp add: push_from_def)
qed

lemma push_from_remote: "\<not> is_loopback_peer (push_from ''10.0.0.7:4000'')"
proof -
  have "split_host_port ''10.0.0.7:4000'' = Some (''10.0.0.7'', ''4000'')"
    "(case parse_ip ''10.0.0.7'' of Some ip \<Rightarrow> ip_is_loopback ip | None \<Rightarrow> False) = False"
    by code_simp+
  then show ?thesis by (simp add: is_loopback_peer_def push_from_def)
qed

theorem listing_honest_witness:
  "length (channel_entries sample_server_env (new_server sample_cfg [] None 0)) = channel_count (new_server sample_cfg [] None 0)"
  by (rule conjunct1 [OF listing_honest [of sample_cfg sample_hook]]) (simp_all add: sample_cfg_custom sample_hook_simps(1))

theorem webhook_written_only_by_ingest_witness:
  "gm_get (tn_custom (fst (handle_channel sample_server_env (push_from ''10.0.0.7:4000'') (new_server sample_cfg [] None 0)))) ''h''
     = Some (new_channel sample_hook)"
proof -
  let ?s = "new_server sample_cfg [] None 0"
  have "gm_get (tn_custom ?s) ''h'' = Some (new_channel sample_hook)"
    using new_server_custom [of "[sample_hook]" sample_hook] sample_hook_simps(1) by (simp add: new_server_def sample_cfg_custom)
  from webhook_written_only_by_ingest [OF new_server_ok this sample_hook_simps(5), of sample_server_env "push_from ''10.0.0.7:4000''"]
  show ?thesis using push_from_remote sample_hook_simps(6) by (simp add: authorised_def)
qed



section \<open>Discovered channels and unknown names\<close>


text \<open>A name without a channel answers like a channel: after the source of a discovered instance has
  retired, or for a name nothing was ever configured or discovered under, the channel's path still
  answers 200 with the status \<open>available\<close>.\<close>

theorem unlisted_name_available:
  assumes "split_channel_path (hq_path r) = (name, [])" and "name \<noteq> feature_channel_name"
    and "notes_source s name = None" and "channel_info (tn_custom s) name = None" and "channel_source s name = None"
  shows "handle_channel env r s =
    (s, Respond (write_json (Json [(''channel'', J_str name), (''status'', J_str ''available'')])))"
  using assms by (simp add: handle_channel_def handle_shared_def)

lemma feature_poll_interval_floor: "2 * second \<le> feature_poll_interval s"
  by (simp add: feature_poll_interval_def Let_def)


theorem unlisted_name_available_witness:
  "snd (handle_channel sample_server_env \<lparr>hq_method = ''GET'', hq_path = ''/channels/nope'', hq_authorization = [], hq_remote = [],
      hq_body = [], hq_broken = None\<rparr> (new_server sample_cfg [] None 0)) =
    Respond (write_json (Json [(''channel'', J_str ''nope''), (''status'', J_str ''available'')]))"
proof -
  have split: "split_channel_path ''/channels/nope'' = (''nope'', [])" by code_simp
  have none: "channel_info (tn_custom (new_server sample_cfg [] None 0)) ''nope'' = None"
    by (simp add: new_server_def sample_cfg_custom new_set_def channel_info_def sample_hook_simps(1))
  show ?thesis
    using unlisted_name_available [of "\<lparr>hq_method = ''GET'', hq_path = ''/channels/nope'', hq_authorization = [], hq_remote = [],
      hq_body = [], hq_broken = None\<rparr>" "''nope''" "new_server sample_cfg [] None 0" sample_server_env] split none
    by (simp add: feature_channel_name_def notes_source_def channel_source_def new_server_def sample_cfg_def)
qed

text \<open>
  A token padded with spaces locks its channel: no request can present it, because what a request
  presents is trimmed.
\<close>

lemma padded_token_locked:
  assumes "trim_space tok \<noteq> tok"
  shows "\<not> token_matches r tok"
  using assms trim_space_idem by (auto simp: token_matches_def split: option.split)

end
