(* ===== verification/Llms.thy ===== *)
theory Llms
  imports Server
begin

text \<open>
  Package \<open>internal/llms\<close> and the handler of \<open>/llms.txt\<close>: scenarios read from Gherkin files, and the
  markdown summary of a serving process. Walking the directory and reading a file are arguments.
\<close>

section \<open>Feature files\<close>

record scenario =
  gs_feature :: string
  gs_name :: string
  gs_tags :: "string list"
  gs_path :: string

text \<open>\<open>strings.Fields\<close>: the runs of runes between spaces.\<close>

fun fields_from :: "string \<Rightarrow> string list \<Rightarrow> string list" where
  "fields_from w [] = (if w = [] then [] else [w])"
| "fields_from w (r # rs) =
     (if r \<in> set space_seqs then (if w = [] then fields_from [] rs else w # fields_from [] rs)
      else fields_from (w @ r) rs)"

definition str_fields :: "string \<Rightarrow> string list" where
  "str_fields s = fields_from [] (runes s)"

definition parse_tags :: "string \<Rightarrow> string list" where
  "parse_tags line = filter (prefix ''@'') (str_fields line)"

record feature_scan =
  fs_scenarios :: "scenario list"
  fs_feature :: string
  fs_tags :: "string list"

definition scan_feature_line :: "string \<Rightarrow> string \<Rightarrow> feature_scan \<Rightarrow> feature_scan" where
  "scan_feature_line path raw st =
     (let line = trim_space raw in
      if prefix ''Feature:'' line then st\<lparr>fs_feature := trim_space (trim_prefix ''Feature:'' line)\<rparr>
      else if prefix ''@'' line then st\<lparr>fs_tags := parse_tags line\<rparr>
      else if prefix ''Scenario:'' line \<or> prefix ''Scenario Outline:'' line then
        st\<lparr>fs_scenarios := fs_scenarios st @
              [\<lparr>gs_feature = fs_feature st,
                gs_name = trim_space (trim_prefix ''Scenario:'' (trim_prefix ''Scenario Outline:'' line)),
                gs_tags = fs_tags st, gs_path = path\<rparr>],
           fs_tags := []\<rparr>
      else st)"

text \<open>
  A file: its text, and the error reading it ends with, if any. The scanner keeps its default
  buffer of 64 KiB, and stops at the first line that does not fit.
\<close>

definition scanner_limit :: nat where "scanner_limit = 2 ^ 16"

definition feature_file_lines :: "string \<Rightarrow> string option \<Rightarrow> string list \<times> string option" where
  "feature_file_lines content broken =
     (let fits = (\<lambda>l. length l < scanner_limit);
          ls = split_char (CHR 0x0A) content;
          ls = (if last ls = [] then butlast ls else ls)
      in if list_all fits ls then (map drop_cr ls, broken)
         else (map drop_cr (takeWhile fits ls), Some ''bufio.Scanner: token too long''))"

definition parse_feature_file :: "string \<Rightarrow> string + (string \<times> string option) \<Rightarrow> string + scenario list" where
  "parse_feature_file path file =
     (case file of
        Inl e \<Rightarrow> Inl e
      | Inr (content, broken) \<Rightarrow>
          (case feature_file_lines content broken of
             (ls, err) \<Rightarrow>
               (case err of
                  Some e \<Rightarrow> Inl e
                | None \<Rightarrow>
                    Inr (fs_scenarios (fold (scan_feature_line path) ls
                           \<lparr>fs_scenarios = [], fs_feature = [], fs_tags = []\<rparr>)))))"

text \<open>
  \<open>filepath.Walk\<close> presents its entries in lexical order: a path, the error of visiting it, whether it
  is a directory, and what opening it gives. The first error ends the walk; what was parsed before
  it is kept.
\<close>

record walk_entry =
  we_path :: string
  we_err :: "string option"
  we_dir :: bool
  we_file :: "string + (string \<times> string option)"

fun parse_features :: "walk_entry list \<Rightarrow> scenario list \<times> string option" where
  "parse_features [] = ([], None)"
| "parse_features (e # es) =
     (case we_err e of
        Some err \<Rightarrow> ([], Some err)
      | None \<Rightarrow>
          if we_dir e \<or> \<not> suffix ''.feature'' (we_path e) then parse_features es
          else (case parse_feature_file (we_path e) (we_file e) of
                  Inl err \<Rightarrow> ([], Some (''parse '' @ we_path e @ '': '' @ err))
                | Inr ss \<Rightarrow> (case parse_features es of (rest, err) \<Rightarrow> (ss @ rest, err))))"

section \<open>The document\<close>

record channel_note =
  ci_name :: string
  ci_description :: string

record runtime_info =
  ri_mode :: string
  ri_health :: string
  ri_broadcast :: string
  ri_capabilities :: "string list"
  ri_channels :: "channel_note list"

fun scenario_lines :: "string \<Rightarrow> scenario list \<Rightarrow> string" where
  "scenario_lines current [] = []"
| "scenario_lines current (s # ss) =
     (if gs_feature s \<noteq> current then [CHR 0x0A] @ ''### '' @ gs_feature s @ [CHR 0x0A] else [])
     @ ''- '' @ gs_name s @ [CHR 0x0A] @ scenario_lines (gs_feature s) ss"

definition generate_llms_txt :: "scenario list \<Rightarrow> runtime_info \<Rightarrow> string" where
  "generate_llms_txt scenarios i =
     ''# Tuner'' @ [CHR 0x0A, CHR 0x0A]
     @ ''> Passive observer for smoke-alarm services. Displays alerts via Television.'' @ [CHR 0x0A, CHR 0x0A]
     @ ''## Capabilities'' @ [CHR 0x0A]
     @ concat (map (\<lambda>c. ''- '' @ c @ [CHR 0x0A]) (ri_capabilities i)) @ [CHR 0x0A]
     @ ''## Connection'' @ [CHR 0x0A]
     @ ''- Mode: '' @ ri_mode i @ [CHR 0x0A]
     @ ''- Health: http://'' @ ri_health i @ ''/healthz'' @ [CHR 0x0A]
     @ ''- Broadcast: http://'' @ ri_broadcast i @ ''/channels'' @ [CHR 0x0A] @ [CHR 0x0A]
     @ ''## Channels'' @ [CHR 0x0A]
     @ concat (map (\<lambda>c. ''- **'' @ ci_name c @ ''**: '' @ ci_description c @ [CHR 0x0A]) (ri_channels i)) @ [CHR 0x0A]
     @ (if length scenarios > 0 then ''## Features'' @ [CHR 0x0A] @ scenario_lines [] scenarios @ [CHR 0x0A] else [])
     @ ''## See Also'' @ [CHR 0x0A]
     @ ''- features/tuner-broadcasting.feature'' @ [CHR 0x0A]
     @ ''- features/tuner-receiving.feature'' @ [CHR 0x0A]"

section \<open>The handler\<close>

definition llms_channels :: "'u server_env \<Rightarrow> server \<Rightarrow> channel_note list" where
  "llms_channels env s =
     map (\<lambda>p. \<lparr>ci_name = pc_name p, ci_description = pc_name p @ '' monitoring''\<rparr>) (ch_preset (cf_channels (tn_cfg s)))
     @ map (\<lambda>c. \<lparr>ci_name = cu_name c,
                 ci_description =
                   (case config_error (tn_custom s) (cu_name c) of
                      None \<Rightarrow> ''custom '' @ sc_type (cu_source c) @ '' channel''
                    | Some e \<Rightarrow> ''custom '' @ sc_type (cu_source c) @ '' channel (misconfigured: '' @ se_custom_text env e @ '')'')\<rparr>)
         (ch_custom (cf_channels (tn_cfg s)))
     @ [\<lparr>ci_name = feature_channel_name,
         ci_description = ''adhd feature and skill certification, merged over the discovered instances''\<rparr>]"

definition llms_capabilities :: "string list" where
  "llms_capabilities =
     [''mDNS discovery of smoke-alarm services'', ''Real-time alert signal with 30-minute decay'',
      ''Channel visualization via Television'', ''Interactive caller line'',
      ''Feature/skill certification browsing over adhd's MCP endpoint'']"

definition handle_llms :: "'u server_env \<Rightarrow> walk_entry list \<Rightarrow> server \<Rightarrow> response" where
  "handle_llms env walk s =
     \<lparr>rp_code = 200, rp_headers = [(''Content-Type'', ''text/markdown; charset=utf-8'')],
      rp_body = Plain (generate_llms_txt (fst (parse_features walk))
        \<lparr>ri_mode = cf_mode (tn_cfg s), ri_health = cf_health (tn_cfg s), ri_broadcast = bc_listen (cf_broadcast (tn_cfg s)),
         ri_capabilities = llms_capabilities, ri_channels = llms_channels env s\<rparr>)\<rparr>"

section \<open>Reading a feature file back\<close>

text \<open>
  A feature file as one writes it: the title, and each scenario under its tags, indented.
\<close>

definition title :: "string \<Rightarrow> bool" where
  "title s \<longleftrightarrow> s \<noteq> [] \<and> solid_char (hd s) \<and> solid_char (last s) \<and> CHR 0x0A \<notin> set s"

definition tag :: "string \<Rightarrow> bool" where
  "tag s \<longleftrightarrow> prefix ''@'' s \<and> list_all solid_char s"

definition tag_line :: "string list \<Rightarrow> string" where
  "tag_line ts = ''  '' @ str_join '' '' ts"

definition scenario_line :: "string \<Rightarrow> string" where
  "scenario_line n = ''  Scenario: '' @ n"

definition scenario_block :: "string \<times> string list \<Rightarrow> string list" where
  "scenario_block p = (if snd p = [] then [] else [tag_line (snd p)]) @ [scenario_line (fst p)]"

definition feature_text :: "string \<Rightarrow> (string \<times> string list) list \<Rightarrow> string list" where
  "feature_text f ps = (''Feature: '' @ f) # concat (map scenario_block ps)"

lemma solid_letters: "solid_char (CHR ''F'')" "solid_char (CHR ''S'')" "solid_char (CHR ''@'')"
  by (simp_all add: solid_char_def space_seqs_def ascii_char_def)

lemma trim_space_title: "title s \<Longrightarrow> trim_space s = s"
  by (simp add: title_def trim_space_solid)

lemma scan_title:
  assumes "title f"
  shows "scan_feature_line path (''Feature: '' @ f) st = st\<lparr>fs_feature := f\<rparr>"
proof -
  have "trim_space (''Feature: '' @ f) = ''Feature: '' @ f"
    using assms by (intro trim_space_solid) (simp_all add: title_def solid_letters)
  moreover have "trim_prefix ''Feature:'' (''Feature: '' @ f) = CHR 0x20 # f"
    using trim_prefix_append [of "''Feature:''" "CHR 0x20 # f"] by simp
  ultimately show ?thesis
    using assms by (simp add: scan_feature_line_def Let_def trim_space_blank trim_space_title)
qed

lemma scan_scenario:
  assumes "title n"
  shows "scan_feature_line path (scenario_line n) st =
    st\<lparr>fs_scenarios := fs_scenarios st @ [\<lparr>gs_feature = fs_feature st, gs_name = n, gs_tags = fs_tags st, gs_path = path\<rparr>],
       fs_tags := []\<rparr>"
proof -
  have "trim_space (''Scenario: '' @ n) = ''Scenario: '' @ n"
    using assms by (intro trim_space_solid) (simp_all add: title_def solid_letters)
  then have trimmed: "trim_space (scenario_line n) = ''Scenario: '' @ n"
    by (simp add: scenario_line_def trim_space_blank)
  have outline: "trim_prefix ''Scenario Outline:'' (''Scenario: '' @ n) = ''Scenario: '' @ n"
    by (rule trim_prefix_other) simp
  have plain: "trim_prefix ''Scenario:'' (''Scenario: '' @ n) = CHR 0x20 # n"
    using trim_prefix_append [of "''Scenario:''" "CHR 0x20 # n"] by simp
  show ?thesis
    unfolding scan_feature_line_def Let_def trimmed outline plain
    by (simp add: trim_space_blank trim_space_title [OF assms])
qed

text \<open>Tags.\<close>

lemma fields_from_word:
  "list_all solid_char t \<Longrightarrow> fields_from w (map (\<lambda>c. [c]) t @ rs) = fields_from (w @ t) rs"
  by (induction t arbitrary: w) (simp_all add: solid_char_def)

lemma space_is_space: "[CHR 0x20] \<in> set space_seqs" by (simp add: space_seqs_def)

lemma fields_of_words:
  "\<forall>t \<in> set ts. t \<noteq> [] \<and> list_all solid_char t \<Longrightarrow>
     fields_from [] (map (\<lambda>c. [c]) (str_join '' '' ts)) = ts"
proof (induction "'' ''" ts rule: str_join.induct)
  case (2 s)
  then show ?case using fields_from_word [of s "[]" "[]"] by simp
next
  case (3 s t ss)
  then show ?case by (simp add: fields_from_word space_is_space)
qed simp

lemma tag_solid: "tag t \<Longrightarrow> t \<noteq> [] \<and> list_all solid_char t" by (auto simp: tag_def)

lemma join_chars: "c \<in> set (str_join sep ts) \<Longrightarrow> c \<in> set sep \<or> (\<exists>t \<in> set ts. c \<in> set t)"
  by (induction sep ts rule: str_join.induct) auto

lemma join_ends:
  "ts \<noteq> [] \<Longrightarrow> \<forall>t \<in> set ts. t \<noteq> [] \<Longrightarrow>
     str_join sep ts \<noteq> [] \<and> hd (str_join sep ts) = hd (hd ts) \<and> last (str_join sep ts) = last (last ts)"
  by (induction sep ts rule: str_join.induct) auto

lemma scan_tags:
  assumes "ts \<noteq> []" and "list_all tag ts"
  shows "scan_feature_line path (tag_line ts) st = st\<lparr>fs_tags := ts\<rparr>"
proof -
  let ?l = "str_join '' '' ts"
  have words: "\<forall>t \<in> set ts. t \<noteq> [] \<and> list_all solid_char t"
    using assms(2) tag_solid by (auto simp: list_all_iff)
  have "?l \<noteq> [] \<and> hd ?l = hd (hd ts) \<and> last ?l = last (last ts)"
    using words by (intro join_ends [OF assms(1)]) simp
  moreover have "hd ts \<in> set ts" "last ts \<in> set ts" using assms(1) by simp_all
  moreover have "hd (hd ts) = CHR ''@''"
    using \<open>hd ts \<in> set ts\<close> assms(2) by (auto simp: list_all_iff tag_def prefix_def)
  ultimately have ends: "?l \<noteq> []" "hd ?l = CHR ''@''" "solid_char (last ?l)"
    using words by (auto simp: list_all_iff)
  then have "trim_space ?l = ?l" by (intro trim_space_solid) (simp_all add: solid_letters)
  then have trimmed: "trim_space (tag_line ts) = ?l" by (simp add: tag_line_def trim_space_blank)
  have "\<forall>c \<in> set ?l. ascii_char c"
    using words join_chars [of _ "'' ''" ts] by (fastforce simp: list_all_iff solid_char_def ascii_char_def)
  then have "str_fields ?l = ts"
    using fields_of_words [OF words] by (simp add: str_fields_def runes_all_ascii)
  moreover have "filter (prefix ''@'') ts = ts"
    using assms(2) by (intro filter_True) (simp add: list_all_iff tag_def)
  ultimately have "parse_tags ?l = ts" by (simp add: parse_tags_def)
  moreover obtain l where "?l = CHR ''@'' # l" using ends(1,2) by (cases ?l) auto
  ultimately show ?thesis by (simp add: scan_feature_line_def trimmed Let_def)
qed

lemma scan_block:
  assumes "title (fst p)" and "list_all tag (snd p)" and "fs_tags st = []"
  shows "fold (scan_feature_line path) (scenario_block p) st =
    st\<lparr>fs_scenarios := fs_scenarios st @ [\<lparr>gs_feature = fs_feature st, gs_name = fst p, gs_tags = snd p, gs_path = path\<rparr>]\<rparr>"
  using assms
  by (cases "snd p = []") (simp_all add: scenario_block_def scan_tags scan_scenario)

lemma scan_blocks:
  assumes "list_all (\<lambda>p. title (fst p) \<and> list_all tag (snd p)) ps" and "fs_tags st = []"
  shows "fold (scan_feature_line path) (concat (map scenario_block ps)) st =
    st\<lparr>fs_scenarios := fs_scenarios st @
        map (\<lambda>p. \<lparr>gs_feature = fs_feature st, gs_name = fst p, gs_tags = snd p, gs_path = path\<rparr>) ps\<rparr>"
  using assms
proof (induction ps arbitrary: st)
  case (Cons p ps)
  then show ?case by (simp add: scan_block)
qed simp

text \<open>Lines written with a line feed after each are read back as they are.\<close>

lemma feature_file_lines_written:
  assumes "\<forall>l \<in> set ls. CHR 0x0A \<notin> set l \<and> l \<noteq> [] \<and> last l \<noteq> CHR 0x0D \<and> length l < scanner_limit"
  shows "feature_file_lines (concat (map (\<lambda>l. l @ [CHR 0x0A]) ls)) broken = (ls, broken)"
proof -
  have "split_char (CHR 0x0A) (concat (map (\<lambda>l. l @ [CHR 0x0A]) ls) @ []) = ls @ split_char (CHR 0x0A) []"
    using assms by (intro split_lines) simp
  moreover have "map drop_cr ls = ls" using assms by (intro map_idI) (simp add: drop_cr_def)
  ultimately show ?thesis using assms by (simp add: feature_file_lines_def list_all_iff)
qed

lemma solid_not_break: "solid_char c \<Longrightarrow> c \<noteq> CHR 0x0A \<and> c \<noteq> CHR 0x0D"
  by (auto simp: solid_char_def space_seqs_def)

lemma tag_line_ok:
  assumes "ts \<noteq> []" and "list_all tag ts"
  shows "CHR 0x0A \<notin> set (tag_line ts)" "tag_line ts \<noteq> []" "last (tag_line ts) \<noteq> CHR 0x0D"
proof -
  have words: "\<forall>t \<in> set ts. t \<noteq> [] \<and> list_all solid_char t"
    using assms(2) tag_solid by (auto simp: list_all_iff)
  have solid: "\<forall>t \<in> set ts. \<forall>c \<in> set t. c \<noteq> CHR 0x0A \<and> c \<noteq> CHR 0x0D"
    using words solid_not_break by (auto simp: list_all_iff)
  show "CHR 0x0A \<notin> set (tag_line ts)"
    using solid join_chars [of "CHR 0x0A" "'' ''" ts] by (auto simp: tag_line_def)
  show "tag_line ts \<noteq> []" by (simp add: tag_line_def)
  have "last ts \<in> set ts" using assms(1) by simp
  then have "last (last ts) \<in> set (last ts)" using words by simp
  then have "last (last ts) \<noteq> CHR 0x0D" using solid \<open>last ts \<in> set ts\<close> by blast
  moreover have "str_join '' '' ts \<noteq> [] \<and> last (str_join '' '' ts) = last (last ts)"
    using join_ends [OF assms(1), of "'' ''"] words by simp
  ultimately show "last (tag_line ts) \<noteq> CHR 0x0D" by (simp add: tag_line_def)
qed

lemma title_line_ok:
  assumes "title n" and "CHR 0x0A \<notin> set k"
  shows "CHR 0x0A \<notin> set (k @ n)" "k @ n \<noteq> []" "last (k @ n) \<noteq> CHR 0x0D"
  using assms solid_not_break [of "last n"] by (auto simp: title_def)

text \<open>C31: A feature file is read back: the scenarios found in the written text are the ones
  written, in order, each under the file's feature with its own tags and the path of the file.\<close>

theorem feature_file_roundtrip:
  assumes "title f" and "list_all (\<lambda>p. title (fst p) \<and> list_all tag (snd p)) ps"
    and "list_all (\<lambda>l. length l < scanner_limit) (feature_text f ps)"
  shows "parse_feature_file path (Inr (concat (map (\<lambda>l. l @ [CHR 0x0A]) (feature_text f ps)), None))
    = Inr (map (\<lambda>p. \<lparr>gs_feature = f, gs_name = fst p, gs_tags = snd p, gs_path = path\<rparr>) ps)"
proof -
  have block: "CHR 0x0A \<notin> set l \<and> l \<noteq> [] \<and> last l \<noteq> CHR 0x0D" if "p \<in> set ps" "l \<in> set (scenario_block p)" for p l
  proof -
    have p: "title (fst p)" "list_all tag (snd p)" using assms(2) that(1) by (simp_all add: list_all_iff)
    have "l = scenario_line (fst p) \<or> (snd p \<noteq> [] \<and> l = tag_line (snd p))"
      using that(2) by (simp add: scenario_block_def split: if_splits)
    then show ?thesis
      using title_line_ok [OF p(1), of "''  Scenario: ''"] tag_line_ok [OF _ p(2)] by (auto simp: scenario_line_def)
  qed
  have first: "CHR 0x0A \<notin> set (''Feature: '' @ f) \<and> ''Feature: '' @ f \<noteq> [] \<and> last (''Feature: '' @ f) \<noteq> CHR 0x0D"
    using title_line_ok [OF assms(1), of "''Feature: ''"] by simp
  have "\<forall>l \<in> set (feature_text f ps). CHR 0x0A \<notin> set l \<and> l \<noteq> [] \<and> last l \<noteq> CHR 0x0D"
  proof
    fix l assume "l \<in> set (feature_text f ps)"
    then consider "l = ''Feature: '' @ f" | p where "p \<in> set ps" "l \<in> set (scenario_block p)"
      unfolding feature_text_def by auto
    then show "CHR 0x0A \<notin> set l \<and> l \<noteq> [] \<and> last l \<noteq> CHR 0x0D"
      by cases (use first block in blast)+
  qed
  then have "feature_file_lines (concat (map (\<lambda>l. l @ [CHR 0x0A]) (feature_text f ps))) None = (feature_text f ps, None)"
    using assms(3) by (intro feature_file_lines_written) (simp add: list_all_iff)
  moreover have "fold (scan_feature_line path) (feature_text f ps) \<lparr>fs_scenarios = [], fs_feature = [], fs_tags = []\<rparr>
      = \<lparr>fs_scenarios = map (\<lambda>p. \<lparr>gs_feature = f, gs_name = fst p, gs_tags = snd p, gs_path = path\<rparr>) ps,
         fs_feature = f, fs_tags = []\<rparr>"
    unfolding feature_text_def fold_simps comp_apply scan_title [OF assms(1)]
    by (subst scan_blocks [OF assms(2)]) simp_all
  ultimately show ?thesis by (simp add: parse_feature_file_def)
qed

theorem feature_file_roundtrip_witness:
  "parse_feature_file ''f'' (Inr (concat (map (\<lambda>l. l @ [CHR 0x0A]) (feature_text ''Demo'' [(''one'', [''@a'', ''@b'']), (''two'', [])])), None))
     = Inr [\<lparr>gs_feature = ''Demo'', gs_name = ''one'', gs_tags = [''@a'', ''@b''], gs_path = ''f''\<rparr>,
            \<lparr>gs_feature = ''Demo'', gs_name = ''two'', gs_tags = [], gs_path = ''f''\<rparr>]"
  using feature_file_roundtrip [of "''Demo''" "[(''one'', [''@a'', ''@b'']), (''two'', [])]" "''f''"]
  by (simp add: title_def tag_def solid_char_def space_seqs_def ascii_char_def feature_text_def scenario_block_def
      scenario_line_def tag_line_def scanner_limit_def)

text \<open>A scenario's tags are those of the last tag line above it: of tags written over two lines
  the first line is lost, although Gherkin reads both as tags of the scenario.\<close>

theorem wrapped_tags_lost:
  assumes "title n" and "list_all tag ts" "ts \<noteq> []" and "list_all tag us" "us \<noteq> []"
  shows "fs_scenarios (fold (scan_feature_line path) [tag_line ts, tag_line us, scenario_line n] st)
     = fs_scenarios st @ [\<lparr>gs_feature = fs_feature st, gs_name = n, gs_tags = us, gs_path = path\<rparr>]"
  using assms by (simp add: scan_tags scan_scenario)

theorem wrapped_tags_lost_witness:
  "fs_scenarios (fold (scan_feature_line ''f'') [tag_line [''@a''], tag_line [''@b''], scenario_line ''one'']
       \<lparr>fs_scenarios = [], fs_feature = ''Demo'', fs_tags = []\<rparr>)
     = [\<lparr>gs_feature = ''Demo'', gs_name = ''one'', gs_tags = [''@b''], gs_path = ''f''\<rparr>]"
  by (subst wrapped_tags_lost) (simp_all add: title_def tag_def solid_char_def space_seqs_def ascii_char_def)

text \<open>Notes channels are not advertised: two servers that differ in their notes channels only
  answer \<open>/llms.txt\<close> with the same document, whatever the feature files hold.\<close>

theorem llms_hides_notes:
  "handle_llms env walk (s\<lparr>tn_cfg := cfg\<lparr>cf_channels := chs\<lparr>ch_notes := ns\<rparr>\<rparr>\<rparr>)
     = handle_llms env walk (s\<lparr>tn_cfg := cfg\<lparr>cf_channels := chs\<lparr>ch_notes := ms\<rparr>\<rparr>\<rparr>)"
  by (simp add: handle_llms_def llms_channels_def)

end
