(* ===== verification/Lezz.thy ===== *)
theory Lezz
  imports Discovery FeatureSources GoIo
begin

text \<open>
  Package \<open>internal/lezzdemo\<close>: smoke alarms read from the registry of a local demo cluster, and how
  they are seeded into the browser. The HTTP read, the JSON decoder, \<open>net/url\<close> and the TCP dial are
  arguments.
\<close>

section \<open>The cluster registry\<close>

definition registry_port :: int where "registry_port = 19100"

record cluster_info =
  cl_name :: string
  cl_alarm_a :: string
  cl_alarm_b :: string

record 'u host_codec = "'u url_codec" +
  ul_hostname :: "'u \<Rightarrow> string"
  ul_port :: "'u \<Rightarrow> string"

text \<open>
  The decoder reads the first JSON value of the body as it arrives, so it is given the bytes and
  the error the body then breaks with. A map is iterated in the order of the list it decodes to.
\<close>

record 'u lezz_env =
  lz_get :: "string \<Rightarrow> string + http_response"
  lz_decode :: "string \<Rightarrow> string option \<Rightarrow> (string, cluster_info) gomap option"
  lz_urls :: "'u host_codec"
  lz_dial :: "string \<Rightarrow> bool"
  lz_now :: time

definition cluster_registry :: "'u lezz_env \<Rightarrow> (string, cluster_info) gomap" where
  "cluster_registry env =
     (case lz_get env (''http://127.0.0.1:'' @ itoa registry_port @ ''/cluster'') of
        Inl _ \<Rightarrow> []
      | Inr resp \<Rightarrow> (case lz_decode env (hr_body resp) (hr_broken resp) of None \<Rightarrow> [] | Some m \<Rightarrow> m))"

definition alarm_entries :: "cluster_info \<Rightarrow> (string \<times> string) list" where
  "alarm_entries c = [(cl_name c @ ''/alarm-a'', cl_alarm_a c), (cl_name c @ ''/alarm-b'', cl_alarm_b c)]"

definition alarm_service :: "'u lezz_env \<Rightarrow> string \<times> string \<Rightarrow> service option" where
  "alarm_service env e =
     (case e of (name, raw) \<Rightarrow>
        let U = lz_urls env in
        if raw = [] then None
        else case ul_parse U raw of
          Inl _ \<Rightarrow> None
        | Inr u \<Rightarrow>
            (case atoi (ul_port U u) of
               None \<Rightarrow> None
             | Some port \<Rightarrow>
                 if \<not> lz_dial env (join_host_port (ul_hostname U u) (ul_port U u)) then None
                 else Some \<lparr>sv_name = name, sv_type = smoke_alarm_type, sv_host = ul_hostname U u, sv_port = port,
                            sv_txt = [(''source'', ''lezz-demo'')], sv_discovered_at = lz_now env,
                            sv_last_seen = lz_now env\<rparr>))"

definition smoke_alarms :: "'u lezz_env \<Rightarrow> service list" where
  "smoke_alarms env =
     List.map_filter (alarm_service env) (concat (map (\<lambda>(_, c). alarm_entries c) (cluster_registry env)))"

section \<open>Seeding\<close>

text \<open>
  \<open>Seed\<close> adds each alarm to the browser, which stamps it and reports it as it does an
  announcement: \<open>clock\<close> gives the three readings of one \<open>Add\<close>.
\<close>

definition seed_events :: "(service \<Rightarrow> time \<times> time \<times> time) \<Rightarrow> service list \<Rightarrow> net_event list" where
  "seed_events clock svcs = map (\<lambda>svc. case clock svc of (seen, found, now) \<Rightarrow> Announce seen found now svc) svcs"

definition seed :: "(service \<Rightarrow> time \<times> time \<times> time) \<Rightarrow> 'u lezz_env \<Rightarrow> browser \<times> serve_state \<Rightarrow>
    (browser \<times> serve_state) \<times> service list" where
  "seed clock env st =
     (let svcs = smoke_alarms env in (fold (sink_step on_change on_remove) (seed_events clock svcs) st, svcs))"

section \<open>What is seeded\<close>

lemma smoke_alarms_in:
  "svc \<in> set (smoke_alarms env) \<longleftrightarrow>
     (\<exists>k c e. (k, c) \<in> set (cluster_registry env) \<and> e \<in> set (alarm_entries c) \<and> alarm_service env e = Some svc)"
  by (force simp: smoke_alarms_def map_filter_def)

lemma seed_run: "fst (seed clock env st) = serve_run (seed_events clock (smoke_alarms env)) st"
  by (simp add: seed_def serve_run_def Let_def)

lemma alarm_service_Some:
  assumes "alarm_service env e = Some svc"
  shows "sv_name svc = fst e" and "sv_type svc = smoke_alarm_type"
    and "\<exists>u. ul_parse (lz_urls env) (snd e) = Inr u \<and> sv_host svc = ul_hostname (lz_urls env) u
       \<and> atoi (ul_port (lz_urls env) u) = Some (sv_port svc)
       \<and> lz_dial env (join_host_port (sv_host svc) (ul_port (lz_urls env) u))"
  using assms
  by (auto simp: alarm_service_def Let_def split: prod.splits if_splits sum.splits option.splits)

section \<open>How long a record lives without announcements\<close>

lemma set_put_subset: "set (gm_put k v m) \<subseteq> insert (k, v) (set m)"
  by (induction m) auto

lemma add_service_records:
  assumes "add_service seen found svc b = (b', rep)" and "rec \<in> records b'"
  shows "rec \<in> records b \<or> (same_record rec svc \<and> sv_last_seen rec = seen)"
proof -
  have b': "b' = fst (add_service seen found svc b)" using assms(1) by simp
  obtain k where k: "(k, rec) \<in> set (br_services b')" using assms(2) by (auto simp: records_def)
  let ?new = "svc\<lparr>sv_last_seen := seen, sv_discovered_at :=
      (case gm_get (br_services b) (record_key svc) of Some e \<Rightarrow> sv_discovered_at e | None \<Rightarrow> found)\<rparr>"
  have "(k, rec) \<in> insert (record_key svc, ?new) (set (br_services b))"
    using k set_put_subset unfolding b' add_service_table by (rule rev_subsetD)
  then consider "rec = ?new" | "(k, rec) \<in> set (br_services b)" by auto
  then show ?thesis
  proof cases
    case 1
    then show ?thesis by (simp add: same_record_def)
  next
    case 2
    then show ?thesis by (force simp: records_def)
  qed
qed

text \<open>Every record the browser holds was announced, and was last seen when it was announced.\<close>

definition announced :: "net_event list \<Rightarrow> service \<Rightarrow> bool" where
  "announced evs rec \<longleftrightarrow>
     (\<exists>seen found now svc. Announce seen found now svc \<in> set evs \<and> same_record rec svc \<and> sv_last_seen rec = seen)"

lemma run_announced:
  "rec \<in> records (fst (serve_run evs (serve_init opts))) \<Longrightarrow> announced evs rec"
proof (induction evs arbitrary: rec rule: rev_induct)
  case Nil
  then show ?case by (simp add: serve_run_def serve_init_def new_browser_def records_def Let_def)
next
  case (snoc ev evs)
  obtain b s where st: "serve_run evs (serve_init opts) = (b, s)" by (cases "serve_run evs (serve_init opts)")
  have keep: "announced (evs @ [ev]) r" if "r \<in> records b" for r
    using snoc.IH [of r] that st by (auto simp: announced_def)
  have rec: "rec \<in> records (fst (sink_step on_change on_remove ev (b, s)))"
    using snoc.prems by (simp only: serve_run_snoc st)
  show ?case
  proof (cases ev)
    case (Announce seen found now svc)
    then have "rec \<in> records (fst (add_service seen found svc b))"
      using rec unfolding sink_step_browser by simp
    then have "rec \<in> records b \<or> (same_record rec svc \<and> sv_last_seen rec = seen)"
      using add_service_records [OF prod.collapse [symmetric]] by blast
    then show ?thesis
      using keep Announce by (auto simp: announced_def)
  next
    case (Expiry_tick now)
    then have "rec \<in> records (fst (expire now b))" using rec unfolding sink_step_browser by simp
    then have "rec \<in> records b" by (auto simp: records_def expire_def Let_def)
    then show ?thesis by (rule keep)
  qed
qed

text \<open>After an expiry check, every record the browser holds was announced within the expiry.\<close>

lemma tick_announced:
  assumes "rec \<in> records (fst (serve_run (evs @ [Expiry_tick now]) (serve_init opts)))"
  shows "announced evs rec \<and> \<not> is_departed now (effective_expiry (new_browser opts)) rec"
proof -
  obtain b s where st: "serve_run evs (serve_init opts) = (b, s)" by (cases "serve_run evs (serve_init opts)")
  have "br_expiry b = br_expiry (new_browser opts)"
    using serve_run_expiry [of evs "serve_init opts"] st by (simp add: serve_init_def)
  then have exp: "effective_expiry b = effective_expiry (new_browser opts)" by (simp add: effective_expiry_def)
  have "rec \<in> records (fst (expire now b))"
    using assms unfolding serve_run_snoc st sink_step_browser by simp
  then have live: "rec \<in> records b" "\<not> is_departed now (effective_expiry b) rec"
    by (auto simp: records_def expire_def Let_def)
  with run_announced [of rec evs opts] st exp show ?thesis by simp
qed

section \<open>Properties\<close>

definition not_of :: "string \<Rightarrow> net_event \<Rightarrow> bool" where
  "not_of k ev = (case ev of Announce _ _ _ svc \<Rightarrow> service_instance svc \<noteq> k | Expiry_tick _ \<Rightarrow> True)"

text \<open>C38: Seeded alarms do not last. They are added once, when the process starts, and nothing ever
  announces them again: unless mDNS announces the instance too, the first expiry check that finds
  the seeds older than the expiry takes the instance's channel source away, although the demo
  cluster is still up.\<close>

theorem seeded_source_expires:
  assumes "bo_on_change opts" and "bo_on_remove opts"
    and "list_all clean_event (seed_events clock (smoke_alarms env) @ evs)"
    and "list_all (not_of k) evs"
    and "list_all (\<lambda>svc. service_instance svc = k \<longrightarrow>
           time_sub now (fst (clock svc)) \<ge> effective_expiry (new_browser opts)) (smoke_alarms env)"
  shows "get_source (sv_reg (snd (serve_run (evs @ [Expiry_tick now]) (fst (seed clock env (serve_init opts)))))) k = None"
proof (rule ccontr)
  let ?evs = "seed_events clock (smoke_alarms env) @ evs"
  let ?st = "serve_run (?evs @ [Expiry_tick now]) (serve_init opts)"
  have run: "serve_run (evs @ [Expiry_tick now]) (fst (seed clock env (serve_init opts))) = ?st"
    by (simp add: seed_run serve_run_def)
  assume "get_source (sv_reg (snd (serve_run (evs @ [Expiry_tick now]) (fst (seed clock env (serve_init opts)))))) k \<noteq> None"
  then obtain src where src: "get_source (sv_reg (snd ?st)) k = Some src" by (auto simp: run)
  have "clean_event (Expiry_tick now)" by (simp add: clean_event_def)
  then have "list_all clean_event (?evs @ [Expiry_tick now])"
    using assms(3) by (simp only: list_all_append list.pred_inject simp_thms)
  then have "serve_ok ?st" by (rule serve_run_ok [OF serve_init_ok(1) [OF assms(1,2)]])
  then have "serve.backed (fst ?st) (snd ?st)" unfolding serve_ok_def by blast
  moreover have "serve_addr (snd ?st) k = Some (so_endpoint src)" by (simp only: serve_addr_def src option.map)
  ultimately obtain rec where rec: "rec \<in> records (fst ?st)" "service_instance rec = k"
    unfolding serve.backed_def by blast
  have "announced ?evs rec" and live: "\<not> is_departed now (effective_expiry (new_browser opts)) rec"
    using tick_announced [OF rec(1)] by simp_all
  then obtain seen found t svc where ann: "Announce seen found t svc \<in> set ?evs"
    and same: "same_record rec svc" and seen: "sv_last_seen rec = seen"
    unfolding announced_def by blast
  have "service_instance svc = k" using same_recordD(1) [OF same] rec(2) by simp
  then have "Announce seen found t svc \<notin> set evs" using assms(4) by (auto simp: list_all_iff not_of_def)
  then have "svc \<in> set (smoke_alarms env)" "fst (clock svc) = seen"
    using ann by (auto simp: seed_events_def split: prod.splits)
  then have "time_sub now seen \<ge> effective_expiry (new_browser opts)"
    using assms(5) \<open>service_instance svc = k\<close> by (auto simp: list_all_iff)
  with live seen show False by (simp add: is_departed_def)
qed

text \<open>For the witness: one cluster with one alarm, read at time 0.\<close>

definition sample_lezz :: "string lezz_env" where
  "sample_lezz =
     \<lparr>lz_get = (\<lambda>u. if u = ''http://127.0.0.1:19100/cluster'' then Inr \<lparr>hr_code = 200, hr_body = ''{..}'', hr_broken = None\<rparr>
                     else Inl ''refused''),
      lz_decode = (\<lambda>_ _. Some [(''c'', \<lparr>cl_name = ''c'', cl_alarm_a = ''http://127.0.0.1:17091'', cl_alarm_b = []\<rparr>)]),
      lz_urls = \<lparr>ul_parse = Inr, ul_scheme = (\<lambda>_. ''http''), ul_host = (\<lambda>_. ''127.0.0.1:17091''), ul_path = (\<lambda>_. []),
        ul_set_path = (\<lambda>_ u. u), ul_show = id, ul_hostname = (\<lambda>_. ''127.0.0.1''), ul_port = (\<lambda>_. ''17091'')\<rparr>,
      lz_dial = (\<lambda>a. a = ''127.0.0.1:17091''), lz_now = 0\<rparr>"

definition sample_seed :: service where
  "sample_seed = \<lparr>sv_name = ''c/alarm-a'', sv_type = smoke_alarm_type, sv_host = ''127.0.0.1'', sv_port = 17091,
     sv_txt = [(''source'', ''lezz-demo'')], sv_discovered_at = 0, sv_last_seen = 0\<rparr>"

lemma sample_numbers: "itoa registry_port = ''19100''" "atoi ''17091'' = Some 17091"
proof -
  have digits: "digit_char 0 = CHR ''0''" "digit_char 1 = CHR ''1''" "digit_char 7 = CHR ''7''" "digit_char 9 = CHR ''9''"
    by code_simp+
  show "itoa registry_port = ''19100''"
    by (simp add: itoa_def registry_port_def show_nat.simps digits digits(2) [unfolded One_nat_def])
  have "itoa 17091 = ''17091''"
    by (simp add: itoa_def show_nat.simps digits digits(2) [unfolded One_nat_def])
  then show "atoi ''17091'' = Some 17091" using atoi_itoa [of 17091] by simp
qed

lemma sample_lezz_registry:
  "cluster_registry sample_lezz = [(''c'', \<lparr>cl_name = ''c'', cl_alarm_a = ''http://127.0.0.1:17091'', cl_alarm_b = []\<rparr>)]"
  unfolding cluster_registry_def sample_numbers(1) by (simp add: sample_lezz_def)

lemma sample_lezz_alarms: "smoke_alarms sample_lezz = [sample_seed]"
  by (simp add: smoke_alarms_def sample_lezz_registry alarm_entries_def map_filter_simps)
     (simp add: alarm_service_def sample_lezz_def sample_numbers join_host_port_def sample_seed_def)

lemma sample_seed_instance: "service_instance sample_seed = ''c/alarm-a''"
proof -
  have "CHR ''_'' \<in> set (to_lower (instance_suffix smoke_alarm_type))" by code_simp
  moreover have "CHR ''_'' \<notin> set (to_lower ''c/alarm-a'')" by code_simp
  ultimately have "\<not> sublist (to_lower (instance_suffix smoke_alarm_type)) (to_lower ''c/alarm-a'')"
    using set_mono_sublist by blast
  then have "str_index (to_lower (instance_suffix smoke_alarm_type)) (to_lower ''c/alarm-a'') = None"
    by (simp add: str_index_None)
  then show ?thesis by (simp add: service_instance_def sample_seed_def)
qed

lemma sample_seed_clean: "bar_free sample_seed"
  by code_simp

lemma sample_seeding: "seed_events (\<lambda>_. (0, 0, 0)) (smoke_alarms sample_lezz) = [Announce 0 0 0 sample_seed]"
  by (simp add: sample_lezz_alarms seed_events_def)

lemma sample_expiry: "effective_expiry (new_browser sample_options) \<le> time_sub (90 * second) 0"
  by code_simp

lemma first_announcement:
  assumes "bo_on_change opts" and "is_channel_source svc"
  shows "map_option so_endpoint (get_source (sv_reg (snd (serve_run [Announce seen found now svc] (serve_init opts)))) (service_instance svc))
     = Some (service_endpoint svc)"
proof -
  obtain rep where rep: "add_service seen found svc (new_browser opts) = (fst (add_service seen found svc (new_browser opts)), Some rep)"
    and same: "same_record rep svc"
    using assms(1) by (simp add: add_service_def new_browser_def Let_def same_record_def)
  have inst: "service_instance rep = service_instance svc" and src: "is_channel_source rep"
    using same_recordD [OF same] assms(2) by (simp_all add: is_channel_source_def)
  have "serve_addr (on_change now rep \<lparr>sv_reg = new_registry, sv_events = [], sv_logged = []\<rparr>) (service_instance svc) = Some (service_endpoint rep)"
    unfolding inst [symmetric]
    by (rule serve.change_new [OF _ src])
       (simp_all add: serve_addr_def get_source_def new_registry_def registry_ok_def gm.holds_all_def)
  moreover have "snd (serve_run [Announce seen found now svc] (serve_init opts))
      = on_change now rep \<lparr>sv_reg = new_registry, sv_events = [], sv_logged = []\<rparr>"
    by (simp only: serve_run_def fold_simps comp_apply id_apply serve_init_def sink_step.simps) (subst rep, simp)
  ultimately show ?thesis
    using same_recordD(2) [OF same] by (simp add: serve_addr_def)
qed

lemma sample_seeded:
  "map_option so_endpoint (get_source (sv_reg (snd (fst (seed (\<lambda>_. (0, 0, 0)) sample_lezz (serve_init sample_options))))) ''c/alarm-a'')
     = Some (service_endpoint sample_seed)"
proof -
  have "is_channel_source sample_seed"
    by (simp add: is_channel_source_def sample_seed_instance) (simp add: sample_seed_def)
  from first_announcement [OF sample_options_callbacks(1) this, of 0 0 0] show ?thesis
    by (simp add: seed_run sample_seeding sample_seed_instance)
qed

theorem seeded_source_expires_witness:
  "map_option so_endpoint (get_source (sv_reg (snd (fst (seed (\<lambda>_. (0, 0, 0)) sample_lezz (serve_init sample_options))))) ''c/alarm-a'')
     = Some (service_endpoint sample_seed)
   \<and> get_source (sv_reg (snd (serve_run ([] @ [Expiry_tick (90 * second)]) (fst (seed (\<lambda>_. (0, 0, 0)) sample_lezz (serve_init sample_options))))))
       ''c/alarm-a'' = None"
proof
  show "get_source (sv_reg (snd (serve_run ([] @ [Expiry_tick (90 * second)]) (fst (seed (\<lambda>_. (0, 0, 0)) sample_lezz (serve_init sample_options))))))
       ''c/alarm-a'' = None"
  proof (rule seeded_source_expires [where evs = "[]"])
    show "list_all clean_event (seed_events (\<lambda>_. (0, 0, 0)) (smoke_alarms sample_lezz) @ [])"
      by (simp add: sample_seeding clean_event_def sample_seed_clean)
    show "list_all (\<lambda>svc. service_instance svc = ''c/alarm-a'' \<longrightarrow>
        effective_expiry (new_browser sample_options) \<le> time_sub (90 * second) (fst (0::int, 0::int, 0::int))) (smoke_alarms sample_lezz)"
      by (simp only: sample_lezz_alarms list.pred_inject fst_conv sample_expiry simp_thms)
  qed (simp_all add: sample_options_callbacks)
qed (rule sample_seeded)

end
