(* ===== verification/Cli.thy ===== *)
theory Cli
  imports Server Lezz Tv Render Signal
begin

text \<open>
  The command line (cmd/tuner/main.go): the flag readers, the dispatch, port scanning and the
  subcommands. A command is a function to what it prints, its exit code and what it leaves in the
  cable directory; the files it reads, the network, the terminal and the process table are
  arguments.
\<close>

section \<open>Results\<close>

text \<open>
  What a command does to its terminal: standard output, the lines on standard error, the exit code,
  and the program it runs in the foreground, if it runs one.
\<close>

record cli_result =
  xo_out :: string
  xo_err :: "string list"
  xo_code :: int
  xo_exec :: "(string \<times> string list) option"

definition printed :: "string \<Rightarrow> cli_result" where
  "printed s = \<lparr>xo_out = s, xo_err = [], xo_code = 0, xo_exec = None\<rparr>"

definition out_line :: "string \<Rightarrow> string" where "out_line s = s @ [newline]"

definition all_lines :: "string list \<Rightarrow> string" where "all_lines ls = concat (map out_line ls)"

text \<open>\<open>fatal\<close> after the text already printed.\<close>

definition fatal :: "string \<Rightarrow> string \<Rightarrow> cli_result" where
  "fatal before msg = \<lparr>xo_out = before, xo_err = [''error: '' @ msg], xo_code = 1, xo_exec = None\<rparr>"

section \<open>Flags and dispatch\<close>

definition flag_value :: "string list \<Rightarrow> string \<Rightarrow> string \<Rightarrow> string" where
  "flag_value args name fallback =
     (let pre = ''--'' @ name @ ''='' in
      case find (prefix pre) args of Some a \<Rightarrow> trim_prefix pre a | None \<Rightarrow> fallback)"

definition flag_present :: "string list \<Rightarrow> string \<Rightarrow> bool" where
  "flag_present args name \<longleftrightarrow> list_ex (\<lambda>a. a = ''--'' @ name) args"

datatype command =
    Serve "string list"
  | Channel "string list"
  | Discover "string list"
  | List_channels "string list"
  | Signals "string list"
  | Features "string list"
  | Mdns_monitor "string list"
  | Tv_channels "string list"
  | Validate_config "string list"
  | Print_version
  | Usage
  | Unknown_command string

definition dispatch :: "string list \<Rightarrow> command" where
  "dispatch args =
     (case args of
        [] \<Rightarrow> Serve []
      | a # rest \<Rightarrow>
          if a = ''serve'' then Serve rest
          else if a = ''channel'' then Channel rest
          else if a = ''discover'' then Discover rest
          else if a = ''list'' then List_channels rest
          else if a = ''signals'' then Signals rest
          else if a = ''features'' then Features rest
          else if a = ''mdns'' then Mdns_monitor rest
          else if a = ''tv'' then Tv_channels rest
          else if a = ''validate'' then Validate_config rest
          else if a \<in> {''version'', ''--version'', ''-v''} then Print_version
          else if a \<in> {''--help'', ''-h'', ''help''} then Usage
          else Unknown_command a)"

text \<open>\<open>printUsage\<close>, and what an unknown command gets.\<close>

definition usage_lines :: "string list" where
  "usage_lines =
     [''Usage: tuner <command> [flags]'',
      [],
      ''Commands:'',
      ''  serve       Start Tuner in broadcast or receive mode'',
      ''  channel     View or generate a TV channel (use --launch to open in Television)'',
      ''  discover    Discover smoke-alarm services via mDNS'',
      ''  list        List available channels'',
      ''  signals     Monitor alert signal strength'',
      ''  features    Browse adhd feature/skill certification (the adhd-features channel)'',
      ''  mdns        Real-time mDNS service monitor (for TV channel)'',
      ''  tv          Manage tuner'' @ [squote] @ ''s isolated TV channels (list, launch, sync)'',
      ''  validate    Validate configuration'',
      ''  version     Print version'',
      [],
      ''Flags:'',
      ''  --config=<path>     Path to config file (optional; built-in defaults used if omitted)'',
      ''  --mode=<mode>       broadcast or receive (overrides config)'',
      ''  --endpoint=<url>    smoke-alarm endpoint URL (signals), or the adhd MCP endpoint'',
      ''                      to read instead of discovering one (features)'',
      ''  --verify=<feature>  features only: ask adhd to re-probe a certified feature'',
      ''                      (rung 3; refused below it)'',
      ''  --json              features only: emit the merged view as JSON'']"

definition cmd_usage :: cli_result where "cmd_usage = printed (all_lines usage_lines)"

definition unknown_command :: "string \<Rightarrow> cli_result" where
  "unknown_command a =
     \<lparr>xo_out = all_lines usage_lines, xo_err = [''unknown command: '' @ a], xo_code = 1, xo_exec = None\<rparr>"

definition cmd_version :: "string \<Rightarrow> cli_result" where "cmd_version v = printed (out_line (''tuner '' @ v))"

text \<open>\<open>debug.ReadBuildInfo\<close>: the main module's version and the build settings.\<close>

record build_info =
  bi_version :: string
  bi_settings :: "(string \<times> string) list"

definition version_of :: "string \<Rightarrow> build_info option \<Rightarrow> string" where
  "version_of build_version bi =
     (if build_version \<noteq> [] then build_version
      else case bi of
        None \<Rightarrow> ''dev''
      | Some b \<Rightarrow>
          if bi_version b = [] \<or> bi_version b = ''(devel)'' then
            (case find (\<lambda>(k, v). k = ''vcs.revision'' \<and> length v \<ge> 8) (bi_settings b) of
               Some (k, v) \<Rightarrow> take 8 v | None \<Rightarrow> ''dev'')
          else bi_version b)"

section \<open>Binding\<close>

text \<open>\<open>listen\<close> is \<open>net.Listen\<close>: the error it fails with, or none when the address was bound.\<close>

datatype bind_error =
    Invalid_address string
  | Invalid_port string
  | Listen_failed string string
  | No_free_port string string int

definition is_addr_in_use :: "string option \<Rightarrow> bool" where
  "is_addr_in_use err =
     (case err of
        None \<Rightarrow> False
      | Some e \<Rightarrow>
          str_contains e ''address already in use''
          \<or> str_contains e (''bind: can'' @ [squote] @ ''t assign requested address''))"

fun scan_ports :: "(string \<Rightarrow> string option) \<Rightarrow> string \<Rightarrow> int \<Rightarrow> int list \<Rightarrow> bind_error + string \<Rightarrow> bind_error + string" where
  "scan_ports listen host port [] none_free = none_free"
| "scan_ports listen host port (i # js) none_free =
     (let candidate = join_host_port host (itoa (wrap64 (port + i))); err = listen candidate in
      case err of
        None \<Rightarrow> Inr candidate
      | Some e \<Rightarrow>
          if \<not> is_addr_in_use err then Inl (Listen_failed candidate e)
          else scan_ports listen host port js none_free)"

definition bind_with_retry :: "(string \<Rightarrow> string option) \<Rightarrow> string \<Rightarrow> int \<Rightarrow> bind_error + string" where
  "bind_with_retry listen addr max_retries =
     (case split_host_port addr of
        None \<Rightarrow> Inl (Invalid_address addr)
      | Some (host, port_str) \<Rightarrow>
          (case atoi port_str of
             None \<Rightarrow> Inl (Invalid_port addr)
           | Some port \<Rightarrow>
               scan_ports listen host port [0..max_retries]
                 (Inl (No_free_port addr host (wrap64 (port + max_retries))))))"

section \<open>What every command reads\<close>

text \<open>
  Loading the configuration, how errors read, the order a map is iterated in, the names in a
  directory, the home directory and \<open>PATH\<close>, and the outcome of the program run in the foreground.
\<close>

datatype dir_read = Dir_missing | Dir_failed string | Dir_names "string list"

record cli_env =
  cx_read :: "string \<Rightarrow> string + string"
  cx_unmarshal :: "string \<Rightarrow> config \<Rightarrow> string + config"
  cx_load_text :: "load_error \<Rightarrow> string"
  cx_custom_text :: "custom_error \<Rightarrow> string"
  cx_problem_text :: "feature_problem \<Rightarrow> string"
  cx_tv_text :: "tv_error \<Rightarrow> string"
  cx_viz :: bool
  cx_cable :: cable_env
  cx_iterate :: "(string \<times> preset) list \<Rightarrow> (string \<times> preset) list"
  cx_read_dir :: "string \<Rightarrow> dir_read"
  cx_look_path :: "string \<Rightarrow> string option"
  cx_run :: "string \<times> string list \<Rightarrow> string option"

definition load_for :: "cli_env \<Rightarrow> string list \<Rightarrow> load_error + config" where
  "load_for env args = load_config (cx_read env) (cx_unmarshal env) (flag_value args ''config'' [])"

definition load_failed :: "cli_env \<Rightarrow> load_error \<Rightarrow> cli_result" where
  "load_failed env e = fatal [] (''load config: '' @ cx_load_text env e)"

text \<open>Running Television in the foreground, after \<open>out\<close> was printed.\<close>

definition run_television :: "cli_env \<Rightarrow> string \<Rightarrow> string \<Rightarrow> string \<Rightarrow> cli_result" where
  "run_television env out channel dir =
     (case launch_television (cx_look_path env) (ce_home (cx_cable env)) channel dir of
        None \<Rightarrow> fatal out (''launch television: television not found in PATH (tried ''
                  @ [squote] @ ''television'' @ [squote] @ '' and '' @ [squote] @ ''tv'' @ [squote] @ '')'')
      | Some cmd \<Rightarrow>
          (case cx_run env cmd of
             None \<Rightarrow> (printed out)\<lparr>xo_exec := Some cmd\<rparr>
           | Some e \<Rightarrow> (fatal out (''launch television: '' @ e))\<lparr>xo_exec := Some cmd\<rparr>))"

section \<open>Where channels live\<close>

definition cable_dir :: "config \<Rightarrow> string" where
  "cable_dir cfg = (if tv_tuner_dir (cf_tv cfg) \<noteq> [] then tv_tuner_dir (cf_tv cfg) else tv_cable_dir (cf_tv cfg))"

definition channel_dir :: "config \<Rightarrow> string" where
  "channel_dir cfg =
     (if tv_isolate (cf_tv cfg) \<and> tv_tuner_dir (cf_tv cfg) \<noteq> [] then tv_tuner_dir (cf_tv cfg)
      else tv_cable_dir (cf_tv cfg))"

definition tv_dir :: "config \<Rightarrow> string" where
  "tv_dir cfg =
     (let dir = tv_tuner_dir (cf_tv cfg) in if dir = [] then tv_cable_dir (cf_tv cfg) else dir)"

definition launch_dir :: "config \<Rightarrow> string \<Rightarrow> string" where
  "launch_dir cfg dir = (if tv_isolate (cf_tv cfg) then dir else [])"

section \<open>tuner channel\<close>

definition write_and_launch :: "cli_env \<Rightarrow> config \<Rightarrow> preset \<Rightarrow> bool \<Rightarrow> files \<Rightarrow> files \<times> cli_result" where
  "write_and_launch env cfg p launch fs =
     (case write_channel (cx_cable env) (channel_dir cfg) p fs of
        (fs', Inl e) \<Rightarrow> (fs', fatal [] (''write channel: '' @ cx_tv_text env e))
      | (fs', Inr (path, written)) \<Rightarrow>
          let out = out_line ((if written then ''wrote channel: '' else ''channel unchanged: '') @ path) in
          if launch then
            (fs', run_television env (out @ out_line ''launching television...'') (pr_name p)
                    (launch_dir cfg (channel_dir cfg)))
          else (fs', printed out))"

definition cmd_channel :: "cli_env \<Rightarrow> string list \<Rightarrow> files \<Rightarrow> files \<times> cli_result" where
  "cmd_channel env args fs =
     (case args of
        [] \<Rightarrow> (fs, fatal [] ''usage: tuner channel <name> [--config=...] [--launch]'')
      | name # rest \<Rightarrow>
          (case load_for env rest of
             Inl e \<Rightarrow> (fs, load_failed env e)
           | Inr cfg \<Rightarrow>
               let launch = flag_present rest ''launch'' in
               (case gm_get (builtin_presets (cx_viz env)) name of
                  Some p \<Rightarrow>
                    if tv_auto_launch (cf_tv cfg) \<or> launch then write_and_launch env cfg p launch fs
                    else (fs, printed (generate_toml p))
                | None \<Rightarrow>
                    (case find (\<lambda>c. cu_name c = name) (ch_custom (cf_channels cfg)) of
                       Some c \<Rightarrow>
                         (fs, printed (out_line (''custom channel: '' @ cu_name c @ '' (source: '' @ sc_type (cu_source c) @ '')'')))
                     | None \<Rightarrow> (fs, fatal [] (''unknown channel: '' @ name))))))"

section \<open>tuner list and tuner validate\<close>

definition listed_custom :: "cli_env \<Rightarrow> channel_set \<Rightarrow> custom_channel \<Rightarrow> string" where
  "listed_custom env cs c =
     (case config_error cs (cu_name c) of
        Some e \<Rightarrow> ''  [custom] '' @ cu_name c @ '' ('' @ cx_custom_text env e @ '')''
      | None \<Rightarrow> ''  [custom] '' @ cu_name c @ '' ('' @ sc_type (cu_source c) @ '')'')"

definition cmd_list :: "cli_env \<Rightarrow> string list \<Rightarrow> cli_result" where
  "cmd_list env args =
     (case load_for env args of
        Inl e \<Rightarrow> load_failed env e
      | Inr cfg \<Rightarrow>
          let chs = cf_channels cfg in
          printed (all_lines
            ([''Available channels:'']
             @ map (\<lambda>p. ''  [preset] '' @ pc_name p) (ch_preset chs)
             @ map (listed_custom env (new_set (ch_custom chs))) (ch_custom chs)
             @ [''  [browser] '' @ feature_channel_name @ '' (adhd mcp)''])))"

definition cmd_validate :: "cli_env \<Rightarrow> 'u url_codec \<Rightarrow> string list \<Rightarrow> cli_result" where
  "cmd_validate env U args =
     (case load_for env args of
        Inl e \<Rightarrow> fatal [] (''config error: '' @ cx_load_text env e)
      | Inr cfg \<Rightarrow>
          let custom = validate (ch_custom (cf_channels cfg));
              features = validate_feature_config U (cf_features cfg)
          in if length custom > 0 then
               (fatal [] [])\<lparr>xo_err := map (\<lambda>e. ''error: '' @ cx_custom_text env e) custom
                  @ [''error: '' @ show_nat (length custom) @ '' invalid custom channel(s)'']\<rparr>
             else if length features > 0 then
               (fatal [] [])\<lparr>xo_err := map (\<lambda>e. ''error: '' @ cx_problem_text env e) features
                  @ [''error: '' @ show_nat (length features) @ '' invalid feature_browser entr(ies)'']\<rparr>
             else printed (out_line
               (''config OK: version='' @ cf_version cfg @ '' mode='' @ cf_mode cfg @ '' channels=''
                @ show_nat (length (ch_preset (cf_channels cfg)) + length (ch_custom (cf_channels cfg))))))"

section \<open>tuner tv\<close>

definition channel_of_file :: "string \<Rightarrow> string" where
  "channel_of_file f = trim_prefix ''ocd-'' (trim_suffix ''.toml'' f)"

definition list_tuner_channels :: "dir_read \<Rightarrow> string list" where
  "list_tuner_channels d =
     (case d of Dir_names fs \<Rightarrow> map channel_of_file (filter (suffix ''.toml'') fs) | _ \<Rightarrow> [])"

definition preset_lines :: "cli_env \<Rightarrow> string list" where
  "preset_lines env =
     map (\<lambda>(name, p). ''  '' @ pad_right 12 name @ '' '' @ pr_description p) (cx_iterate env (builtin_presets (cx_viz env)))"

definition tv_list :: "cli_env \<Rightarrow> config \<Rightarrow> string \<Rightarrow> cli_result" where
  "tv_list env cfg dir =
     (let head = out_line (''Tuner Cable Directory: '' @ dir)
            @ out_line (''Isolation: '' @ (if tv_isolate (cf_tv cfg) then ''true'' else ''false'')) @ out_line [];
          presets = [[], ''Available presets:''] @ preset_lines env
      in case cx_read_dir env dir of
           Dir_missing \<Rightarrow>
             printed (head @ all_lines ([''No channels yet. Use '' @ [squote] @ ''tuner channel <name>'' @ [squote]
               @ '' to create one.''] @ presets))
         | Dir_failed e \<Rightarrow> fatal head (''read cable dir: '' @ e)
         | Dir_names fs \<Rightarrow>
             let names = list_tuner_channels (Dir_names fs) in
             printed (head @ all_lines ([''Channels:''] @ map (\<lambda>n. ''  '' @ n) names
               @ (if length names = 0 then [''  (none)''] else []) @ presets)))"

text \<open>The picker: a number of the list, or a name, with or without the prefix.\<close>

definition pick_channel :: "string list \<Rightarrow> string \<Rightarrow> string" where
  "pick_channel channels input =
     (let by_name = (case find (\<lambda>ch. equal_fold ch input \<or> equal_fold (trim_prefix ''ocd-'' ch) input) channels of
                       Some ch \<Rightarrow> ch | None \<Rightarrow> [])
      in case atoi input of
           Some num \<Rightarrow> if num \<ge> 1 \<and> num \<le> int (length channels) then channels ! nat (num - 1) else by_name
         | None \<Rightarrow> by_name)"

fun numbered :: "nat \<Rightarrow> string list \<Rightarrow> string list" where
  "numbered i [] = []"
| "numbered i (ch # chs) = (''  ['' @ show_nat (Suc i) @ ''] '' @ ch) # numbered (Suc i) chs"

definition launch_channel :: "cli_env \<Rightarrow> config \<Rightarrow> string \<Rightarrow> string \<Rightarrow> string \<Rightarrow> cli_result" where
  "launch_channel env cfg dir before name =
     run_television env (before @ out_line (''Launching: '' @ name @ '' (cable: '' @ dir @ '')'')) name
       (launch_dir cfg (tv_dir cfg))"

definition tv_launch :: "cli_env \<Rightarrow> config \<Rightarrow> string \<Rightarrow> string list \<Rightarrow> string \<Rightarrow> cli_result" where
  "tv_launch env cfg dir args typed =
     (let named = (case args of a # _ \<Rightarrow> if prefix ''--'' a then [] else a | [] \<Rightarrow> []) in
      if named \<noteq> [] then launch_channel env cfg dir [] named
      else let channels = list_tuner_channels (cx_read_dir env dir) in
        if length channels = 0 then
          printed (out_line (''No tuner channels available. Run '' @ [squote] @ ''tuner tv sync'' @ [squote] @ '' first.''))
        else let prompt = all_lines ([''Tuner Channels (isolated from TV defaults):'', []] @ numbered 0 channels @ [[]])
                   @ ''Select channel (number or name): '';
                 chosen = pick_channel channels (trim_space typed)
             in if chosen = [] then fatal prompt (''invalid selection: '' @ trim_space typed)
                else launch_channel env cfg dir prompt chosen)"

definition tv_sync :: "cli_env \<Rightarrow> config \<Rightarrow> string \<Rightarrow> files \<Rightarrow> files \<times> cli_result" where
  "tv_sync env cfg dir fs =
     (let head = out_line (''Syncing presets to: '' @ dir) in
      case write_presets (cx_cable env) (tv_dir cfg) (map snd (cx_iterate env (builtin_presets (cx_viz env)))) fs of
        (fs', paths, written, Some e) \<Rightarrow> (fs', fatal head (''sync presets: '' @ cx_tv_text env e))
      | (fs', paths, written, None) \<Rightarrow>
          (fs', printed (head
             @ out_line (''Synced '' @ show_nat (length paths) @ '' channels ('' @ show_nat written @ '' written, ''
                 @ show_nat (length paths - written) @ '' unchanged)'')
             @ all_lines (map (\<lambda>p. ''  '' @ p) paths))))"

definition tv_usage :: "string \<Rightarrow> cli_result" where
  "tv_usage sub =
     (fatal [] [])\<lparr>xo_err :=
        [''unknown tv subcommand: '' @ sub,
         ''usage: tuner tv [list|launch|sync] [--config=...]'',
         ''  list    List tuner-managed channels'',
         ''  launch  Open Television with tuner channels only'',
         ''  sync    Write all preset channels to cable directory'']\<rparr>"

definition cmd_tv :: "cli_env \<Rightarrow> string list \<Rightarrow> string \<Rightarrow> files \<Rightarrow> files \<times> cli_result" where
  "cmd_tv env args0 typed fs =
     (case load_for env args0 of
        Inl e \<Rightarrow> (fs, load_failed env e)
      | Inr cfg \<Rightarrow>
          let dir = expand_home (ce_home (cx_cable env)) (tv_dir cfg);
              (sub, args) = (case args0 of
                 a # rest \<Rightarrow> if prefix ''--'' a then (''list'', args0) else (a, rest)
               | [] \<Rightarrow> (''list'', []))
          in if sub = ''list'' then (fs, tv_list env cfg dir)
             else if sub = ''launch'' \<or> sub = ''open'' then (fs, tv_launch env cfg dir args typed)
             else if sub = ''sync'' then tv_sync env cfg dir fs
             else (fs, tv_usage sub))"

section \<open>tuner mdns and tuner discover\<close>

definition default_mdns_types :: string where
  "default_mdns_types =
     str_join '','' [''_smoke-alarm._tcp'', ''_tuner._tcp'', ''_http._tcp'', ''_https._tcp'', ''_ssh._tcp'', ''_smb._tcp'',
       ''_afpovertcp._tcp'', ''_airplay._tcp'', ''_raop._tcp'', ''_homekit._tcp'', ''_googlecast._tcp'', ''_spotify-connect._tcp'']"

definition mdns_types :: "string list \<Rightarrow> string" where
  "mdns_types args = flag_value args ''services'' default_mdns_types"

definition scan_duration :: "string list \<Rightarrow> duration" where
  "scan_duration args =
     (case parse_duration (flag_value args ''duration'' ''8s'') of Some d \<Rightarrow> d | None \<Rightarrow> 8 * second)"

definition mdns_options :: "string list \<Rightarrow> browser_options" where
  "mdns_options args =
     \<lparr>bo_types = map trim_space (split_char (CHR '','') (mdns_types args)), bo_domains = [''local''],
      bo_interval = 1 * second, bo_on_change = True, bo_on_remove = False, bo_quiet = True\<rparr>"

text \<open>One discovered record on standard output: \<open>json\<close> is the encoder, \<open>clock\<close> the time of day.\<close>

definition pad_digits :: "nat \<Rightarrow> string \<Rightarrow> string" where
  "pad_digits n s = s @ replicate (n - length s) (CHR '' '')"

definition mdns_line :: "(service \<Rightarrow> string) \<Rightarrow> string \<Rightarrow> string \<Rightarrow> service \<Rightarrow> string" where
  "mdns_line json clock format svc =
     (if format = ''json'' then out_line (json svc)
      else let txt = (if length (sv_txt svc) > 0
                      then '' ['' @ str_join '', '' (map (\<lambda>(k, v). k @ ''='' @ v) (sv_txt svc)) @ '']'' else [])
           in out_line (clock @ '' '' @ pad_right 20 (sv_type svc) @ '' '' @ sv_host svc @ '':''
                @ pad_digits 5 (itoa (sv_port svc)) @ '' '' @ sv_name svc @ txt))"

definition mdns_summary :: "browser \<Rightarrow> string" where
  "mdns_summary b =
     ''# discovered '' @ show_nat (length (services b)) @ '' service record(s) across ''
     @ show_nat (length (endpoints b)) @ '' endpoint(s)''"

text \<open>
  The two commands over what the network does during their scan: a new record is printed when the
  browser reports it. A departure is not reported, neither command asks for it.
\<close>

definition scan_output :: "(time \<Rightarrow> service \<Rightarrow> string) \<Rightarrow> browser_options \<Rightarrow> net_event list \<Rightarrow> browser \<times> string" where
  "scan_output show_record opts evs =
     fold (sink_step (\<lambda>now svc out. out @ show_record now svc) (\<lambda>svc out. out)) evs (new_browser opts, [])"

definition cmd_mdns :: "(service \<Rightarrow> string) \<Rightarrow> (time \<Rightarrow> string) \<Rightarrow> string list \<Rightarrow> net_event list \<Rightarrow> cli_result" where
  "cmd_mdns json clock args evs =
     (let format = flag_value args ''format'' ''line'' in
      case scan_output (\<lambda>now. mdns_line json (clock now) format) (mdns_options args) evs of
        (b, out) \<Rightarrow> (printed out)\<lparr>xo_err := [mdns_summary b]\<rparr>)"

definition discover_options :: "config \<Rightarrow> browser_options" where
  "discover_options cfg =
     \<lparr>bo_types = browse_types (cf_mdns cfg), bo_domains = md_domains (cf_mdns cfg), bo_interval = 5 * second,
      bo_on_change = True, bo_on_remove = False, bo_quiet = False\<rparr>"

definition cmd_discover :: "cli_env \<Rightarrow> ((string, string) gomap \<Rightarrow> string) \<Rightarrow> (string \<Rightarrow> string) \<Rightarrow>
    string list \<Rightarrow> net_event list \<Rightarrow> cli_result" where
  "cmd_discover env txt_text quote args evs =
     (case load_for env args of
        Inl e \<Rightarrow> load_failed env e
      | Inr cfg \<Rightarrow>
          let found = (\<lambda>now svc. out_line (''  found: '' @ sv_type svc @ '' at '' @ service_endpoint svc
                 @ '' (txt: '' @ txt_text (sv_txt svc) @ '')''))
          in case scan_output found (discover_options cfg) evs of
               (b, out) \<Rightarrow>
                 printed (out_line ''discovering services via mDNS...'' @ out
                   @ (if length (services b) = 0
                      then out_line (''no services found '' @ em_dash
                             @ '' ensure other tuner or smoke-alarm instances are running on the local network'')
                      else out_line (''found '' @ show_nat (length (services b)) @ '' service(s):'')
                           @ all_lines (map (\<lambda>svc. ''  '' @ sv_type svc @ '' '' @ quote (sv_name svc) @ '' at ''
                               @ service_endpoint svc @ '' (txt: '' @ txt_text (sv_txt svc) @ '')'') (services b)))))"

section \<open>tuner features\<close>

text \<open>The isotope endpoints a browser holds, type by type.\<close>

definition isotope_endpoints :: "config \<Rightarrow> browser option \<Rightarrow> endpoint list" where
  "isotope_endpoints cfg browser =
     (case browser of
        None \<Rightarrow> []
      | Some b \<Rightarrow> concat (map (endpoints_by_type b) (md_isotope_types (cf_mdns cfg))))"

text \<open>\<open>scan\<close> is the bounded browse: the browser of the given options after its three seconds.\<close>

definition browse_isotopes :: "(browser_options \<Rightarrow> browser) \<Rightarrow> config \<Rightarrow> endpoint list" where
  "browse_isotopes scan cfg =
     (let types = md_isotope_types (cf_mdns cfg) in
      if length types = 0 then []
      else let b = scan \<lparr>bo_types = types, bo_domains = md_domains (cf_mdns cfg), bo_interval = 5 * second,
                        bo_on_change = False, bo_on_remove = False, bo_quiet = True\<rparr>
           in concat (map (endpoints_by_type b) types))"

definition cli_feature_sources :: "'u url_codec \<Rightarrow> (browser_options \<Rightarrow> browser) \<Rightarrow> config \<Rightarrow> string \<Rightarrow> mcp_source list" where
  "cli_feature_sources U scan cfg ep =
     (if trim_space ep \<noteq> [] then
        map (\<lambda>s. s\<lparr>ms_origin := ''flag''\<rparr>) (config_sources U [\<lparr>fe_name = [], fe_url = ep\<rparr>])
      else source_set (discovered_sources U (browse_isotopes scan cfg))
             (config_sources U (fb_endpoints (cf_features cfg))))"

text \<open>
  The outside of one run: the network of the certification browser, the clock of the fetch and of
  its sources, the bounded browse, the two JSON encoders (with a line feed at the end, or an error),
  how a verification error reads, and the conversion of an out-of-range float.
\<close>

record 'u features_env =
  fx_urls :: "'u url_codec"
  fx_fetch :: fetch_env
  fx_now :: time
  fx_stamps :: "mcp_source \<Rightarrow> time"
  fx_scan :: "browser_options \<Rightarrow> browser"
  fx_view_json :: "view \<Rightarrow> string + string"
  fx_verify_json :: "verify_result \<Rightarrow> string + string"
  fx_verify_text :: "verify_error \<Rightarrow> string"
  fx_impl :: "f64 \<Rightarrow> int"

definition features_fetch :: "'u features_env \<Rightarrow> string \<Rightarrow> config \<Rightarrow> fetch_env" where
  "features_fetch fx ver cfg = (fx_fetch fx)\<lparr>fv_version := ver, fv_identity := Some (feature_identity cfg)\<rparr>"

definition features_view :: "'u features_env \<Rightarrow> string \<Rightarrow> config \<Rightarrow> string \<Rightarrow> view" where
  "features_view fx ver cfg ep =
     fetch_view (features_fetch fx ver cfg) (fx_now fx) (fx_stamps fx)
       (cli_feature_sources (fx_urls fx) (fx_scan fx) cfg ep)"

definition cmd_features :: "cli_env \<Rightarrow> 'u features_env \<Rightarrow> string \<Rightarrow> string list \<Rightarrow> mcp_request list \<times> cli_result" where
  "cmd_features env fx ver args =
     (case load_for env args of
        Inl e \<Rightarrow> ([], load_failed env e)
      | Inr cfg \<Rightarrow>
          let feature = flag_value args ''verify'' [];
              as_json = flag_present args ''json'';
              warnings = map (\<lambda>p. ''warning: '' @ cx_problem_text env p)
                           (validate_feature_config (fx_urls fx) (cf_features cfg));
              warn = (\<lambda>r. r\<lparr>xo_err := warnings @ xo_err r\<rparr>);
              v = features_view fx ver cfg (flag_value args ''endpoint'' [])
          in if feature \<noteq> [] then
               (case verify (features_fetch fx ver cfg) v feature of
                  (sent, Inl e) \<Rightarrow> (sent, warn (fatal [] (fx_verify_text fx e)))
                | (sent, Inr r) \<Rightarrow>
                    (sent, warn (if as_json then
                        (case fx_verify_json fx r of
                           Inl e \<Rightarrow> fatal [] (''encode verify result: '' @ e) | Inr j \<Rightarrow> printed j)
                      else printed (all_lines (render_verify r)))))
             else
               ([], warn (if as_json then
                   (case fx_view_json fx v of Inl e \<Rightarrow> fatal [] (''encode view: '' @ e) | Inr j \<Rightarrow> printed j)
                 else printed (all_lines (render_view (fx_impl fx) v)))))"

section \<open>tuner signals\<close>

text \<open>
  The outside of one run: the smoke alarms the five-second browse ended with and those of the lezz
  demo registry, \<open>http.Get\<close> with the text of the status line, the decoders of a status document, the
  clock at each alert, how a duration reads.
\<close>

record signals_env =
  sx_discovered :: "service list"
  sx_lezz :: "service list"
  sx_get :: "string \<Rightarrow> string + (http_response \<times> string)"
  sx_json_alerts :: "string \<Rightarrow> string + alert list"
  sx_json_document :: "string \<Rightarrow> string + status_document"
  sx_status_text :: "Signal.status_error \<Rightarrow> string"
  sx_now :: "nat \<Rightarrow> time"
  sx_alerts_json :: "alert list \<Rightarrow> string + string"
  sx_duration :: "duration \<Rightarrow> string"
  sx_impl :: "f64 \<Rightarrow> int"

text \<open>The endpoint to read, if there is one: named by the flag, else the first one discovered.\<close>

definition signals_endpoint :: "signals_env \<Rightarrow> string \<Rightarrow> string option" where
  "signals_endpoint sx flag =
     (if flag \<noteq> [] then Some flag
      else let svcs = (if length (sx_discovered sx) = 0 then sx_lezz sx else sx_discovered sx)
           in case svcs of [] \<Rightarrow> None | svc # _ \<Rightarrow> Some (service_endpoint svc))"

definition signal_lines :: "signals_env \<Rightarrow> config \<Rightarrow> alert list \<Rightarrow> string list" where
  "signal_lines sx cfg alerts =
     map (\<lambda>(i, a).
        let v = strength (sx_now sx i) a (max_age_duration cfg)
        in ''  '' @ pad_right 20 (al_source a) @ '' ['' @ viz_bar (sx_impl sx) v (sg_viz_bars (cf_signal cfg)) @ ''] ''
           @ fmt_whole (f64_mul v (f64_of_int 100)) @ ''% '' @ al_severity a) (enumerate 0 alerts)
     @ (if length alerts = 0 then [''  No active alerts''] else [])"

definition rule_mark :: string where "rule_mark = [CHR 0xE2, CHR 0x94, CHR 0x80]"

text \<open>
  What follows the choice of the endpoint. A note goes to standard error when standard output is a
  document.
\<close>

definition show_signals :: "signals_env \<Rightarrow> config \<Rightarrow> bool \<Rightarrow> string list \<Rightarrow> string \<Rightarrow> cli_result" where
  "show_signals sx cfg as_json notes ep =
     (let before = (if as_json then [] else all_lines notes);
          noted = (\<lambda>r. r\<lparr>xo_err := (if as_json then notes else []) @ xo_err r\<rparr>);
          url = ep @ ''/status''
      in noted (case sx_get sx url of
           Inl e \<Rightarrow> fatal before (''fetch status: '' @ e)
         | Inr (resp, status) \<Rightarrow>
             if hr_code resp < 200 \<or> hr_code resp \<ge> 300 then
               fatal before (''fetch status: '' @ url @ '' returned '' @ status)
             else case hr_broken resp of
               Some e \<Rightarrow> fatal before (''read status: '' @ e)
             | None \<Rightarrow>
                 (case decode_status (sx_json_alerts sx) (sx_json_document sx) (hr_body resp) of
                    Inl e \<Rightarrow> fatal before (sx_status_text sx e)
                  | Inr alerts \<Rightarrow>
                      if as_json then
                        (case sx_alerts_json sx alerts of
                           Inl e \<Rightarrow> fatal before (''encode alerts: '' @ e) | Inr j \<Rightarrow> printed (before @ j))
                      else printed (before @ all_lines
                        ([[], ''Signal Strength (max age: '' @ sx_duration sx (max_age_duration cfg) @ '')'',
                          repeat_str rule_mark 50] @ signal_lines sx cfg alerts)))))"

definition cmd_signals :: "cli_env \<Rightarrow> signals_env \<Rightarrow> string list \<Rightarrow> cli_result" where
  "cmd_signals env sx args =
     (case load_for env args of
        Inl e \<Rightarrow> load_failed env e
      | Inr cfg \<Rightarrow>
          let as_json = flag_present args ''json'';
              flag = flag_value args ''endpoint'' [];
              looking = (if flag \<noteq> [] then [] else [''discovering smoke-alarm services...''])
          in case signals_endpoint sx flag of
               None \<Rightarrow>
                 (fatal (if as_json then [] else all_lines looking)
                    ''no smoke-alarm services found. Use --endpoint=<url> to specify manually.'')
                 \<lparr>xo_err := (if as_json then looking else [])
                    @ [''error: no smoke-alarm services found. Use --endpoint=<url> to specify manually.'']\<rparr>
             | Some ep \<Rightarrow>
                 show_signals sx cfg as_json (if flag \<noteq> [] then [] else looking @ [''using: '' @ ep]) ep)"

section \<open>Port scanning\<close>

definition candidate :: "string \<Rightarrow> int \<Rightarrow> int \<Rightarrow> string" where
  "candidate host port i = join_host_port host (itoa (wrap64 (port + i)))"

lemma scan_ports_found:
  "scan_ports listen host port [lo..hi] (Inl e) = Inr c \<longleftrightarrow>
     (\<exists>i. lo \<le> i \<and> i \<le> hi \<and> c = candidate host port i \<and> listen c = None
        \<and> (\<forall>j \<in> {lo..<i}. is_addr_in_use (listen (candidate host port j))))"
proof (induction lo hi rule: upto.induct)
  case (1 lo hi)
  let ?c = "candidate host port lo"
  let ?found = "\<lambda>l. \<exists>i. l \<le> i \<and> i \<le> hi \<and> c = candidate host port i \<and> listen c = None
        \<and> (\<forall>j \<in> {l..<i}. is_addr_in_use (listen (candidate host port j)))"
  show ?case
  proof (cases "lo \<le> hi")
    case False
    then show ?thesis by auto
  next
    case le: True
    then have cons: "[lo..hi] = lo # [lo + 1..hi]" by (rule upto_rec1)
    have later: "?found lo \<longleftrightarrow> (c = ?c \<and> listen c = None) \<or> (is_addr_in_use (listen ?c) \<and> ?found (lo + 1))"
    proof
      assume "?found lo"
      then obtain i where i: "lo \<le> i" "i \<le> hi" "c = candidate host port i" "listen c = None"
        "\<forall>j \<in> {lo..<i}. is_addr_in_use (listen (candidate host port j))" by blast
      show "(c = ?c \<and> listen c = None) \<or> (is_addr_in_use (listen ?c) \<and> ?found (lo + 1))"
      proof (cases "i = lo")
        case False
        then have "lo + 1 \<le> i" "is_addr_in_use (listen ?c)" using i(1,5) by auto
        moreover have "\<forall>j \<in> {lo + 1..<i}. is_addr_in_use (listen (candidate host port j))" using i(5) by auto
        ultimately show ?thesis using i(2-4) by blast
      qed (use i in simp)
    next
      assume "(c = ?c \<and> listen c = None) \<or> (is_addr_in_use (listen ?c) \<and> ?found (lo + 1))"
      then show "?found lo"
      proof
        assume "c = ?c \<and> listen c = None"
        then show "?found lo" using le by (intro exI [of _ lo]) auto
      next
        assume h: "is_addr_in_use (listen ?c) \<and> ?found (lo + 1)"
        then obtain i where i: "lo + 1 \<le> i" "i \<le> hi" "c = candidate host port i" "listen c = None"
          "\<forall>j \<in> {lo + 1..<i}. is_addr_in_use (listen (candidate host port j))" by blast
        have "is_addr_in_use (listen (candidate host port j))" if "j \<in> {lo..<i}" for j
          using i h that by (cases "j = lo") auto
        with i show "?found lo" by (intro exI [of _ i]) auto
      qed
    qed
    show ?thesis
    proof (cases "listen ?c")
      case None
      then have "\<not> is_addr_in_use (listen ?c)" by (simp add: is_addr_in_use_def)
      moreover have "scan_ports listen host port [lo..hi] (Inl e) = Inr ?c"
        using None by (simp add: cons candidate_def [symmetric] Let_def)
      ultimately show ?thesis using later None by auto
    next
      case (Some e')
      then have "scan_ports listen host port [lo..hi] (Inl e) =
          (if is_addr_in_use (listen ?c) then scan_ports listen host port [lo + 1..hi] (Inl e)
           else Inl (Listen_failed ?c e'))"
        by (simp add: cons candidate_def [symmetric] Let_def)
      then show ?thesis using later Some 1 [OF le] by auto
    qed
  qed
qed

lemma scan_ports_failed:
  "scan_ports listen host port [lo..hi] (Inl e) = Inl e' \<Longrightarrow>
     (e' = e \<and> (\<forall>j \<in> {lo..hi}. is_addr_in_use (listen (candidate host port j)))) \<or>
     (\<exists>i er. lo \<le> i \<and> i \<le> hi \<and> e' = Listen_failed (candidate host port i) er \<and> listen (candidate host port i) = Some er)"
proof (induction lo hi rule: upto.induct)
  case (1 lo hi)
  show ?case
  proof (cases "lo \<le> hi")
    case True
    then have cons: "[lo..hi] = lo # [lo + 1..hi]" by (rule upto_rec1)
    show ?thesis
    proof (cases "is_addr_in_use (listen (candidate host port lo))")
      case used: True
      then have "scan_ports listen host port [lo + 1..hi] (Inl e) = Inl e'"
        using 1(2) by (auto simp: cons candidate_def [symmetric] Let_def is_addr_in_use_def split: option.splits)
      from 1(1) [OF True this] show ?thesis
      proof (elim disjE exE conjE)
        assume "e' = e" and rest: "\<forall>j \<in> {lo + 1..hi}. is_addr_in_use (listen (candidate host port j))"
        have "is_addr_in_use (listen (candidate host port j))" if "j \<in> {lo..hi}" for j
          using rest used that by (cases "j = lo") auto
        then show ?thesis using \<open>e' = e\<close> by blast
      next
        fix i er
        assume "lo + 1 \<le> i" "i \<le> hi" "e' = Listen_failed (candidate host port i) er"
          "listen (candidate host port i) = Some er"
        then have "lo \<le> i" by simp
        with \<open>i \<le> hi\<close> \<open>e' = _\<close> \<open>listen _ = _\<close> show ?thesis by blast
      qed
    next
      case False
      then obtain er where "listen (candidate host port lo) = Some er" "e' = Listen_failed (candidate host port lo) er"
        using 1(2) by (auto simp: cons candidate_def [symmetric] Let_def split: option.splits)
      then show ?thesis using True by blast
    qed
  qed (use 1 in simp)
qed

text \<open>C27: A listener is bound to the first port of its range that is free: for an address whose port
  is a number, the scan binds exactly the lowest of the ports from it to \<open>max_retries\<close> above it
  that can be bound while each one below reports that it is in use; and it fails only with the
  failure of a port it tried or because every one of them is in use.\<close>

theorem bind_lowest_free:
  assumes "split_host_port addr = Some (host, p)" and "atoi p = Some port"
  shows "(bind_with_retry listen addr n = Inr c) =
      (\<exists>i. 0 \<le> i \<and> i \<le> n \<and> c = candidate host port i \<and> listen c = None
        \<and> (\<forall>j \<in> {0..<i}. is_addr_in_use (listen (candidate host port j))))
    \<and> (\<forall>e. bind_with_retry listen addr n = Inl e \<longrightarrow>
        (e = No_free_port addr host (wrap64 (port + n)) \<and> (\<forall>j \<in> {0..n}. is_addr_in_use (listen (candidate host port j))))
        \<or> (\<exists>i er. 0 \<le> i \<and> i \<le> n \<and> e = Listen_failed (candidate host port i) er
             \<and> listen (candidate host port i) = Some er))"
  using assms scan_ports_found [of listen host port 0 n] scan_ports_failed [of listen host port 0 n]
  by (simp add: bind_with_retry_def)

text \<open>For the witness: ports 58092 and 58093 are taken.\<close>

definition taken_listen :: "string \<Rightarrow> string option" where
  "taken_listen addr =
     (if addr \<in> {''h:58092'', ''h:58093''} then Some ''listen tcp: bind: address already in use'' else None)"

theorem bind_lowest_free_witness:
  "bind_with_retry taken_listen ''h:58092'' 10 = Inr (candidate ''h'' 58092 2)"
proof -
  have digits: "digit_char 0 = CHR ''0''" "digit_char 2 = CHR ''2''" "digit_char 3 = CHR ''3''" "digit_char 4 = CHR ''4''"
      "digit_char 5 = CHR ''5''" "digit_char 8 = CHR ''8''" "digit_char 9 = CHR ''9''"
    by code_simp+
  have ports: "itoa 58092 = ''58092''" "itoa 58093 = ''58093''" "itoa 58094 = ''58094''"
    by (simp_all add: itoa_def show_nat.simps digits)
  have num: "atoi ''58092'' = Some 58092" using atoi_itoa [of 58092] ports(1) by simp
  have split: "split_host_port ''h:58092'' = Some (''h'', ''58092'')" by code_simp
  have c: "candidate ''h'' 58092 0 = ''h:58092''" "candidate ''h'' 58092 1 = ''h:58093''" "candidate ''h'' 58092 2 = ''h:58094''"
    by (simp_all add: candidate_def wrap64_id ports join_host_port_def)
  have used: "is_addr_in_use (Some ''listen tcp: bind: address already in use'')" by code_simp
  have taken: "is_addr_in_use (taken_listen (candidate ''h'' 58092 j))" if "j \<in> {0..<2}" for j :: int
  proof -
    have "j = 0 \<or> j = 1" using that by auto
    then show ?thesis using c used by (auto simp: taken_listen_def)
  qed
  have free: "taken_listen (candidate ''h'' 58092 2) = None" by (simp add: c taken_listen_def)
  have "\<exists>i. 0 \<le> i \<and> i \<le> (10::int) \<and> candidate ''h'' 58092 2 = candidate ''h'' 58092 i
      \<and> taken_listen (candidate ''h'' 58092 2) = None \<and> (\<forall>j \<in> {0..<i}. is_addr_in_use (taken_listen (candidate ''h'' 58092 j)))"
    using taken free by (intro exI [of _ 2]) simp
  then show ?thesis
    using bind_lowest_free [OF split num, of taken_listen 10 "candidate ''h'' 58092 2"] by simp
qed

section \<open>Documents on standard output\<close>

lemma fatal_simps [simp]:
  "xo_out (fatal before msg) = before" "xo_code (fatal before msg) = 1" "xo_exec (fatal before msg) = None"
  "xo_err (fatal before msg) = [''error: '' @ msg]"
  by (simp_all add: fatal_def)

lemma printed_simps [simp]:
  "xo_out (printed out) = out" "xo_code (printed out) = 0" "xo_exec (printed out) = None" "xo_err (printed out) = []"
  by (simp_all add: printed_def)

text \<open>C28: \<open>tuner signals --json\<close> stays parseable: whatever happens, standard output is empty or one
  encoded alert array; progress notes and errors go to standard error, and the exit code is 0
  exactly when the array was written by an encoder that did not fail.\<close>

theorem signals_json_clean:
  assumes "flag_present args ''json''"
  shows "(xo_code (cmd_signals env sx args) = 1 \<and> xo_out (cmd_signals env sx args) = [])
    \<or> (xo_code (cmd_signals env sx args) = 0 \<and>
        (\<exists>alerts. sx_alerts_json sx alerts = Inr (xo_out (cmd_signals env sx args))))"
proof (cases "load_for env args")
  case (Inl e)
  then show ?thesis by (simp add: cmd_signals_def load_failed_def)
next
  case (Inr cfg)
  show ?thesis
  proof (cases "signals_endpoint sx (flag_value args ''endpoint'' [])")
    case None
    then show ?thesis using Inr assms by (simp add: cmd_signals_def Let_def)
  next
    case (Some ep)
    define msgs where "msgs = (if flag_value args ''endpoint'' [] \<noteq> [] then []
        else [''discovering smoke-alarm services...''] @ [''using: '' @ ep])"
    have cmd: "cmd_signals env sx args = show_signals sx cfg True msgs ep"
      using Inr Some assms by (simp add: cmd_signals_def Let_def msgs_def)
    show ?thesis
      unfolding cmd show_signals_def Let_def by (auto split: sum.split option.split prod.split)
  qed
qed

definition sample_cli :: cli_env where
  "sample_cli =
     \<lparr>cx_read = (\<lambda>_. Inl ''missing''), cx_unmarshal = (\<lambda>_ c. Inr c), cx_load_text = (\<lambda>_. []), cx_custom_text = (\<lambda>_. []),
      cx_problem_text = (\<lambda>_. []), cx_tv_text = (\<lambda>_. []), cx_viz = False, cx_cable = sample_env, cx_iterate = id,
      cx_read_dir = (\<lambda>_. Dir_names [channel_file ''c/alarm-a'']),
      cx_look_path = (\<lambda>p. if p = ''tv'' then Some ''/bin/tv'' else None), cx_run = (\<lambda>_. None)\<rparr>"

definition sample_signals :: signals_env where
  "sample_signals =
     \<lparr>sx_discovered = [], sx_lezz = [],
      sx_get = (\<lambda>u. Inr (\<lparr>hr_code = 200, hr_body = ''[]'', hr_broken = None\<rparr>, ''200 OK'')),
      sx_json_alerts = (\<lambda>_. Inr []), sx_json_document = (\<lambda>_. Inl ''none''), sx_status_text = (\<lambda>_. []), sx_now = (\<lambda>_. 0),
      sx_alerts_json = (\<lambda>_. Inr ''[]''), sx_duration = (\<lambda>_. ''30m0s''), sx_impl = (\<lambda>_. 0)\<rparr>"

theorem signals_json_clean_witness:
  "xo_out (cmd_signals sample_cli sample_signals [''--json'', ''--endpoint=http://h:1'']) \<in> {[], ''[]''}"
  using signals_json_clean [of "[''--json'', ''--endpoint=http://h:1'']" sample_cli sample_signals]
  by (auto simp: flag_present_def sample_signals_def)

text \<open>
  The records of a scan: while no record expires, each one the browser holds was printed once, when
  it was new, in the order they are held in.
\<close>

lemma put_keys: "map fst (gm_put k v m) = (if gm_get m k = None then map fst m @ [k] else map fst m)"
  by (induction m) auto

lemma scan_announced:
  assumes "bo_on_change opts" and "list_all (\<lambda>ev. case ev of Announce _ _ _ _ \<Rightarrow> True | Expiry_tick _ \<Rightarrow> False) evs"
  shows "\<exists>ps. scan_output show_record opts evs = (b, out) \<longrightarrow>
    out = concat (map (\<lambda>(now, svc). show_record now svc) ps)
    \<and> map (\<lambda>(now, svc). record_key svc) ps = map fst (br_services b) \<and> records_ok (br_services b)"
proof -
  have "\<exists>ps. out = concat (map (\<lambda>(now, svc). show_record now svc) ps)
      \<and> map (\<lambda>(now, svc). record_key svc) ps = map fst (br_services b) \<and> records_ok (br_services b) \<and> br_has_on_change b"
    if "scan_output show_record opts evs = (b, out)" for b out
    using assms(2) that
  proof (induction evs arbitrary: b out rule: rev_induct)
    case Nil
    then have b: "b = new_browser opts" "out = []" by (simp_all add: scan_output_def)
    have "br_services b = []" "br_has_on_change b"
      using assms(1) by (simp_all add: b new_browser_def Let_def)
    then show ?case using b(2) by (intro exI [of _ "[]"]) (simp add: records_ok_def)
  next
    case (snoc ev evs)
    obtain seen found now svc where ev: "ev = Announce seen found now svc"
      using snoc.prems(1) by (cases ev) auto
    obtain b0 out0 where run: "scan_output show_record opts evs = (b0, out0)" by fastforce
    obtain ps where ps: "out0 = concat (map (\<lambda>(now, svc). show_record now svc) ps)"
      "map (\<lambda>(now, svc). record_key svc) ps = map fst (br_services b0)" "records_ok (br_services b0)" "br_has_on_change b0"
      using snoc.IH [OF _ run] snoc.prems(1) by auto
    let ?rec = "svc\<lparr>sv_last_seen := seen, sv_discovered_at :=
        (case gm_get (br_services b0) (record_key svc) of Some e \<Rightarrow> sv_discovered_at e | None \<Rightarrow> found)\<rparr>"
    have key: "record_key ?rec = record_key svc" by (simp add: record_key_def)
    have b: "b = b0\<lparr>br_services := gm_put (record_key svc) ?rec (br_services b0)\<rparr>"
      and out: "out = (if gm_get (br_services b0) (record_key svc) = None then out0 @ show_record now ?rec else out0)"
      using snoc.prems(2) run ps(4) by (auto simp: scan_output_def ev add_service_def Let_def split: if_splits)
    have ok: "records_ok (br_services b)" "br_has_on_change b"
      using records_ok_put [OF ps(3), of "record_key svc" ?rec] key ps(4) by (simp_all add: b)
    show ?case
    proof (cases "gm_get (br_services b0) (record_key svc)")
      case None
      then show ?thesis
        using ps ok key out by (intro exI [of _ "ps @ [(now, ?rec)]"]) (simp add: b put_keys)
    next
      case (Some old)
      then show ?thesis using ps ok out by (intro exI [of _ ps]) (simp add: b put_keys)
    qed
  qed
  then show ?thesis by blast
qed

definition announcements_only :: "net_event list \<Rightarrow> bool" where
  "announcements_only evs = list_all (\<lambda>ev. case ev of Announce _ _ _ _ \<Rightarrow> True | Expiry_tick _ \<Rightarrow> False) evs"

text \<open>\<open>tuner mdns\<close> writes records and nothing else: while none expires, standard output is one
  line or JSON document for each record of the network, each record once although it is announced
  over and over, and the count on standard error is the number of lines written.\<close>

theorem mdns_output_exact:
  assumes "announcements_only evs"
  shows "\<exists>ps. xo_out (cmd_mdns json clock args evs) =
        concat (map (\<lambda>(now, svc). mdns_line json (clock now) (flag_value args ''format'' ''line'') svc) ps)
    \<and> distinct (map (\<lambda>(now, svc). record_key svc) ps)
    \<and> prefix (''# discovered '' @ show_nat (length ps) @ '' service record(s)'') (hd (xo_err (cmd_mdns json clock args evs)))
    \<and> length (xo_err (cmd_mdns json clock args evs)) = 1"
proof -
  let ?show = "\<lambda>now. mdns_line json (clock now) (flag_value args ''format'' ''line'')"
  obtain b out where run: "scan_output ?show (mdns_options args) evs = (b, out)" by fastforce
  have on: "bo_on_change (mdns_options args)" by (simp add: mdns_options_def)
  obtain ps where ps: "out = concat (map (\<lambda>(now, svc). ?show now svc) ps)"
    "map (\<lambda>(now, svc). record_key svc) ps = map fst (br_services b)" "records_ok (br_services b)"
    using scan_announced [OF on assms [unfolded announcements_only_def], of ?show b out] run by auto
  have cmd: "cmd_mdns json clock args evs = (printed out)\<lparr>xo_err := [mdns_summary b]\<rparr>"
    using run by (simp add: cmd_mdns_def Let_def)
  have "distinct (map fst (br_services b))" using ps(3) by (simp add: records_ok_def)
  moreover have "length ps = length (services b)"
    using arg_cong [OF ps(2), of length] by (simp add: services_def)
  moreover have "prefix (''# discovered '' @ show_nat (length (services b)) @ '' service record(s)'') (mdns_summary b)"
    unfolding mdns_summary_def
    using prefixI [of _ "''# discovered '' @ show_nat (length (services b)) @ '' service record(s)''"] by simp
  ultimately show ?thesis using ps(1,2) by (intro exI [of _ ps]) (simp add: cmd)
qed

definition sample_scan :: "net_event list" where
  "sample_scan = [Announce 1 1 1 (sample_alarm ''a'' 1), Announce 2 2 2 (sample_alarm ''a'' 1), Announce 3 3 3 (sample_alarm ''b'' 2)]"

theorem mdns_output_exact_witness:
  "\<exists>ps. xo_out (cmd_mdns sv_name (\<lambda>_. ''10:00:00'') [''--format=json''] sample_scan) =
        concat (map (\<lambda>(now :: time, svc). mdns_line sv_name ''10:00:00'' (flag_value [''--format=json''] ''format'' ''line'') svc) ps)
    \<and> distinct (map (\<lambda>(now, svc). record_key svc) ps)
    \<and> prefix (''# discovered '' @ show_nat (length ps) @ '' service record(s)'')
        (hd (xo_err (cmd_mdns sv_name (\<lambda>_. ''10:00:00'') [''--format=json''] sample_scan)))
    \<and> length (xo_err (cmd_mdns sv_name (\<lambda>_. ''10:00:00'') [''--format=json''] sample_scan)) = 1"
proof -
  have "announcements_only sample_scan" by (simp add: announcements_only_def sample_scan_def)
  from mdns_output_exact [OF this, where json = sv_name and clock = "\<lambda>_. ''10:00:00''" and args = "[''--format=json'']"]
  show ?thesis by simp
qed

section \<open>The picker\<close>

lemma channel_of_channel_file: "channel_of_file (channel_file name) = file_stem name"
proof -
  have "trim_suffix ''.toml'' (channel_file name) = ''ocd-'' @ file_stem name"
    unfolding channel_file_def by (metis append_assoc trim_suffix_append)
  then show ?thesis unfolding channel_of_file_def by (simp only: trim_prefix_append)
qed

lemma listed_channels: "list_tuner_channels (Dir_names (map channel_file names)) = map file_stem names"
proof -
  have "suffix ''.toml'' (channel_file n)" for n
    unfolding channel_file_def by (metis append_assoc suffixI)
  then show ?thesis by (simp add: list_tuner_channels_def channel_of_channel_file)
qed

lemma itoa_solid:
  assumes "0 \<le> i"
  shows "trim_space (itoa i) = itoa i"
proof (rule trim_space_solid)
  have "list_all solid_char (itoa i)"
    using assms show_nat_digits [of "nat i"] is_digit_solid by (auto simp: itoa_def list_all_iff)
  then show "solid_char (hd (itoa i))" "solid_char (last (itoa i))"
    by (simp_all add: list_all_iff)
qed simp

lemma pick_number:
  assumes "i < length channels" and "int (length channels) < 2 ^ 63"
  shows "pick_channel channels (itoa (int (Suc i))) = channels ! i"
proof -
  have "atoi (itoa (int (Suc i))) = Some (int (Suc i))" using assms by (intro atoi_itoa) simp_all
  then show ?thesis using assms(1) by (simp add: pick_channel_def)
qed

text \<open>The picker of \<open>tuner tv launch\<close> starts Television on file stems, not on channel names: when
  the cable directory holds the files of some channels, choosing the \<open>i\<close>-th by number asks for the
  stem of the file. For a channel whose name is no plain label, such as a discovered instance
  \<open>c/alarm-a\<close>, that is not the name its file declares.\<close>

theorem picker_launches_stem:
  assumes "cx_read_dir env dir = Dir_names (map channel_file names)" and "i < length names"
    and "int (length names) < 2 ^ 63"
    and "cx_look_path env ''television'' = Some tv"
  shows "xo_exec (tv_launch env cfg dir [] (itoa (int (Suc i)))) =
    Some (tv, (if launch_dir cfg (tv_dir cfg) \<noteq> []
               then [''--cable-dir'', expand_home (ce_home (cx_cable env)) (launch_dir cfg (tv_dir cfg))] else [])
              @ [''--no-remote'', file_stem (names ! i)])"
proof -
  have "list_tuner_channels (cx_read_dir env dir) = map file_stem names"
    unfolding assms(1) by (rule listed_channels)
  moreover have "pick_channel (map file_stem names) (itoa (int (Suc i))) = file_stem (names ! i)"
    using pick_number [of i "map file_stem names"] assms(2,3) by simp
  moreover have "trim_space (itoa (int (Suc i))) = itoa (int (Suc i))" by (rule itoa_solid) simp
  moreover have "names \<noteq> []" using assms(2) by auto
  ultimately have run: "\<exists>before. tv_launch env cfg dir [] (itoa (int (Suc i))) = run_television env before (file_stem (names ! i)) (launch_dir cfg (tv_dir cfg))"
    by (auto simp: tv_launch_def launch_channel_def Let_def file_stem_not_Nil)
  then show ?thesis
    using assms(4)
    by (auto simp: run_television_def launch_television_def file_stem_not_Nil split: option.split)
qed

theorem picker_launches_stem_witness:
  "xo_exec (tv_launch (sample_cli\<lparr>cx_look_path := (\<lambda>_. Some ''/bin/tv'')\<rparr>) default_config ''/c'' [] (itoa 1)) \<noteq> None
   \<and> file_stem ''c/alarm-a'' = ''c-alarm-a''"
proof
  show "file_stem ''c/alarm-a'' = ''c-alarm-a''" by code_simp
  show "xo_exec (tv_launch (sample_cli\<lparr>cx_look_path := (\<lambda>_. Some ''/bin/tv'')\<rparr>) default_config ''/c'' [] (itoa 1)) \<noteq> None"
    using picker_launches_stem [where env = "sample_cli\<lparr>cx_look_path := (\<lambda>_. Some ''/bin/tv'')\<rparr>" and dir = "''/c''"
        and names = "[''c/alarm-a'']" and i = 0 and tv = "''/bin/tv''" and cfg = default_config]
    by (simp add: sample_cli_def)
qed

section \<open>Two directories\<close>

text \<open>With isolation off and both directories configured, \<open>tuner channel\<close> writes where nobody
  else looks: every file of the directory that \<open>tuner tv\<close> lists, \<open>tuner tv sync\<close> fills and the
  serving process keeps is as it was.\<close>

theorem channel_misses_tuner_dir:
  assumes "load_for env (tl args) = Inr cfg" and "\<not> tv_isolate (cf_tv cfg)" and "tv_tuner_dir (cf_tv cfg) \<noteq> []"
    and "channel_path (cx_cable env) (tv_cable_dir (cf_tv cfg)) (hd args) \<notin> range (channel_path (cx_cable env) (cable_dir cfg))"
  shows "gm_get (fst (cmd_channel env args fs)) (channel_path (cx_cable env) (cable_dir cfg) name)
    = gm_get fs (channel_path (cx_cable env) (cable_dir cfg) name)"
proof (cases args)
  case (Cons ch rest)
  show ?thesis
  proof (cases "gm_get (builtin_presets (cx_viz env)) ch")
    case None
    then show ?thesis using Cons assms(1) by (simp add: cmd_channel_def Let_def split: option.split)
  next
    case (Some p)
    have p: "pr_name p = ch"
      using Some builtin_presets_named [of "cx_viz env"] by (auto simp: list_all_iff dest!: map_of_SomeD)
    have dir: "channel_dir cfg = tv_cable_dir (cf_tv cfg)" using assms(2) by (simp add: channel_dir_def)
    have other: "channel_path (cx_cable env) (cable_dir cfg) name \<noteq> channel_path (cx_cable env) (channel_dir cfg) (pr_name p)"
      using assms(4) Cons p dir by (metis list.sel(1) rangeI)
    have "gm_get (fst (write_channel (cx_cable env) (channel_dir cfg) p fs)) (channel_path (cx_cable env) (cable_dir cfg) name)
        = gm_get fs (channel_path (cx_cable env) (cable_dir cfg) name)"
      using other by (auto simp: write_channel_def Let_def split: option.split)
    moreover have "fst (cmd_channel env args fs) \<in> {fs, fst (write_channel (cx_cable env) (channel_dir cfg) p fs)}"
      using Cons assms(1) Some
      by (auto simp: cmd_channel_def write_and_launch_def Let_def split: prod.splits sum.splits)
    ultimately show ?thesis by auto
  qed
qed (simp add: cmd_channel_def)

text \<open>For the witness: isolation off, one directory for each program.\<close>

definition split_config :: config where
  "split_config = default_config\<lparr>cf_tv := \<lparr>tv_cable_dir = ''/television'', tv_tuner_dir = ''/tuner'', tv_auto_launch = False, tv_isolate = False\<rparr>\<rparr>"

definition split_cli :: cli_env where
  "split_cli = sample_cli\<lparr>cx_read := (\<lambda>_. Inr []), cx_unmarshal := (\<lambda>_ _. Inr split_config)\<rparr>"

theorem channel_misses_tuner_dir_witness:
  "gm_get (fst (cmd_channel split_cli [''ntp'', ''--config=c'', ''--launch''] [])) (channel_path sample_env ''/tuner'' ''ntp'') = None"
proof -
  have cable: "cx_cable split_cli = sample_env" by (simp add: split_cli_def sample_cli_def)
  have dirs: "cable_dir split_config = ''/tuner''" "tv_cable_dir (cf_tv split_config) = ''/television''"
      "tv_tuner_dir (cf_tv split_config) = ''/tuner''" "\<not> tv_isolate (cf_tv split_config)"
    by (simp_all add: split_config_def cable_dir_def)
  have load: "load_for split_cli [''--config=c'', ''--launch''] = Inr split_config"
    by (simp add: load_for_def load_config_def split_cli_def flag_value_def trim_prefix_def)
  have expand: "expand_home h ''/tuner'' = ''/tuner''" "expand_home h ''/television'' = ''/television''" for h
    by (simp_all add: expand_home_def cut_prefix_def)
  have "channel_path sample_env ''/television'' ''ntp'' \<notin> range (channel_path sample_env ''/tuner'')"
  proof
    assume "channel_path sample_env ''/television'' ''ntp'' \<in> range (channel_path sample_env ''/tuner'')"
    then obtain n where same: "channel_path sample_env ''/television'' ''ntp'' = channel_path sample_env ''/tuner'' n" by auto
    have comps: "path_comps ''/tuner'' = [''tuner'']" "path_comps ''/television'' = [''television'']" by code_simp+
    have rooted: "path_rooted ''/tuner''" "path_rooted ''/television''" by code_simp+
    have "channel_path sample_env ''/television'' m = ''/television/'' @ channel_file m" for m
      unfolding channel_path_def expand join_path_plain [OF channel_file_plain] comps
      using rooted by (simp add: render_path_def)
    moreover have "channel_path sample_env ''/tuner'' m = ''/tuner/'' @ channel_file m" for m
      unfolding channel_path_def expand join_path_plain [OF channel_file_plain] comps
      using rooted by (simp add: render_path_def)
    ultimately have "''/television/'' @ channel_file ''ntp'' = ''/tuner/'' @ channel_file n"
      using same by (simp only:)
    then show False by simp
  qed
  then show ?thesis
    using channel_misses_tuner_dir [where env = split_cli and args = "[''ntp'', ''--config=c'', ''--launch'']" and cfg = split_config
        and fs = "[]" and name = "''ntp''"] load dirs cable
    by simp
qed

end
