(* ===== verification/Serve.thy ===== *)
theory Serve
  imports Cli Llms Lezz
begin

text \<open>
  The serving process (\<open>cmdServe\<close> in cmd/tuner/main.go): what it reports when it starts, the browser
  it opens, its two listeners, and its life as one state: the record table, the registry, the HTTP
  server and the cable directory, moved by what the network announces and by the requests it gets.
\<close>

section \<open>Starting\<close>

definition serve_config :: "config \<Rightarrow> string \<Rightarrow> config" where
  "serve_config cfg mode_flag = (if mode_flag \<noteq> [] then cfg\<lparr>cf_mode := mode_flag\<rparr> else cfg)"

datatype startup_notice =
    Custom_problem custom_error
  | Exposed_channel exposure_notice
  | Feature_problem feature_problem

definition startup_notices :: "'u url_codec \<Rightarrow> config \<Rightarrow> startup_notice list" where
  "startup_notices U cfg =
     (if cf_mode cfg = mode_broadcast then
        map Custom_problem (validate (ch_custom (cf_channels cfg)))
        @ map Exposed_channel (exposure_problems (ch_custom (cf_channels cfg)) (bc_listen (cf_broadcast cfg)))
        @ map Feature_problem (validate_feature_config U (cf_features cfg))
      else [])"

definition serve_options :: "config \<Rightarrow> browser_options" where
  "serve_options cfg =
     \<lparr>bo_types = browse_types (cf_mdns cfg), bo_domains = md_domains (cf_mdns cfg),
      bo_interval = refresh_duration cfg, bo_on_change = True, bo_on_remove = True, bo_quiet = False\<rparr>"

text \<open>The browser of broadcast mode is the one the certification sources are read from.\<close>

definition peer_browser :: "config \<Rightarrow> browser \<Rightarrow> browser option" where
  "peer_browser cfg b = (if cf_mode cfg = mode_broadcast then Some b else None)"

definition advertised :: "config \<Rightarrow> string \<Rightarrow> advertiser" where
  "advertised cfg bound =
     new_advertiser
       \<lparr>ad_name = ''tuner:'' @ itoa (parse_port bound), ad_type = md_service_type (cf_mdns cfg), ad_domain = [],
        ad_port = parse_port bound, ad_txt = md_txt (cf_mdns cfg)\<rparr>"

definition missing_alarm_warning :: "browser \<Rightarrow> string \<Rightarrow> string list" where
  "missing_alarm_warning b hint =
     (if length (endpoints_by_type b smoke_alarm_type) > 0 then []
      else [[CHR 0xE2, CHR 0x9A, CHR 0xA0, CHR 0xEF, CHR 0xB8, CHR 0x8F]
              @ ''  no smoke-alarm services discovered yet '' @ em_dash @ '' still watching'', hint])"

text \<open>
  The two ports: the health listener in both modes, the broadcast listener in broadcast mode. A
  failure ends the process.
\<close>

definition bind_ports :: "(string \<Rightarrow> string option) \<Rightarrow> (string \<Rightarrow> string option) \<Rightarrow> config \<Rightarrow>
    (string \<times> bind_error) + (string \<times> string option)" where
  "bind_ports listen_health listen_broadcast cfg =
     (case bind_with_retry listen_health (cf_health cfg) 10 of
        Inl e \<Rightarrow> Inl (''health server'', e)
      | Inr health \<Rightarrow>
          if cf_mode cfg = mode_broadcast then
            (case bind_with_retry listen_broadcast (bc_listen (cf_broadcast cfg)) 10 of
               Inl e \<Rightarrow> Inl (''broadcast server'', e)
             | Inr bound \<Rightarrow> Inr (health, Some bound))
          else Inr (health, None))"

section \<open>The listeners\<close>

text \<open>
  The patterns of the two request multiplexers, for a path in the canonical form \<open>net/http\<close> redirects
  others to: one ending in a slash matches every path below it.
\<close>

datatype route = Healthz | Readyz | Status | Channel_list | One_channel | Llms_txt

definition health_route :: "string \<Rightarrow> route option" where
  "health_route path =
     (if path = ''/healthz'' then Some Healthz else if path = ''/readyz'' then Some Readyz
      else if path = ''/status'' then Some Status else None)"

definition broadcast_route :: "string \<Rightarrow> route option" where
  "broadcast_route path =
     (if path = ''/channels'' then Some Channel_list else if prefix ''/channels/'' path then Some One_channel
      else if path = ''/llms.txt'' then Some Llms_txt else None)"

definition not_found :: response where "not_found = http_error ''404 page not found'' 404 []"

definition serve_health :: "'u server_env \<Rightarrow> request \<Rightarrow> server \<Rightarrow> response" where
  "serve_health env r s =
     (case health_route (hq_path r) of
        Some Healthz \<Rightarrow> handle_healthz env
      | Some Readyz \<Rightarrow> handle_readyz s
      | Some Status \<Rightarrow> handle_status env s
      | _ \<Rightarrow> not_found)"

definition serve_broadcast :: "'u server_env \<Rightarrow> walk_entry list \<Rightarrow> request \<Rightarrow> server \<Rightarrow> server \<times> outcome" where
  "serve_broadcast env walk r s =
     (case broadcast_route (hq_path r) of
        Some Channel_list \<Rightarrow> (s, Respond (handle_list_channels env s))
      | Some One_channel \<Rightarrow> handle_channel env r s
      | Some Llms_txt \<Rightarrow> (s, Respond (handle_llms env walk s))
      | _ \<Rightarrow> (s, Respond not_found))"

section \<open>The process\<close>

record process =
  sp_browser :: browser
  sp_state :: serve_state
  sp_server :: server
  sp_files :: files

text \<open>
  The environment of the cable directory is fixed while the process runs. A request comes with the
  outside of its handling and the feature files of the moment; its isotope endpoints are those of
  the browser.
\<close>

datatype 'u process_event =
    Network net_event
  | Health_request "'u server_env" request
  | Broadcast_request "'u server_env" "walk_entry list" request

definition process_init :: "config \<Rightarrow> string \<Rightarrow> time \<Rightarrow> files \<Rightarrow> process" where
  "process_init cfg ver t fs =
     (case serve_init (serve_options cfg) of
        (b, s) \<Rightarrow> \<lparr>sp_browser = b, sp_state = s, sp_server = new_server cfg ver (Some (sv_reg s)) t, sp_files = fs\<rparr>)"

text \<open>
  The registry is shared: the server reads what the browser's callbacks wrote, and the writer of the
  cable directory gets each published event.
\<close>

definition network_step :: "cable_env \<Rightarrow> bool \<Rightarrow> net_event \<Rightarrow> process \<Rightarrow> process" where
  "network_step cable viz ev p =
     (case sink_step on_change on_remove ev (sp_browser p, sp_state p) of
        (b, s) \<Rightarrow>
          p\<lparr>sp_browser := b, sp_state := s,
            sp_server := (sp_server p)\<lparr>tn_sources := Some (sv_reg s)\<rparr>,
            sp_files := watch_discovered cable viz (cable_dir (tn_cfg (sp_server p)))
              (drop (length (sv_events (sp_state p))) (sv_events s)) (sp_files p)\<rparr>)"

definition request_env :: "'u server_env \<Rightarrow> process \<Rightarrow> 'u server_env" where
  "request_env env p =
     (let cfg = tn_cfg (sp_server p)
      in env\<lparr>se_isotopes := Some (isotope_endpoints cfg (peer_browser cfg (sp_browser p)))\<rparr>)"

fun process_step :: "cable_env \<Rightarrow> bool \<Rightarrow> 'u process_event \<Rightarrow> process \<Rightarrow> process \<times> outcome option" where
  "process_step cable viz (Network ev) p = (network_step cable viz ev p, None)"
| "process_step cable viz (Health_request env r) p =
     (p, Some (Respond (serve_health (request_env env p) r (sp_server p))))"
| "process_step cable viz (Broadcast_request env walk r) p =
     (if cf_mode (tn_cfg (sp_server p)) = mode_broadcast then
        (case serve_broadcast (request_env env p) walk r (sp_server p) of
           (s, out) \<Rightarrow> (p\<lparr>sp_server := s\<rparr>, Some out))
      else (p, None))"

definition process_run :: "cable_env \<Rightarrow> bool \<Rightarrow> 'u process_event list \<Rightarrow> process \<Rightarrow> process" where
  "process_run cable viz evs p = fold (\<lambda>ev p. fst (process_step cable viz ev p)) evs p"

section \<open>The process and its parts\<close>

definition network_of :: "'u process_event list \<Rightarrow> net_event list" where
  "network_of evs = List.map_filter (\<lambda>ev. case ev of Network e \<Rightarrow> Some e | _ \<Rightarrow> None) evs"

lemma network_of_snoc:
  "network_of (evs @ [ev]) = network_of evs @ (case ev of Network e \<Rightarrow> [e] | _ \<Rightarrow> [])"
  by (simp add: network_of_def map_filter_def split: process_event.split)

lemma fold_remove_events: "prefix (sv_events s) (sv_events (fold on_remove xs s))"
proof (induction xs arbitrary: s)
  case (Cons x xs)
  have "prefix (sv_events s) (sv_events (on_remove x s))" by (simp add: on_remove_events(2) del: reg_apply.simps)
  with Cons.IH [of "on_remove x s"] show ?case by (auto intro: prefix_order.trans)
qed simp

lemma sink_step_events: "prefix (sv_events s) (sv_events (snd (sink_step on_change on_remove ev (b, s))))"
  using fold_remove_events
  by (cases ev) (auto simp: on_change_events(2) simp del: reg_apply.simps split: prod.split option.split)

lemma watch_discovered_more:
  assumes "prefix old evs"
  shows "watch_discovered env viz dir (drop (length old) evs) (watch_discovered env viz dir old fs)
    = watch_discovered env viz dir evs fs"
  using assms by (auto simp: watch_discovered_def prefix_def)

lemma serve_broadcast_state:
  "fst (serve_broadcast env walk r s) \<in> {s, fst (handle_channel env r s)}"
  by (auto simp: serve_broadcast_def split: option.split route.split)

text \<open>
  The parts move together: the browser and the registry as in a run of the callbacks alone, the
  server on that registry, the cable directory on its events.
\<close>

definition process_ok :: "cable_env \<Rightarrow> bool \<Rightarrow> config \<Rightarrow> files \<Rightarrow> net_event list \<Rightarrow> process \<Rightarrow> bool" where
  "process_ok cable viz cfg fs evs p \<longleftrightarrow>
     (sp_browser p, sp_state p) = serve_run evs (serve_init (serve_options cfg))
     \<and> tn_sources (sp_server p) = Some (sv_reg (sp_state p)) \<and> tn_cfg (sp_server p) = cfg \<and> server_ok (sp_server p)
     \<and> sp_files p = watch_discovered cable viz (cable_dir cfg) (sv_events (sp_state p)) fs"

lemma process_init_ok: "process_ok cable viz cfg fs [] (process_init cfg ver t fs)"
proof -
  obtain b s where st: "serve_init (serve_options cfg) = (b, s)" by fastforce
  then have "sv_events s = []" by (auto simp: serve_init_def)
  moreover have "server_ok (new_server cfg ver (Some (sv_reg s)) t)" by (rule new_server_ok)
  ultimately show ?thesis
    by (simp add: process_ok_def process_init_def st serve_run_def watch_discovered_def) (simp add: new_server_def)
qed

lemma network_step_ok:
  assumes "process_ok cable viz cfg fs evs p"
  shows "process_ok cable viz cfg fs (evs @ [ev]) (network_step cable viz ev p)"
proof -
  obtain b s where st: "sink_step on_change on_remove ev (sp_browser p, sp_state p) = (b, s)" by fastforce
  have pre: "prefix (sv_events (sp_state p)) (sv_events s)"
    using sink_step_events [of "sp_state p" ev "sp_browser p"] st by simp
  have run: "serve_run (evs @ [ev]) (serve_init (serve_options cfg)) = (b, s)"
    using assms st unfolding serve_run_snoc process_ok_def by metis
  have ok: "server_ok ((sp_server p)\<lparr>tn_sources := Some (sv_reg s)\<rparr>)"
    using assms by (simp add: process_ok_def server_ok_def)
  have parts: "tn_cfg (sp_server p) = cfg"
      "sp_files p = watch_discovered cable viz (cable_dir cfg) (sv_events (sp_state p)) fs"
    using assms by (simp_all add: process_ok_def)
  have "network_step cable viz ev p = p\<lparr>sp_browser := b, sp_state := s, sp_server := (sp_server p)\<lparr>tn_sources := Some (sv_reg s)\<rparr>,
      sp_files := watch_discovered cable viz (cable_dir cfg) (sv_events s) fs\<rparr>"
    unfolding network_step_def st prod.case parts watch_discovered_more [OF pre] ..
  then show ?thesis using run ok parts(1) by (simp add: process_ok_def)
qed

lemma process_run_ok:
  "process_ok cable viz cfg fs (network_of evs) (process_run cable viz evs (process_init cfg ver t fs))"
proof (induction evs rule: rev_induct)
  case Nil
  then show ?case using process_init_ok by (simp add: process_run_def network_of_def map_filter_def)
next
  case (snoc ev evs)
  let ?p = "process_run cable viz evs (process_init cfg ver t fs)"
  have step: "process_run cable viz (evs @ [ev]) (process_init cfg ver t fs) = fst (process_step cable viz ev ?p)"
    by (simp add: process_run_def)
  show ?case
  proof (cases ev)
    case (Network e)
    then have "process_run cable viz (evs @ [ev]) (process_init cfg ver t fs) = network_step cable viz e ?p"
      unfolding step by simp
    then show ?thesis using network_step_ok [OF snoc.IH] Network by (simp add: network_of_snoc)
  next
    case (Health_request env r)
    then have "process_run cable viz (evs @ [ev]) (process_init cfg ver t fs) = ?p" unfolding step by simp
    then show ?thesis using snoc.IH Health_request by (simp add: network_of_snoc)
  next
    case (Broadcast_request env walk r)
    let ?s = "fst (serve_broadcast (request_env env ?p) walk r (sp_server ?p))"
    have srv: "server_ok (sp_server ?p)" using snoc.IH by (simp add: process_ok_def)
    have "same_setup (sp_server ?p) ?s \<and> server_ok ?s"
      using serve_broadcast_state [of "request_env env ?p" walk r "sp_server ?p"] srv
        step_setup [of "sp_server ?p" "request_env env ?p" r] by auto
    then have "process_ok cable viz cfg fs (network_of evs) (?p\<lparr>sp_server := ?s\<rparr>)"
      using snoc.IH by (simp add: process_ok_def same_setup_def)
    moreover have "process_run cable viz (evs @ [ev]) (process_init cfg ver t fs) \<in> {?p, ?p\<lparr>sp_server := ?s\<rparr>}"
    proof -
      have "process_run cable viz (evs @ [ev]) (process_init cfg ver t fs)
          = fst (process_step cable viz (Broadcast_request env walk r) ?p)"
        unfolding Broadcast_request [symmetric] by (rule step)
      then show ?thesis by (simp add: case_prod_unfold)
    qed
    ultimately show ?thesis
      using snoc.IH Broadcast_request by (auto simp: network_of_snoc)
  qed
qed

section \<open>Properties\<close>


text \<open>For the witness: one instance announced, then a push to the server.\<close>

definition sample_process_events :: "(string \<times> string) process_event list" where
  "sample_process_events =
     [Network (Announce 5 5 5 (sample_alarm ''a'' 1)), Broadcast_request sample_server_env [] (push_from ''10.0.0.7:4000'')]"

definition sample_process :: process where
  "sample_process = process_run sample_env True sample_process_events (process_init default_config [] 0 [])"

lemma sample_process_source:
  obtains src where "src \<in> set (registered_sources (sp_server sample_process))" "so_instance src = ''a''"
proof -
  have net: "network_of sample_process_events = [Announce 5 5 5 (sample_alarm ''a'' 1)]"
    by (simp add: network_of_def sample_process_events_def map_filter_simps)
  have ok: "process_ok sample_env True default_config [] [Announce 5 5 5 (sample_alarm ''a'' 1)] sample_process"
    unfolding sample_process_def net [symmetric] by (rule process_run_ok)
  have "bo_on_change (serve_options default_config)" "bo_on_remove (serve_options default_config)"
    by (simp_all add: serve_options_def)
  from serve_run_ok [OF serve_init_ok(1) [OF this], of "[Announce 5 5 5 (sample_alarm ''a'' 1)]"] ok
  have reg: "registry_ok (sv_reg (sp_state sample_process))"
    using sample_announcements_ok(1) unfolding process_ok_def serve_ok_def sample_announcements_def by (metis snd_conv)
  have "is_channel_source (sample_alarm ''a'' 1)"
    by (simp add: is_channel_source_def sample_alarm_instance) (simp add: sample_alarm_def)
  from first_announcement [OF \<open>bo_on_change (serve_options default_config)\<close> this, of 5 5 5] ok
  obtain src where src: "get_source (sv_reg (sp_state sample_process)) ''a'' = Some src"
    unfolding process_ok_def sample_alarm_instance by (metis map_option_eq_Some snd_conv)
  then have "so_instance src = ''a''" using reg registry_okD by (fastforce simp: get_source_def)
  moreover have "src \<in> set (registered_sources (sp_server sample_process))"
    using src ok in_list_sources [OF reg] \<open>so_instance src = ''a''\<close> by (simp add: process_ok_def registered_sources_def)
  ultimately show thesis using that by blast
qed


text \<open>C29: \<open>tuner validate\<close> decides what a broadcast start reports: for a configuration that loads, it
  exits with 0 exactly when starting in broadcast mode reports nothing but ingest routes that will
  refuse the network, and those are not errors.\<close>

theorem validate_predicts_startup:
  assumes "load_for env args = Inr cfg" and "cf_mode (serve_config cfg mode) = mode_broadcast"
  shows "(xo_code (cmd_validate env U args) = 0) =
    list_all (\<lambda>n. case n of Exposed_channel e \<Rightarrow> True | _ \<Rightarrow> False) (startup_notices U (serve_config cfg mode))"
proof -
  have same: "cf_channels (serve_config cfg mode) = cf_channels cfg" "cf_features (serve_config cfg mode) = cf_features cfg"
    by (simp_all add: serve_config_def)
  have "(xo_code (cmd_validate env U args) = 0) =
      (validate (ch_custom (cf_channels cfg)) = [] \<and> validate_feature_config U (cf_features cfg) = [])"
    using assms(1) by (simp add: cmd_validate_def Let_def)
  also have "\<dots> = list_all (\<lambda>n. case n of Exposed_channel e \<Rightarrow> True | _ \<Rightarrow> False) (startup_notices U (serve_config cfg mode))"
  proof -
    have c: "list_all (\<lambda>n. case n of Exposed_channel e \<Rightarrow> True | _ \<Rightarrow> False) (map Custom_problem xs) = (xs = [])" for xs
      by (cases xs) simp_all
    have f: "list_all (\<lambda>n. case n of Exposed_channel e \<Rightarrow> True | _ \<Rightarrow> False) (map Feature_problem xs) = (xs = [])" for xs
      by (cases xs) simp_all
    have x: "list_all (\<lambda>n. case n of Exposed_channel e \<Rightarrow> True | _ \<Rightarrow> False) (map Exposed_channel xs)" for xs
      by (induction xs) simp_all
    show ?thesis
      unfolding startup_notices_def same if_P [OF assms(2)] list_all_append c f using x by simp
  qed
  finally show ?thesis .
qed

theorem validate_predicts_startup_witness:
  "(xo_code (cmd_validate sample_cli sample_urls []) = 0) =
     list_all (\<lambda>n. case n of Exposed_channel e \<Rightarrow> True | _ \<Rightarrow> False) (startup_notices sample_urls default_config)"
proof -
  have "load_for sample_cli [] = Inr default_config" by (simp add: load_for_def load_config_def flag_value_def)
  moreover have "serve_config default_config [] = default_config" by (simp add: serve_config_def)
  moreover have "cf_mode default_config = mode_broadcast" by (simp add: default_config_def)
  ultimately show ?thesis
    using validate_predicts_startup [of sample_cli "[]" default_config "[]" sample_urls] by simp
qed

section \<open>Every response\<close>

text \<open>
  A well-typed response: one of the codes the server means, and the content type that goes with its
  body, declared once.
\<close>

definition response_typed :: "response \<Rightarrow> bool" where
  "response_typed x \<longleftrightarrow> rp_code x \<in> {200, 400, 401, 403, 404, 405, 413, 502} \<and> distinct (map fst (rp_headers x))
     \<and> map_of (rp_headers x) ''Content-Type'' \<in>
         (case rp_body x of
            Plain _ \<Rightarrow> {Some ''text/plain; charset=utf-8'', Some ''text/markdown; charset=utf-8''}
          | _ \<Rightarrow> {Some ''application/json''})"

definition outcome_typed :: "outcome \<Rightarrow> bool" where
  "outcome_typed out = (case out of Respond x \<Rightarrow> response_typed x | Stream _ \<Rightarrow> True)"

lemma write_json_typed: "(\<forall>t. p \<noteq> Plain t) \<Longrightarrow> response_typed (write_json p)"
  by (cases p) (simp_all add: response_typed_def write_json_def)

lemma write_json_typed_simps [simp]:
  "response_typed (write_json (Json j))" "response_typed (write_json (Snapshot_json sn))"
  "response_typed (write_json (View_json n v))" "response_typed (write_json (Raw_json raw))"
  by (simp_all add: write_json_typed)

lemma http_error_typed:
  "code \<in> {400, 401, 403, 404, 405, 413, 502} \<Longrightarrow> hs \<in> {[], [(''Allow'', v)], [(''WWW-Authenticate'', v)]} \<Longrightarrow>
   response_typed (http_error msg code hs)"
  by (auto simp: response_typed_def http_error_def)

lemma handlers_typed:
  "response_typed (handle_channel_status env s name)"
  "response_typed (snd (handle_notes env name src s))"
  "response_typed (snd (handle_custom_snapshot env ci s))"
  "response_typed (handle_caller env r name)"
  "response_typed (snd (handle_audience env r name s))"
  "response_typed (snd (handle_features env s))"
proof -
  show "response_typed (handle_channel_status env s name)"
    by (auto simp: handle_channel_status_def intro!: http_error_typed split: option.split sum.split)
  show "response_typed (snd (handle_notes env name src s))"
    by (auto simp: handle_notes_def split: prod.split sum.split)
  have "response_typed \<lparr>rp_code = 502, rp_headers = [(''Content-Type'', ''application/json'')], rp_body = Json j\<rparr>" for j
    by (simp add: response_typed_def)
  then show "response_typed (snd (handle_custom_snapshot env ci s))"
    by (auto simp: handle_custom_snapshot_def split: prod.split sum.split)
  show "response_typed (handle_caller env r name)"
    by (auto simp: handle_caller_def intro!: http_error_typed split: option.split)
  show "response_typed (snd (handle_audience env r name s))"
    by (auto simp: handle_audience_def intro!: http_error_typed split: sum.split)
  show "response_typed (snd (handle_features env s))"
    by (auto simp: handle_features_def split: prod.split sum.split)
qed

lemma ingest_typed: "response_typed (snd (handle_custom_ingest env r ci s))"
proof -
  have allow: "response_typed (http_error msg 405 [(''Allow'', ''POST'')])"
    and auth: "response_typed (http_error msg 401 [(''WWW-Authenticate'', v)])"
    and plain: "code \<in> {400, 403, 405, 413} \<Longrightarrow> response_typed (http_error msg code [])" for msg v code
    by (rule http_error_typed; auto)+
  show ?thesis
    by (simp add: handle_custom_ingest_def allow auth plain split: prod.split sum.split)
qed

lemma shared_typed: "outcome_typed (snd (handle_shared env r name action s))"
proof -
  have lost: "response_typed (http_error msg 404 [])" for msg by (rule http_error_typed) simp_all
  have respond: "outcome_typed (Respond x) = response_typed x" "outcome_typed (Stream st)" for x st
    by (simp_all add: outcome_typed_def)
  have pair: "outcome_typed (snd (map_prod id Respond x)) = response_typed (snd x)" for x :: "server \<times> response"
    by (simp add: outcome_typed_def)
  show ?thesis
    unfolding handle_shared_def
    by (simp only: if_distrib [of snd] if_distrib [of outcome_typed] pair snd_conv respond lost handlers_typed
        write_json_typed_simps if_True if_False if_cancel split: option.split) simp
qed

lemma channel_typed: "outcome_typed (snd (handle_channel env r s))"
proof -
  have respond: "outcome_typed (Respond x) = response_typed x" "outcome_typed (Stream st)" for x st
    by (simp_all add: outcome_typed_def)
  show ?thesis
    by (cases "split_channel_path (hq_path r)")
       (simp add: handle_channel_def respond handlers_typed ingest_typed shared_typed split: option.split)
qed


end
