(* ===== verification/BrowseLoop.thy ===== *)
theory BrowseLoop
  imports Discovery
begin

text \<open>
  The loop of \<open>Browser.Start\<close> (internal/mdns/browser.go): which browses it opens, how its goroutines
  interleave with the callbacks, and how often a record has to be heard to stay. Theory Discovery
  takes an announcement or an expiry check with its callbacks as one step; here the lock is released
  before the callbacks run, as in the code.
\<close>

section \<open>The browses\<close>

text \<open>
  One continuous browse per service type, and one bounded browse per type for each refresh: domain,
  type and window. Only the first domain is browsed.
\<close>

definition start_browses :: "browser \<Rightarrow> (string \<times> string) list" where
  "start_browses b = map (\<lambda>t. (hd (br_domains b), t)) (br_types b)"

definition refresh_browses :: "bool \<Rightarrow> browser \<Rightarrow> (string \<times> string \<times> duration) list" where
  "refresh_browses cancelled b =
     (if cancelled then [] else map (\<lambda>t. (hd (br_domains b), t, refresh_window b)) (br_types b))"

text \<open>
  What one browse of a type feeds to the browser: every entry it resolves, in turn, with the two
  clock readings of \<open>addService\<close>; nothing when no resolver could be made.
\<close>

definition browse_entries :: "string option \<Rightarrow> string \<Rightarrow> (time \<times> time \<times> zeroconf_entry) list \<Rightarrow> browser \<Rightarrow>
    browser \<times> service list" where
  "browse_entries no_resolver t es b =
     (case no_resolver of
        Some _ \<Rightarrow> (b, [])
      | None \<Rightarrow>
          fold (\<lambda>(seen, found, e) (b, reported).
            case add_service seen found (service_of_entry t e) b of
              (b', rep) \<Rightarrow> (b', reported @ (case rep of None \<Rightarrow> [] | Some r \<Rightarrow> [r]))) es (b, []))"

section \<open>The loop and its callbacks interleaved\<close>

text \<open>
  Who feeds the browser: the continuous browse of the \<open>i\<close>-th type, the bounded browse of that type
  during a refresh, or the goroutine that seeds it through \<open>Add\<close>. Each takes one entry at a time and
  runs its \<open>OnChange\<close> before the next.
\<close>

datatype browse = Continuous nat | Refreshing nat | Seeding

text \<open>
  \<open>ll_changes\<close> holds for each of them the record it has added and not yet reported. The goroutine of
  the loop is in a refresh (\<open>ll_refreshing\<close>), or has departed records left to report
  (\<open>ll_removes\<close>), or waits for its tickers and its cancellation. Once cancelled it waits for the
  continuous browses and is over (\<open>ll_stopped\<close>).
\<close>

record loop_state =
  ll_browser :: browser
  ll_changes :: "(browse, service) gomap"
  ll_refreshing :: bool
  ll_stopped :: bool
  ll_removes :: "service list"
  ll_state :: serve_state

datatype browse_move =
    Hear browse time time service | Report_change browse time
  | Begin_refresh | End_refresh | Check time | Report_remove | Stop

definition may_hear :: "browse \<Rightarrow> service \<Rightarrow> loop_state \<Rightarrow> bool" where
  "may_hear who svc l =
     (case who of
        Continuous i \<Rightarrow> \<not> ll_stopped l \<and> i < length (start_browses (ll_browser l)) \<and> sv_type svc = snd (start_browses (ll_browser l) ! i)
      | Refreshing i \<Rightarrow>
          ll_refreshing l \<and> i < length (start_browses (ll_browser l)) \<and> sv_type svc = snd (start_browses (ll_browser l) ! i)
      | Seeding \<Rightarrow> True)"

definition waiting :: "loop_state \<Rightarrow> bool" where
  "waiting l \<longleftrightarrow> \<not> ll_stopped l \<and> \<not> ll_refreshing l \<and> ll_removes l = []"

text \<open>One move, or \<open>None\<close> where the goroutine it belongs to is elsewhere.\<close>

fun loop_move :: "browse_move \<Rightarrow> loop_state \<Rightarrow> loop_state option" where
  "loop_move (Hear who seen found svc) l =
     (if gm_get (ll_changes l) who = None \<and> may_hear who svc l then
        (case add_service seen found svc (ll_browser l) of
           (b, None) \<Rightarrow> Some (l\<lparr>ll_browser := b\<rparr>)
         | (b, Some r) \<Rightarrow> Some (l\<lparr>ll_browser := b, ll_changes := gm_put who r (ll_changes l)\<rparr>))
      else None)"
| "loop_move (Report_change who now) l =
     (case gm_get (ll_changes l) who of
        None \<Rightarrow> None
      | Some r \<Rightarrow> Some (l\<lparr>ll_changes := gm_del who (ll_changes l), ll_state := on_change now r (ll_state l)\<rparr>))"
| "loop_move Begin_refresh l = (if waiting l then Some (l\<lparr>ll_refreshing := True\<rparr>) else None)"
| "loop_move End_refresh l =
     (if ll_refreshing l \<and> list_all (\<lambda>(who, _). case who of Refreshing _ \<Rightarrow> False | _ \<Rightarrow> True) (ll_changes l)
      then Some (l\<lparr>ll_refreshing := False\<rparr>) else None)"
| "loop_move (Check now) l =
     (if waiting l then (case expire now (ll_browser l) of (b, removed) \<Rightarrow> Some (l\<lparr>ll_browser := b, ll_removes := removed\<rparr>))
      else None)"
| "loop_move Report_remove l =
     (case ll_removes l of
        [] \<Rightarrow> None
      | r # rs \<Rightarrow> Some (l\<lparr>ll_removes := rs, ll_state := on_remove r (ll_state l)\<rparr>))"
| "loop_move Stop l =
     (if waiting l \<and> list_all (\<lambda>(who, _). case who of Continuous _ \<Rightarrow> False | _ \<Rightarrow> True) (ll_changes l)
      then Some (l\<lparr>ll_stopped := True\<rparr>) else None)"

definition loop_init :: "browser_options \<Rightarrow> loop_state" where
  "loop_init opts =
     \<lparr>ll_browser = fst (serve_init opts), ll_changes = [], ll_refreshing = False, ll_stopped = False, ll_removes = [],
      ll_state = snd (serve_init opts)\<rparr>"

inductive loop_reach :: "browser_options \<Rightarrow> loop_state \<Rightarrow> bool" for opts :: browser_options where
  start: "loop_reach opts (loop_init opts)"
| step: "loop_reach opts l \<Longrightarrow> loop_move m l = Some l' \<Longrightarrow> loop_reach opts l'"

fun loop_run :: "browse_move list \<Rightarrow> loop_state \<Rightarrow> loop_state option" where
  "loop_run [] l = Some l"
| "loop_run (m # ms) l = (case loop_move m l of None \<Rightarrow> None | Some l' \<Rightarrow> loop_run ms l')"

lemma loop_run_reach: "loop_run ms l = Some l' \<Longrightarrow> loop_reach opts l \<Longrightarrow> loop_reach opts l'"
proof (induction ms arbitrary: l)
  case (Cons m ms)
  then show ?case by (cases "loop_move m l") (auto intro: loop_reach.step)
qed simp

section \<open>The sequential runs are among the interleaved ones\<close>

definition settled :: "browser \<times> serve_state \<Rightarrow> loop_state" where
  "settled st =
     \<lparr>ll_browser = fst st, ll_changes = [], ll_refreshing = False, ll_stopped = False, ll_removes = [], ll_state = snd st\<rparr>"

lemma run_removes:
  "loop_run (map (\<lambda>_. Report_remove) rs)
     \<lparr>ll_browser = b, ll_changes = [], ll_refreshing = False, ll_stopped = False, ll_removes = rs, ll_state = s\<rparr>
   = Some (settled (b, fold on_remove rs s))"
  by (induction rs arbitrary: s) (simp_all add: settled_def)

lemma loop_run_append: "loop_run (ms @ ms') l = (case loop_run ms l of None \<Rightarrow> None | Some l' \<Rightarrow> loop_run ms' l')"
  by (induction ms arbitrary: l) (simp_all split: option.split)

lemma run_event: "\<exists>ms. loop_run ms (settled st) = Some (settled (sink_step on_change on_remove ev st))"
proof -
  obtain b s where st: "st = (b, s)" by (cases st)
  show ?thesis
  proof (cases ev)
    case (Announce seen found now svc)
    obtain b' rep where run: "add_service seen found svc b = (b', rep)" by fastforce
    let ?hear = "Hear Seeding seen found svc"
    show ?thesis
    proof (cases rep)
      case None
      then have "loop_run [?hear] (settled st) = Some (settled (sink_step on_change on_remove ev st))"
        by (simp add: Announce st run settled_def may_hear_def)
      then show ?thesis by blast
    next
      case (Some r)
      then have "loop_run [?hear, Report_change Seeding now] (settled st)
          = Some (settled (sink_step on_change on_remove ev st))"
        by (simp add: Announce st run settled_def may_hear_def)
      then show ?thesis by blast
    qed
  next
    case (Expiry_tick now)
    obtain b' removed where run: "expire now b = (b', removed)" by fastforce
    have "loop_run (Check now # map (\<lambda>_. Report_remove) removed) (settled st)
        = Some (settled (sink_step on_change on_remove ev st))"
      using run_removes [of removed b' s] by (simp add: Expiry_tick st run settled_def waiting_def)
    then show ?thesis by blast
  qed
qed

lemma run_events: "\<exists>ms. loop_run ms (settled st) = Some (settled (serve_run evs st))"
proof (induction evs arbitrary: st)
  case Nil
  have "loop_run [] (settled st) = Some (settled (serve_run [] st))" by (simp add: serve_run_def)
  then show ?case by blast
next
  case (Cons ev evs)
  obtain ms where "loop_run ms (settled st) = Some (settled (sink_step on_change on_remove ev st))"
    using run_event by blast
  moreover obtain ms' where "loop_run ms' (settled (sink_step on_change on_remove ev st)) =
      Some (settled (serve_run evs (sink_step on_change on_remove ev st)))" using Cons.IH by blast
  ultimately have "loop_run (ms @ ms') (settled st) = Some (settled (serve_run (ev # evs) st))"
    by (simp add: loop_run_append serve_run_def)
  then show ?case by blast
qed


section \<open>What holds under every interleaving\<close>

definition loop_ok :: "loop_state \<Rightarrow> bool" where
  "loop_ok l \<longleftrightarrow> records_ok (br_services (ll_browser l)) \<and> registry_ok (sv_reg (ll_state l))"

lemma loop_move_ok: "loop_move m l = Some l' \<Longrightarrow> loop_ok l \<Longrightarrow> loop_ok l'"
proof (cases m)
  case (Hear who seen found svc)
  obtain b rep where run: "add_service seen found svc (ll_browser l) = (b, rep)" by fastforce
  assume "loop_move m l = Some l'" and ok: "loop_ok l"
  then have "ll_browser l' = b" "ll_state l' = ll_state l"
    using Hear run by (auto split: if_splits option.splits)
  moreover have "records_ok (br_services b)"
    using add_service_ok [of "ll_browser l" seen found svc] ok run by (simp add: loop_ok_def)
  ultimately show ?thesis using ok by (simp add: loop_ok_def)
next
  case (Check now)
  obtain b removed where run: "expire now (ll_browser l) = (b, removed)" by fastforce
  assume "loop_move m l = Some l'" and ok: "loop_ok l"
  then have "ll_browser l' = b" "ll_state l' = ll_state l" using Check run by (auto split: if_splits)
  then show ?thesis using ok expire_ok [of "ll_browser l" now] run by (simp add: loop_ok_def)
qed (auto simp: loop_ok_def serve.change_ok serve.remove_ok split: option.splits if_splits list.splits)

lemma loop_reach_ok: "loop_reach opts l \<Longrightarrow> loop_ok l"
proof (induction rule: loop_reach.induct)
  case start
  show ?case
    by (simp add: loop_ok_def loop_init_def serve_init_def new_browser_def Let_def records_ok_def new_registry_def
        registry_ok_def gm.holds_all_def)
qed (rule loop_move_ok)

section \<open>A channel lost between an expiry and its report\<close>

text \<open>
  The instance is heard at 0, is not heard for a minute and is dropped by the check at 60 s. Before
  the check has reported it, the instance is back: the browser takes it for a new record and
  \<open>Observe\<close> finds the source still there. Then the departure is reported and \<open>Retire\<close> removes the
  source of the instance that is back.
\<close>

definition expiry_race :: "browse_move list" where
  "expiry_race =
     [Hear (Continuous 0) 0 0 (sample_alarm ''a'' 1), Report_change (Continuous 0) 0,
      Check (60 * second),
      Hear (Continuous 0) (60 * second) (60 * second) (sample_alarm ''a'' 1), Report_change (Continuous 0) (60 * second),
      Report_remove]"

definition after_race :: "browser \<times> serve_state" where
  "after_race =
     (case loop_run expiry_race (loop_init sample_options) of
        Some l \<Rightarrow> (ll_browser l, ll_state l) | None \<Rightarrow> serve_init sample_options)"

lemma expiry_race_run: "loop_run expiry_race (loop_init sample_options) = Some (settled after_race)"
  by code_simp

lemma after_race_state:
  "gm_get (br_services (fst after_race)) (record_key (sample_alarm ''a'' 1)) \<noteq> None"
  "get_source (sv_reg (snd after_race)) ''a'' = None"
  by code_simp+

lemma race_reachable: "loop_reach sample_options (settled (serve_run evs after_race))"
  using run_events [of after_race evs] loop_run_reach expiry_race_run loop_reach.start by metis

text \<open>The expiry race: the loop can come to rest holding the record of a live instance while the
  registry has no source for it, and however often the instance is heard again, it stays so.\<close>

theorem expiry_race_loses_channel:
  "\<exists>b s. \<forall>ts. (case serve_run (map (\<lambda>t. Announce t t t (sample_alarm ''a'' 1)) ts) (b, s) of
     (b', s') \<Rightarrow> loop_reach sample_options (settled (b', s'))
       \<and> gm_get (br_services b') (record_key (sample_alarm ''a'' 1)) \<noteq> None \<and> get_source (sv_reg s') ''a'' = None)"
proof -
  let ?live = "\<lambda>st. loop_reach sample_options (settled st)
    \<and> gm_get (br_services (fst st)) (record_key (sample_alarm ''a'' 1)) \<noteq> None
    \<and> get_source (sv_reg (snd st)) ''a'' = None"
  have "?live (serve_run (map (\<lambda>t. Announce t t t (sample_alarm ''a'' 1)) ts) after_race)" for ts
    using known_announcements_silent [OF after_race_state(1), of ts] after_race_state(2) race_reachable by (simp only: simp_thms)
  then show ?thesis
    by (intro exI [of _ "fst after_race"] exI [of _ "snd after_race"] allI)
      (simp only: prod.collapse case_prod_unfold simp_thms)
qed

section \<open>How often a record has to be heard\<close>

text \<open>
  \<open>heard_within g k t evs\<close>: heard at \<open>t\<close>, the record of key \<open>k\<close> is never more than \<open>g\<close> behind at a check.
  A refresh begins every interval and hears a live record by the end of its window, so \<open>refresh_gap\<close>
  leaves a window of slack.
\<close>

fun heard_within :: "duration \<Rightarrow> string \<Rightarrow> time \<Rightarrow> net_event list \<Rightarrow> bool" where
  "heard_within g k t [] \<longleftrightarrow> True"
| "heard_within g k t (Announce seen found now svc # evs) \<longleftrightarrow>
     heard_within g k (if record_key svc = k then seen else t) evs"
| "heard_within g k t (Expiry_tick now # evs) \<longleftrightarrow> now - t \<le> g \<and> heard_within g k t evs"

definition refresh_gap :: "browser \<Rightarrow> duration" where
  "refresh_gap b = br_interval b + 2 * refresh_window b"

lemma default_expiry_covers_refresh:
  assumes "br_interval (new_browser opts) < 2 ^ 62"
  shows "refresh_gap (new_browser opts) < effective_expiry (new_browser opts)"
proof -
  let ?i = "br_interval (new_browser opts)"
  have "wrap64 (2 * ?i) = 2 * ?i"
    using assms new_browser_expiry(2) [of opts] by (intro wrap64_id) simp_all
  then have "effective_expiry (new_browser opts) = max min_expiry (2 * ?i)"
    by (simp add: new_browser_effective_expiry default_expiry_def Let_def)
  moreover have "refresh_window (new_browser opts) = 3 * second"
    by (simp add: refresh_window_def new_browser_def Let_def liveness_window_def default_browse_window_def second_def)
  ultimately show ?thesis by (simp add: refresh_gap_def min_expiry_def second_def)
qed

text \<open>The moment a record of the table was last heard.\<close>

definition last_heard :: "string \<Rightarrow> time \<Rightarrow> browser \<Rightarrow> bool" where
  "last_heard k t b \<longleftrightarrow> map_option sv_last_seen (gm_get (br_services b) k) = Some t"

lemma add_service_expiry [simp]: "effective_expiry (fst (add_service t t' svc b)) = effective_expiry b"
  by (simp add: add_service_def effective_expiry_def Let_def)

lemma expire_expiry [simp]: "effective_expiry (fst (expire now b)) = effective_expiry b"
  by (simp add: expire_def effective_expiry_def Let_def)

lemma last_heard_add:
  "last_heard k t b \<Longrightarrow> last_heard k (if record_key svc = k then seen else t) (fst (add_service seen found svc b))"
  by (auto simp: last_heard_def add_service_table)

lemma last_heard_expire:
  assumes "records_ok (br_services b)" "last_heard k t b" "now - t < effective_expiry b" "effective_expiry b \<le> max_duration"
  shows "last_heard k t (fst (expire now b))"
proof -
  have "min_duration < effective_expiry b"
    by (simp add: effective_expiry_def min_duration_def min_expiry_def second_def)
  then show ?thesis
    using assms by (cases "gm_get (br_services b) k") (simp_all add: last_heard_def records_ok_def expire_get is_departed_def time_sub_ge_iff)
qed

lemma heard_record_kept:
  assumes "heard_within g k t evs" "last_heard k t (fst st)" "records_ok (br_services (fst st))"
    "g < effective_expiry (fst st)" "effective_expiry (fst st) \<le> max_duration"
  shows "gm_get (br_services (fst (serve_run evs st))) k \<noteq> None"
  using assms
proof (induction evs arbitrary: t st)
  case Nil
  then show ?case by (auto simp: serve_run_def last_heard_def)
next
  case (Cons ev evs)
  have run: "serve_run (ev # evs) st = serve_run evs (sink_step on_change on_remove ev st)"
    by (simp add: serve_run_def)
  show ?case
  proof (cases ev)
    case (Announce seen found now svc)
    show ?thesis
      unfolding run using Cons.prems Announce
      by (intro Cons.IH [of "if record_key svc = k then seen else t"])
        (simp_all only: sink_step_browser net_event.case heard_within.simps last_heard_add add_service_ok add_service_expiry)
  next
    case (Expiry_tick now)
    then show ?thesis
      unfolding run using Cons.prems
      by (intro Cons.IH [of t])
        (simp_all add: sink_step_browser last_heard_expire expire_ok del: sink_step.simps)
  qed
qed

text \<open>A live instance keeps its channel: under any interval below 2^62 ns, once a smoke-alarm
  record has been announced and is heard again before every check comes more than an interval and two
  liveness windows after the last hearing, the browser holds it and the registry has its source at
  its endpoint, whatever else is announced or expires.\<close>

theorem live_instance_kept:
  assumes "bo_on_change opts" "bo_on_remove opts" "br_interval (new_browser opts) < 2 ^ 62"
    and "list_all clean_event evs" "list_all (homed_event h) evs"
    and "evs = before @ Announce seen found now svc # later" "is_channel_source svc"
    and "heard_within (refresh_gap (new_browser opts)) (record_key svc) seen later"
    and "serve_run evs (serve_init opts) = (b, s)"
  shows "gm_get (br_services b) (record_key svc) \<noteq> None
    \<and> map_option so_endpoint (get_source (sv_reg s) (service_instance svc)) = Some (service_endpoint svc)"
proof -
  let ?mid = "sink_step on_change on_remove (Announce seen found now svc) (serve_run before (serve_init opts))"
  have clean: "bar_free svc" "list_all clean_event before" "list_all clean_event [Announce seen found now svc]"
    using assms(4,6) by (simp_all add: clean_event_def)
  have whole: "serve_run later ?mid = (b, s)" using assms(6,9) by (simp add: serve_run_def)
  have "serve_ok (serve_run before (serve_init opts))"
    using serve_init_ok [OF assms(1,2)] clean(2) by (intro serve_run_ok)
  then have "serve_ok ?mid" using clean(1) by (intro serve_step_ok) (simp_all add: clean_event_def)
  then have "records_ok (br_services (fst ?mid))" by (simp add: serve_ok_def table_ok_def)
  moreover have "last_heard (record_key svc) seen (fst ?mid)"
    by (simp add: sink_step_browser last_heard_def add_service_table)
  moreover have lease: "effective_expiry (fst ?mid) = effective_expiry (new_browser opts)"
    by (simp add: sink_step_browser) (simp add: effective_expiry_def serve_run_expiry serve_init_def)
  moreover have "refresh_gap (new_browser opts) < effective_expiry (fst ?mid)"
    unfolding lease by (rule default_expiry_covers_refresh [OF assms(3)])
  moreover have "effective_expiry (fst ?mid) \<le> max_duration"
    unfolding lease new_browser_effective_expiry using default_expiry_bounds by blast
  ultimately have "gm_get (br_services (fst (serve_run later ?mid))) (record_key svc) \<noteq> None"
    by (intro heard_record_kept [OF assms(8)])
  then have held: "gm_get (br_services b) (record_key svc) \<noteq> None" unfolding whole fst_conv .
  then obtain r where r: "gm_get (br_services b) (record_key svc) = Some r" by blast
  have final: "serve_ok (b, s)"
    using serve_run_ok [OF serve_init_ok(1) [OF assms(1,2)] assms(4)] assms(9) by simp
  then have tab: "table_ok b" by (simp add: serve_ok_def)
  then have key: "record_key r = record_key svc"
    using records_ok_get [of "br_services b" "record_key svc" r] r by (simp add: table_ok_def)
  have in_table: "r \<in> records b"
    using imageI [OF map_of_SomeD [OF r], of snd] by (simp add: records_def)
  then have "bar_free r" using tab by (simp add: table_ok_def)
  then have same: "same_record r svc" using clean(1) key by (rule same_key_same_record)
  have "serve.tracked b s"
    using serve_run_tracked [OF serve_init_ok [OF assms(1,2)] _ assms(4,5)] assms(9)
    by (simp add: serve_init_def records_def)
  with in_table same assms(7) same_recordD [OF same]
  have "serve_addr s (service_instance svc) = Some (service_endpoint svc)"
    by (auto simp: serve.tracked_def is_channel_source_def)
  with held show ?thesis unfolding serve_addr_def by (rule conjI)
qed

text \<open>The instance \<open>a\<close> heard every half minute, checked in between.\<close>

definition steady_run :: "net_event list" where
  "steady_run =
     [Expiry_tick (30 * second), Announce (31 * second) (31 * second) (31 * second) (sample_alarm ''a'' 1),
      Expiry_tick (60 * second)]"

theorem live_instance_kept_witness:
  "map_option so_endpoint
     (get_source (sv_reg (snd (serve_run (Announce 0 0 0 (sample_alarm ''a'' 1) # steady_run) (serve_init sample_options)))) ''a'')
   = Some ''http://10.0.0.5:1''"
proof -
  let ?evs = "Announce 0 0 0 (sample_alarm ''a'' 1) # steady_run"
  have "list_all clean_event ?evs" "list_all (homed_event (\<lambda>_. record_key (sample_alarm ''a'' 1))) ?evs"
    by (simp_all add: steady_run_def clean_event_def homed_event_def bar_free_def)
      (simp_all add: sample_alarm_def smoke_alarm_type_def)
  moreover have "br_interval (new_browser sample_options) < 2 ^ 62"
    by (simp add: new_browser_def sample_options_def Let_def second_def)
  moreover have "is_channel_source (sample_alarm ''a'' 1)" "service_instance (sample_alarm ''a'' 1) = ''a''"
    "service_endpoint (sample_alarm ''a'' 1) = ''http://10.0.0.5:1''"
    "heard_within (refresh_gap (new_browser sample_options)) (record_key (sample_alarm ''a'' 1)) 0 steady_run"
    by code_simp+
  ultimately show ?thesis
    using live_instance_kept [OF sample_options_callbacks, of ?evs _ "[]" 0 0 0 "sample_alarm ''a'' 1" steady_run]
    by (metis append_Nil prod.collapse)
qed

end
