(* ===== verification/Lifecycle.thy ===== *)
theory Lifecycle
  imports Serve BrowseLoop
begin

text \<open>
  The life of \<open>tuner serve\<close> (\<open>cmdServe\<close> in cmd/tuner/main.go) from its subscribers to its end, the
  advertiser it starts and withdraws (internal/mdns/advertiser.go), and what it leaves alone in the
  cable directory it shares with earlier processes.
\<close>

section \<open>The advertiser\<close>

text \<open>\<open>zeroconf.Register\<close> is an argument: instance, type, domain, port and TXT records to a server.\<close>

record 's advertising =
  as_opts :: advertiser
  as_server :: "'s option"

definition advertiser_start :: "(string \<Rightarrow> string \<Rightarrow> string \<Rightarrow> int \<Rightarrow> string list \<Rightarrow> string + 's) \<Rightarrow>
    's advertising \<Rightarrow> 's advertising \<times> string option" where
  "advertiser_start register a =
     (let opts = as_opts a
      in case register (ad_name opts) (ad_type opts) (ad_domain opts) (ad_port opts) (format_txt (ad_txt opts)) of
           Inl e \<Rightarrow> (a, Some (''mdns register: '' @ e))
         | Inr srv \<Rightarrow> (a\<lparr>as_server := Some srv\<rparr>, None))"

text \<open>
  \<open>Shutdown\<close> without a lock, by several goroutines: each reads the server, calls it through a second
  read, clears it. \<open>wd_calls\<close> holds the receiver of every call, \<open>None\<close> for a nil one.
\<close>

datatype shutdown_point = Entered | Calling | Clearing | Stopped

record 's withdrawal =
  wd_server :: "'s option"
  wd_calls :: "'s option list"
  wd_points :: "shutdown_point list"

definition shutdown_move :: "nat \<Rightarrow> 's withdrawal \<Rightarrow> 's withdrawal option" where
  "shutdown_move i w =
     (if length (wd_points w) \<le> i then None
      else case wd_points w ! i of
        Entered \<Rightarrow> Some (w\<lparr>wd_points := (wd_points w)[i := if wd_server w = None then Stopped else Calling]\<rparr>)
      | Calling \<Rightarrow> Some (w\<lparr>wd_calls := wd_calls w @ [wd_server w], wd_points := (wd_points w)[i := Clearing]\<rparr>)
      | Clearing \<Rightarrow> Some (w\<lparr>wd_server := None, wd_points := (wd_points w)[i := Stopped]\<rparr>)
      | Stopped \<Rightarrow> None)"

fun shutdown_run :: "nat list \<Rightarrow> 's withdrawal \<Rightarrow> 's withdrawal option" where
  "shutdown_run [] w = Some w"
| "shutdown_run (i # is) w = (case shutdown_move i w of None \<Rightarrow> None | Some w' \<Rightarrow> shutdown_run is w')"

text \<open>
  When the process is cancelled, the goroutine of \<open>Start\<close> and the deferred call of \<open>cmdServe\<close> both run it;
  only the latter where the registration failed.
\<close>

definition cancelled_advertiser :: "'s advertising \<Rightarrow> 's withdrawal" where
  "cancelled_advertiser a =
     \<lparr>wd_server = as_server a, wd_calls = [], wd_points = replicate (if as_server a = None then 1 else 2) Entered\<rparr>"

definition withdrawing :: "'s \<Rightarrow> 's withdrawal \<Rightarrow> bool" where
  "withdrawing s w \<longleftrightarrow> (wd_server w = Some s \<or> wd_server w = None)
     \<and> (wd_server w = None \<or> Clearing \<in> set (wd_points w) \<longrightarrow> Some s \<in> set (wd_calls w))
     \<and> (Stopped \<in> set (wd_points w) \<longrightarrow> wd_server w = None)"

lemma in_set_update: "x \<in> set (xs[i := y]) \<Longrightarrow> x = y \<or> x \<in> set xs"
  using set_update_subset_insert [of xs i y] by blast

lemma shutdown_move_withdrawing:
  assumes "withdrawing s w" and "shutdown_move i w = Some w'"
  shows "withdrawing s w'"
proof -
  have i: "i < length (wd_points w)" using assms(2) by (simp add: shutdown_move_def split: if_splits)
  show ?thesis
  proof (cases "wd_points w ! i")
    case Entered
    then show ?thesis
      using assms i by (auto simp: shutdown_move_def withdrawing_def dest!: in_set_update)
  next
    case Calling
    then show ?thesis
      using assms i by (auto simp: shutdown_move_def withdrawing_def dest!: in_set_update)
  next
    case Clearing
    then have "Clearing \<in> set (wd_points w)" using i nth_mem by metis
    with Clearing show ?thesis
      using assms i by (auto simp: shutdown_move_def withdrawing_def)
  next
    case Stopped
    then show ?thesis using assms i by (simp add: shutdown_move_def)
  qed
qed

lemma shutdown_run_withdrawing: "withdrawing s w \<Longrightarrow> shutdown_run is w = Some w' \<Longrightarrow> withdrawing s w'"
proof (induction "is" arbitrary: w)
  case (Cons i "is")
  then show ?case
    using shutdown_move_withdrawing [of s w i] by (cases "shutdown_move i w") simp_all
qed simp

lemma shutdown_move_length: "shutdown_move i w = Some w' \<Longrightarrow> length (wd_points w') = length (wd_points w)"
  by (auto simp: shutdown_move_def split: if_splits shutdown_point.splits)

lemma shutdown_run_length: "shutdown_run is w = Some w' \<Longrightarrow> length (wd_points w') = length (wd_points w)"
proof (induction "is" arbitrary: w)
  case (Cons i "is")
  then show ?case using shutdown_move_length by (fastforce split: option.splits)
qed simp

text \<open>C30: The advertisement is withdrawn: however the goroutines that shut an advertiser down
  interleave, when all have returned its registration has been shut down and is forgotten.\<close>

theorem advertisement_withdrawn:
  assumes "advertiser_start register a = (a', None)" and "shutdown_run is (cancelled_advertiser a') = Some w"
    and "set (wd_points w) \<subseteq> {Stopped}"
  shows "wd_server w = None \<and> as_server a' \<in> set (wd_calls w)"
proof -
  obtain s where s: "as_server a' = Some s"
    using assms(1) by (auto simp: advertiser_start_def Let_def split: sum.splits)
  then have "withdrawing s (cancelled_advertiser a')" by (simp add: withdrawing_def cancelled_advertiser_def)
  then have ok: "withdrawing s w" using assms(2) by (rule shutdown_run_withdrawing)
  have "length (wd_points w) = 2" using shutdown_run_length [OF assms(2)] s by (simp add: cancelled_advertiser_def)
  then have "Stopped \<in> set (wd_points w)" using assms(3) by (cases "wd_points w") auto
  with ok s show ?thesis by (auto simp: withdrawing_def)
qed

definition sample_register :: "string \<Rightarrow> string \<Rightarrow> string \<Rightarrow> int \<Rightarrow> string list \<Rightarrow> string + string" where
  "sample_register name type domain port txt = Inr name"

definition sample_advertising :: "string advertising" where
  "sample_advertising =
     \<lparr>as_opts = \<lparr>ad_name = ''tuner:1'', ad_type = ''_tuner._tcp'', ad_domain = ''local.'', ad_port = 1, ad_txt = []\<rparr>,
      as_server = None\<rparr>"

definition sample_advertised :: "string advertising" where
  "sample_advertised = sample_advertising\<lparr>as_server := Some ''tuner:1''\<rparr>"

lemma sample_start: "advertiser_start sample_register sample_advertising = (sample_advertised, None)"
  by (simp add: advertiser_start_def sample_register_def sample_advertised_def Let_def) (simp add: sample_advertising_def)

definition sample_withdrawal :: "string withdrawal" where
  "sample_withdrawal = \<lparr>wd_server = None, wd_calls = [Some ''tuner:1''], wd_points = [Stopped, Stopped]\<rparr>"

theorem advertisement_withdrawn_witness:
  "as_server sample_advertised \<in> set (wd_calls sample_withdrawal)"
proof -
  have "shutdown_run [0, 0, 0, 1] (cancelled_advertiser sample_advertised) = Some sample_withdrawal"
    by code_simp
  from advertisement_withdrawn [OF sample_start this] show ?thesis by (simp add: sample_withdrawal_def)
qed

text \<open>The shutdown race: the two goroutines can both find the server set; when one has cleared
  it before the other calls, the other calls \<open>Shutdown\<close> on a nil server.\<close>

theorem shutdown_race:
  "\<exists>is w. shutdown_run is (cancelled_advertiser sample_advertised) = Some w \<and> None \<in> set (wd_calls w)"
proof -
  have "map_option wd_calls (shutdown_run [0, 1, 0, 0, 1] (cancelled_advertiser sample_advertised)) =
      Some [Some ''tuner:1'', None]"
    by code_simp
  then obtain w where "shutdown_run [0, 1, 0, 0, 1] (cancelled_advertiser sample_advertised) = Some w"
      "wd_calls w = [Some ''tuner:1'', None]" by auto
  then show ?thesis by (intro exI [of _ "[0, 1, 0, 0, 1]"] exI [of _ w]) simp
qed

section \<open>Starting and stopping in order\<close>

text \<open>
  What \<open>cmdServe\<close> does from its subscribers on, until it has been cancelled and returns. A failed bind
  exits at once: the deferred calls, which \<open>deferred\<close> lists in the order they run, are not made.
\<close>

datatype life_action =
    Log_sources | Write_channels string | Serve_health string | Advertise advertiser | Serve_on string
  | Browse browser_options | Seed_alarms | Warn_if_missing string
  | Stop_broadcast | Stop_health | Withdraw | Stop_channels | Stop_log | Fatal_exit string bind_error

definition broadcast_life :: "config \<Rightarrow> string \<Rightarrow> life_action list" where
  "broadcast_life cfg bound =
     [Advertise (advertised cfg bound), Serve_on bound, Browse (serve_options cfg), Seed_alarms,
      Warn_if_missing ''   preset channels will show network diagnostics only'', Stop_broadcast]"

definition receive_life :: "config \<Rightarrow> life_action list" where
  "receive_life cfg =
     [Browse (serve_options cfg), Seed_alarms,
      Warn_if_missing ''   Ensure ocd-smoke-alarm is running with tuner.advertise=true'']"

definition deferred :: "config \<Rightarrow> life_action list" where
  "deferred cfg = (if cf_mode cfg = mode_broadcast then [Withdraw] else []) @ [Stop_channels, Stop_log]"

definition serve_life :: "(string \<Rightarrow> string option) \<Rightarrow> (string \<Rightarrow> string option) \<Rightarrow> config \<Rightarrow> life_action list" where
  "serve_life listen_health listen_broadcast cfg =
     [Log_sources, Write_channels (cable_dir cfg)]
     @ (case bind_with_retry listen_health (cf_health cfg) 10 of
          Inl e \<Rightarrow> [Fatal_exit ''health server'' e]
        | Inr health \<Rightarrow> Serve_health health
            # (if cf_mode cfg = mode_broadcast then
                 (case bind_with_retry listen_broadcast (bc_listen (cf_broadcast cfg)) 10 of
                    Inl e \<Rightarrow> [Fatal_exit ''broadcast server'' e]
                  | Inr bound \<Rightarrow> broadcast_life cfg bound @ [Stop_health] @ deferred cfg)
               else receive_life cfg @ [Stop_health] @ deferred cfg))"

fun is_fatal :: "life_action \<Rightarrow> bool" where
  "is_fatal (Fatal_exit _ _) = True"
| "is_fatal _ = False"

text \<open>The life ends badly exactly when the ports cannot be bound, with the failure of \<open>bind_ports\<close>.\<close>

lemma serve_life_fatal:
  "filter is_fatal (serve_life lh lb cfg) =
     (case bind_ports lh lb cfg of Inl (what, e) \<Rightarrow> [Fatal_exit what e] | Inr _ \<Rightarrow> [])"
  by (simp add: serve_life_def bind_ports_def broadcast_life_def receive_life_def deferred_def split: sum.split)

text \<open>
  A broadcasting process serves before it looks at the network, and advertises the port it bound;
  a process that could not bind its broadcast port leaves its subscribers and its health listener
  as they are.
\<close>

lemma broadcast_serves_first:
  assumes "cf_mode cfg = mode_broadcast" and "bind_ports lh lb cfg = Inr (health, Some bound)"
  shows "\<exists>hint. serve_life lh lb cfg =
      [Log_sources, Write_channels (cable_dir cfg), Serve_health health, Advertise (advertised cfg bound), Serve_on bound,
       Browse (serve_options cfg), Seed_alarms, Warn_if_missing hint,
       Stop_broadcast, Stop_health, Withdraw, Stop_channels, Stop_log]"
    and "ad_port (advertised cfg bound) = parse_port bound"
  using assms
  by (auto simp: serve_life_def bind_ports_def broadcast_life_def deferred_def split: sum.splits)
    (simp add: advertised_def new_advertiser_def)

section \<open>Files of others\<close>

text \<open>C7: The process touches no file but the channel files of the instances announced to it,
  whatever it is asked and whatever its file system answers. So the channel file an earlier process
  left for an instance that has gone since is never taken away.\<close>

theorem other_files_kept:
  assumes "list_all (announced_in K) (network_of evs)" and "path \<notin> channel_path cable (cable_dir cfg) ` K"
  shows "gm_get (sp_files (process_run cable viz evs (process_init cfg ver t fs))) path = gm_get fs path"
proof -
  let ?p = "process_run cable viz evs (process_init cfg ver t fs)"
  have ok: "process_ok cable viz cfg fs (network_of evs) ?p" by (rule process_run_ok)
  then have run: "snd (serve_run (network_of evs) (serve_init (serve_options cfg))) = sp_state ?p"
    unfolding process_ok_def by (metis snd_conv)
  have files: "sp_files ?p = watch_discovered cable viz (cable_dir cfg) (sv_events (sp_state ?p)) fs"
    using ok unfolding process_ok_def by blast
  have "feed_tracks K (sp_state ?p)"
    using serve_run_feed_tracks [OF serve_init_feed_tracks assms(1), of "serve_options cfg"] unfolding run .
  then have "\<forall>ev \<in> set (sv_events (sp_state ?p)). so_instance (ev_source ev) \<in> K" unfolding feed_tracks_def by blast
  then show ?thesis unfolding files watch_discovered_def by (simp add: watch_events_frame [OF assms(2)])
qed

theorem other_files_kept_witness:
  "gm_get (sp_files (process_run sample_env True sample_process_events
       (process_init default_config [] 0 [(channel_path sample_env (cable_dir default_config) ''b'', ''old'')])))
     (channel_path sample_env (cable_dir default_config) ''b'') = Some ''old''"
proof -
  have net: "network_of sample_process_events = sample_announcements"
    by (simp add: network_of_def sample_process_events_def sample_announcements_def map_filter_simps)
  have "file_stem ''b'' \<noteq> file_stem ''a''" by code_simp
  then have "channel_path sample_env (cable_dir default_config) ''b''
      \<notin> channel_path sample_env (cable_dir default_config) ` {''a''}"
    by (simp add: channel_path_inj channel_file_inj)
  from other_files_kept [OF _ this, of sample_process_events] sample_announced show ?thesis
    by (simp only: net) simp
qed

end
