(* ===== verification/ViewRequests.thy ===== *)
theory ViewRequests
  imports FeatureBrowser
begin

text \<open>
  Concurrent requests for the certification view (internal/featurebrowser). \<open>Browser.View\<close> holds its lock
  to look at the cache and to store a view, and not while it fetches; \<open>fetch\<close> calls the sources in
  one goroutine each. FeatureBrowser has a request as one step; here requests overlap as they may.
\<close>

section \<open>The goroutines of a fetch\<close>

text \<open>
  \<open>done\<close> is the order in which the goroutines write their slots of the result; \<open>blank\<close> is what a slot
  holds before.
\<close>

definition gather_results :: "(mcp_source \<Rightarrow> source_result) \<Rightarrow> source_result \<Rightarrow> nat list \<Rightarrow> mcp_source list \<Rightarrow>
    source_result list" where
  "gather_results ask blank completed sources =
     fold (\<lambda>i rs. rs[i := ask (sources ! i)]) completed (replicate (length sources) blank)"

lemma gather_length [simp]: "length (fold (\<lambda>i rs. rs[i := f i]) is rs) = length rs"
  by (induction "is" arbitrary: rs) simp_all

lemma gather_slots:
  "i < length rs \<Longrightarrow> fold (\<lambda>i rs. rs[i := f i]) is rs ! i = (if i \<in> set is then f i else rs ! i)"
proof (induction "is" arbitrary: rs)
  case (Cons j "is")
  then show ?case using Cons.IH [of "rs[j := f j]"] by (cases "i = j") auto
qed simp

lemma gather_complete:
  assumes "set completed = {..<length sources}"
  shows "gather_results ask blank completed sources = map ask sources"
  using assms by (intro nth_equalityI) (simp_all add: gather_results_def gather_slots)

section \<open>Overlapping requests\<close>

text \<open>
  A request found no usable view when it came, at the time it holds; then it fetches, from the sources it
  read when the fetch began. The clock of the process does not run backwards.
\<close>

datatype view_call = Missed time | Fetching time time "mcp_source list"

record view_service =
  vs_browser :: feature_browser
  vs_calls :: "(nat, view_call) gomap"
  vs_answers :: "(nat \<times> time \<times> view) list"
  vs_clock :: time

datatype view_move =
    Ask nat time
  | Begin_fetch nat time "mcp_source list"
  | Finish_fetch nat fetch_env "mcp_source \<Rightarrow> time"

fun view_step :: "view_move \<Rightarrow> view_service \<Rightarrow> view_service option" where
  "view_step (Ask c now) s =
     (if now < vs_clock s \<or> gm_get (vs_calls s) c \<noteq> None then None
      else
        let missed = s\<lparr>vs_calls := gm_put c (Missed now) (vs_calls s), vs_clock := now\<rparr>
        in case br_cached (vs_browser s) of
             None \<Rightarrow> Some missed
           | Some v \<Rightarrow>
               if time_sub now (vw_fetched v) < br_refresh (vs_browser s)
               then Some (s\<lparr>vs_answers := vs_answers s @ [(c, now, v)], vs_clock := now\<rparr>)
               else Some missed)"
| "view_step (Begin_fetch c now sources) s =
     (case gm_get (vs_calls s) c of
        Some (Missed came) \<Rightarrow>
          if now < vs_clock s then None
          else Some (s\<lparr>vs_calls := gm_put c (Fetching came now sources) (vs_calls s), vs_clock := now\<rparr>)
      | _ \<Rightarrow> None)"
| "view_step (Finish_fetch c env stamps) s =
     (case gm_get (vs_calls s) c of
        Some (Fetching came began sources) \<Rightarrow>
          let v = fetch_view env began stamps sources
          in Some (s\<lparr>vs_browser := (vs_browser s)\<lparr>br_cached := Some v\<rparr>, vs_calls := gm_del c (vs_calls s),
                     vs_answers := vs_answers s @ [(c, came, v)]\<rparr>)
      | _ \<Rightarrow> None)"

definition view_init :: "duration \<Rightarrow> view_service" where
  "view_init refresh =
     \<lparr>vs_browser = new_feature_browser refresh, vs_calls = [], vs_answers = [], vs_clock = zero_time\<rparr>"

fun view_run :: "view_move list \<Rightarrow> view_service \<Rightarrow> view_service option" where
  "view_run [] s = Some s"
| "view_run (m # ms) s = (case view_step m s of None \<Rightarrow> None | Some s' \<Rightarrow> view_run ms s')"

inductive view_reach :: "duration \<Rightarrow> view_service \<Rightarrow> bool" for refresh :: duration where
  start: "view_reach refresh (view_init refresh)"
| step: "view_reach refresh s \<Longrightarrow> view_step m s = Some s' \<Longrightarrow> view_reach refresh s'"

lemma view_run_reach: "view_run ms s = Some s' \<Longrightarrow> view_reach refresh s \<Longrightarrow> view_reach refresh s'"
proof (induction ms arbitrary: s)
  case (Cons m ms)
  then show ?case by (cases "view_step m s") (auto intro: view_reach.step)
qed simp

lemma view_run_append: "view_run (ms @ ms') s = (case view_run ms s of None \<Rightarrow> None | Some s' \<Rightarrow> view_run ms' s')"
  by (induction ms arbitrary: s) (simp_all split: option.split)

section \<open>What every interleaving keeps\<close>

lemma fetch_view_fetched [simp]: "vw_fetched (fetch_view env now stamps sources) = now"
  by (simp add: fetch_view_def no_sources_view_def merge_results_def Let_def)

text \<open>A view is genuine when a fetch begun at its own time stamp produced it.\<close>

definition genuine :: "view \<Rightarrow> bool" where
  "genuine v \<longleftrightarrow> (\<exists>env stamps sources. v = fetch_view env (vw_fetched v) stamps sources)"

definition answer_ok :: "duration \<Rightarrow> nat \<times> time \<times> view \<Rightarrow> bool" where
  "answer_ok refresh = (\<lambda>(_, came, v).
     genuine v \<and> (came \<le> vw_fetched v \<or> time_sub came (vw_fetched v) < refresh))"

fun call_ok :: "time \<Rightarrow> view_call \<Rightarrow> bool" where
  "call_ok clock (Missed came) \<longleftrightarrow> came \<le> clock"
| "call_ok clock (Fetching came began sources) \<longleftrightarrow> came \<le> began \<and> began \<le> clock"

definition views_ok :: "duration \<Rightarrow> view_service \<Rightarrow> bool" where
  "views_ok refresh s \<longleftrightarrow> br_refresh (vs_browser s) = refresh
     \<and> (\<forall>v. br_cached (vs_browser s) = Some v \<longrightarrow> genuine v \<and> vw_fetched v \<le> vs_clock s)
     \<and> (\<forall>c call. gm_get (vs_calls s) c = Some call \<longrightarrow> call_ok (vs_clock s) call)
     \<and> list_all (answer_ok refresh) (vs_answers s)"

lemma call_ok_later: "call_ok t call \<Longrightarrow> t \<le> t' \<Longrightarrow> call_ok t' call"
  by (cases call) auto

lemma genuine_fetch: "genuine (fetch_view env now stamps sources)"
  unfolding genuine_def fetch_view_fetched by blast

lemma view_step_ok: "view_step m s = Some s' \<Longrightarrow> views_ok refresh s \<Longrightarrow> views_ok refresh s'"
proof (cases m)
  case (Ask c now)
  assume step: "view_step m s = Some s'" and ok: "views_ok refresh s"
  have clock: "vs_clock s \<le> now" using step Ask by (auto split: if_splits)
  from step Ask consider (missed) "s' = s\<lparr>vs_calls := gm_put c (Missed now) (vs_calls s), vs_clock := now\<rparr>"
    | (hit) v where "br_cached (vs_browser s) = Some v" "time_sub now (vw_fetched v) < br_refresh (vs_browser s)"
        "s' = s\<lparr>vs_answers := vs_answers s @ [(c, now, v)], vs_clock := now\<rparr>"
    by (auto simp: Let_def split: if_splits option.splits)
  then show ?thesis
  proof cases
    case missed
    then show ?thesis using ok clock by (auto simp: views_ok_def intro: call_ok_later order_trans)
  next
    case hit
    then show ?thesis using ok clock by (auto simp: views_ok_def answer_ok_def intro: call_ok_later order_trans)
  qed
next
  case (Begin_fetch c now sources)
  assume step: "view_step m s = Some s'" and ok: "views_ok refresh s"
  from step Begin_fetch obtain came where call: "gm_get (vs_calls s) c = Some (Missed came)" "vs_clock s \<le> now"
      "s' = s\<lparr>vs_calls := gm_put c (Fetching came now sources) (vs_calls s), vs_clock := now\<rparr>"
    by (auto split: if_splits option.splits view_call.splits)
  have "came \<le> vs_clock s" using ok call(1) unfolding views_ok_def by (metis call_ok.simps(1))
  then show ?thesis using ok call by (auto simp: views_ok_def intro: call_ok_later order_trans)
next
  case (Finish_fetch c env stamps)
  assume step: "view_step m s = Some s'" and ok: "views_ok refresh s"
  from step Finish_fetch obtain came began sources where
      call: "gm_get (vs_calls s) c = Some (Fetching came began sources)"
      "s' = s\<lparr>vs_browser := (vs_browser s)\<lparr>br_cached := Some (fetch_view env began stamps sources)\<rparr>,
             vs_calls := gm_del c (vs_calls s),
             vs_answers := vs_answers s @ [(c, came, fetch_view env began stamps sources)]\<rparr>"
    by (auto simp: Let_def split: option.splits view_call.splits)
  have "came \<le> began" "began \<le> vs_clock s"
    using ok call(1) unfolding views_ok_def by (metis call_ok.simps(2))+
  then show ?thesis using ok call by (auto simp: views_ok_def answer_ok_def genuine_fetch split: if_splits)
qed

lemma view_reach_ok: "view_reach refresh s \<Longrightarrow> views_ok (br_refresh (new_feature_browser refresh)) s"
proof (induction rule: view_reach.induct)
  case start
  show ?case by (simp add: views_ok_def view_init_def) (simp add: new_feature_browser_def)
qed (rule view_step_ok)

section \<open>Properties\<close>

text \<open>The goroutines of a fetch cannot be told apart: in whatever order the sources answer, the view is
  the one of their answers in source order.\<close>

theorem fetch_order_irrelevant:
  assumes "sources \<noteq> []" and "set completed = {..<length sources}"
  shows "merge_results (gather_results (\<lambda>s. snd (fetch_source env (stamps s) s)) blank completed sources) now
    = fetch_view env now stamps sources"
  using assms by (simp add: gather_complete fetch_view_def)

theorem fetch_order_irrelevant_witness:
  "merge_results (gather_results (\<lambda>s. snd (fetch_source (refusing_env []) 5 s)) (empty_result (sample_source ''a'' True)) [1, 0]
       [sample_source ''a'' True, sample_source ''b'' False]) 7
    = fetch_view (refusing_env []) 7 (\<lambda>_. 5) [sample_source ''a'' True, sample_source ''b'' False]"
  by (rule fetch_order_irrelevant) auto

text \<open>C13: Whoever asks gets a real and recent view: however requests overlap and however long fetches
  take, each answer is what a fetch of the sources produced, begun after the request came or less
  than the refresh window before it.\<close>

theorem view_answers_fresh:
  assumes "view_reach refresh s" and "(c, came, v) \<in> set (vs_answers s)"
  shows "(\<exists>env stamps sources. v = fetch_view env (vw_fetched v) stamps sources)
    \<and> (came \<le> vw_fetched v \<or> time_sub came (vw_fetched v) < br_refresh (new_feature_browser refresh))"
proof -
  have "answer_ok (br_refresh (new_feature_browser refresh)) (c, came, v)"
    using view_reach_ok [OF assms(1)] assms(2) unfolding views_ok_def list_all_iff by blast
  then show ?thesis by (simp add: answer_ok_def genuine_def)
qed

text \<open>Two overlapping requests; the one that began first is answered last.\<close>

definition overtaken :: "view_move list" where
  "overtaken =
     [Ask 0 0, Begin_fetch 0 0 [], Ask 1 1, Begin_fetch 1 1 [], Finish_fetch 1 (refusing_env []) (\<lambda>_. 1),
      Ask 2 2, Finish_fetch 0 (refusing_env []) (\<lambda>_. 1), Ask 3 3]"

lemma overtaken_run:
  obtains s where "view_reach (30 * second) s"
    "vs_answers s = [(1, 1, no_sources_view 1), (2, 2, no_sources_view 1), (0, 0, no_sources_view 0), (3, 3, no_sources_view 0)]"
proof -
  have refresh: "br_refresh (new_feature_browser (30 * second)) = 30 * second"
    "br_cached (new_feature_browser (30 * second)) = None"
    by (simp_all add: new_feature_browser_def second_def)
  have young: "time_sub 2 (vw_fetched (no_sources_view 1)) < 30 * second"
    "time_sub 3 (vw_fetched (no_sources_view 0)) < 30 * second"
    by (simp_all add: no_sources_view_def time_sub_def min_duration_def max_duration_def second_def)
  obtain s where "view_run overtaken (view_init (30 * second)) = Some s" and
    "vs_answers s = [(1, 1, no_sources_view 1), (2, 2, no_sources_view 1), (0, 0, no_sources_view 0), (3, 3, no_sources_view 0)]"
    by (simp add: overtaken_def view_init_def refresh young fetch_view_def zero_time_def Let_def)
  with view_run_reach view_reach.start show thesis by (intro that) blast+
qed

theorem view_answers_fresh_witness:
  "\<exists>env stamps sources. no_sources_view 1 = fetch_view env 1 stamps sources"
proof -
  obtain s where s: "view_reach (30 * second) s" "(2, 2, no_sources_view 1) \<in> set (vs_answers s)"
    by (rule overtaken_run) auto
  from view_answers_fresh [OF s] show ?thesis by (simp add: no_sources_view_def)
qed

text \<open>A slow fetch undoes a fresh one: a request that came after another was answered can be given an
  older view than the other, because the fetch that began first stored its view last.\<close>

theorem views_go_backwards:
  "\<exists>s. view_reach (30 * second) s
     \<and> map (\<lambda>(c, came, v). (c, came, vw_fetched v)) (vs_answers s) = [(1, 1, 1), (2, 2, 1), (0, 0, 0), (3, 3, 0)]"
proof -
  obtain s where "view_reach (30 * second) s"
    "vs_answers s = [(1, 1, no_sources_view 1), (2, 2, no_sources_view 1), (0, 0, no_sources_view 0), (3, 3, no_sources_view 0)]"
    by (rule overtaken_run)
  then show ?thesis by (intro exI [of _ s]) (simp add: no_sources_view_def)
qed

section \<open>Requests one at a time\<close>

text \<open>A request, if it fetches: when it comes, when its fetch begins, and what it finds outside.\<close>

type_synonym lone_request = "time \<times> time \<times> fetch_env \<times> (mcp_source \<Rightarrow> time) \<times> mcp_source list"

fun in_turn :: "time \<Rightarrow> lone_request list \<Rightarrow> bool" where
  "in_turn t [] \<longleftrightarrow> True"
| "in_turn t ((came, began, _) # qs) \<longleftrightarrow> t \<le> came \<and> came \<le> began \<and> in_turn began qs"

definition lone_get :: "lone_request \<Rightarrow> time \<times> time \<times> (unit + view)" where
  "lone_get = (\<lambda>(came, began, env, stamps, sources). (came, began, Inr (fetch_view env began stamps sources)))"

lemma in_turn_later: "in_turn t qs \<Longrightarrow> t' \<le> t \<Longrightarrow> in_turn t' qs"
  by (cases qs) auto

lemma lone_request_run:
  assumes "vs_calls s = []" and "vs_clock s \<le> came" and "came \<le> began"
    and "view_get came began (Inr (fetch_view env began stamps sources)) (vs_browser s) = (b', out)"
  shows "\<exists>ms s' v. view_run ms s = Some s' \<and> vs_calls s' = [] \<and> vs_clock s' \<le> began \<and> vs_browser s' = b'
    \<and> out = Inr v \<and> vs_answers s' = vs_answers s @ [(0, came, v)]"
proof (cases "\<exists>v. br_cached (vs_browser s) = Some v \<and> time_sub came (vw_fetched v) < br_refresh (vs_browser s)")
  case True
  then obtain v where v: "br_cached (vs_browser s) = Some v" "time_sub came (vw_fetched v) < br_refresh (vs_browser s)"
    by blast
  let ?s = "s\<lparr>vs_answers := vs_answers s @ [(0, came, v)], vs_clock := came\<rparr>"
  have "view_run [Ask 0 came] s = Some ?s" using v assms(1,2) by simp
  moreover have "b' = vs_browser s" "out = Inr v" using assms(4) v by (simp_all add: view_get_def)
  ultimately show ?thesis
    using assms(1,3) by (intro exI [of _ "[Ask 0 came]"] exI [of _ ?s] exI [of _ v] conjI) simp_all
next
  case False
  let ?v = "fetch_view env began stamps sources"
  let ?ms = "[Ask 0 came, Begin_fetch 0 began sources, Finish_fetch 0 env stamps]"
  let ?s = "s\<lparr>vs_calls := [], vs_clock := began, vs_browser := (vs_browser s)\<lparr>br_cached := Some ?v\<rparr>,
      vs_answers := vs_answers s @ [(0, came, ?v)]\<rparr>"
  have "view_step (Ask 0 came) s = Some (s\<lparr>vs_calls := [(0, Missed came)], vs_clock := came\<rparr>)"
    using assms(1,2) False by (simp add: Let_def split: option.split)
  then have "view_run ?ms s = Some ?s"
    using assms(3) by (simp add: Let_def)
  moreover have "b' = (vs_browser s)\<lparr>br_cached := Some ?v\<rparr>" "out = Inr ?v"
    using assms(4) False by (auto simp: view_get_def Let_def split: option.splits if_splits)
  ultimately show ?thesis by (intro exI [of _ ?ms] exI [of _ ?s] exI [of _ ?v] conjI) simp_all
qed

lemma lone_requests_run:
  "vs_calls s = [] \<Longrightarrow> in_turn (vs_clock s) qs \<Longrightarrow>
   \<exists>ms s'. view_run ms s = Some s' \<and> vs_calls s' = []
     \<and> map (\<lambda>(_, _, v). Inr v) (vs_answers s') =
        map (\<lambda>(_, _, v). Inr v) (vs_answers s) @ cache_run view_get (map lone_get qs) (vs_browser s)"
proof (induction qs arbitrary: s)
  case Nil
  then show ?case by (intro exI [of _ "[]"] exI [of _ s]) simp
next
  case (Cons q qs)
  obtain came began env stamps sources where q: "q = (came, began, env, stamps, sources)" by (cases q)
  obtain b' out where get: "view_get came began (Inr (fetch_view env began stamps sources)) (vs_browser s) = (b', out)"
    by fastforce
  have turn: "vs_clock s \<le> came" "came \<le> began" "in_turn began qs" using Cons.prems(2) q by simp_all
  obtain ms s' v where run: "view_run ms s = Some s'" "vs_calls s' = []" "vs_clock s' \<le> began" "vs_browser s' = b'"
      "out = Inr v" "vs_answers s' = vs_answers s @ [(0, came, v)]"
    using lone_request_run [OF Cons.prems(1) turn(1,2) get] by blast
  obtain ms' s'' where rest: "view_run ms' s' = Some s''" "vs_calls s'' = []"
      "map (\<lambda>(_, _, v). Inr v) (vs_answers s'') =
        map (\<lambda>(_, _, v). Inr v) (vs_answers s') @ cache_run view_get (map lone_get qs) (vs_browser s')"
    using Cons.IH [OF run(2) in_turn_later [OF turn(3) run(3)]] by blast
  have "view_run (ms @ ms') s = Some s''" by (simp add: view_run_append run(1) rest(1))
  moreover have "cache_run view_get (map lone_get (q # qs)) (vs_browser s) =
      Inr v # cache_run view_get (map lone_get qs) b'"
    by (simp add: q lone_get_def get run(5))
  ultimately show ?case using rest(2,3) run(4,6) by (intro exI [of _ "ms @ ms'"] exI [of _ s'']) simp
qed

text \<open>Requests one at a time are the cache: for requests that do not overlap, the answers of the
  overlapping model are those of the sequential one, each a request in one step.\<close>

theorem lone_requests_reachable:
  assumes "in_turn zero_time qs"
  shows "\<exists>s. view_reach refresh s \<and> vs_calls s = []
    \<and> map (\<lambda>(_, _, v). Inr v) (vs_answers s) = cache_run view_get (map lone_get qs) (new_feature_browser refresh)"
proof -
  have init: "vs_calls (view_init refresh) = []" "vs_clock (view_init refresh) = zero_time"
    "vs_answers (view_init refresh) = []" "vs_browser (view_init refresh) = new_feature_browser refresh"
    by (simp_all add: view_init_def)
  obtain ms s where "view_run ms (view_init refresh) = Some s" "vs_calls s = []"
      "map (\<lambda>(_, _, v). Inr v) (vs_answers s) = cache_run view_get (map lone_get qs) (new_feature_browser refresh)"
    using lone_requests_run [of "view_init refresh" qs] init assms by auto
  then show ?thesis using view_run_reach view_reach.start by blast
qed

theorem lone_requests_reachable_witness:
  "\<exists>s. view_reach 10 s \<and> vs_calls s = []
    \<and> map (\<lambda>(_, _, v). Inr v) (vs_answers s)
      = cache_run view_get (map lone_get [(5, 6, refusing_env [], \<lambda>_. 7, []), (20, 21, refusing_env [], \<lambda>_. 22, [])])
          (new_feature_browser 10)"
  by (rule lone_requests_reachable) (simp add: zero_time_def)

end
