(* ===== verification/EndToEnd.thy ===== *)
theory EndToEnd
  imports Lifecycle
begin

text \<open>
  Properties of the whole of \<open>tuner serve\<close>: what an alarm on the network gets from the broadcast
  listener, which settings of the configuration make no difference to either listener, and the command
  from its arguments on (\<open>cmd_serve\<close>).
\<close>

section \<open>From an announcement to an answer\<close>

lemma status_route:
  "split_channel_path (hq_path r) = (name, ''status'') \<Longrightarrow>
   handle_channel env r s = (s, Respond (handle_channel_status env s name))"
  by (simp add: handle_channel_def handle_shared_def split: option.split)

lemma broadcast_channel_path: "prefix ''/channels/'' (hq_path r) \<Longrightarrow> serve_broadcast env walk r s = handle_channel env r s"
  by (auto simp: serve_broadcast_def broadcast_route_def)

lemma status_answer:
  assumes "channel_source s name = Some src" and "so_endpoint src \<noteq> []"
    and "se_http_get env (so_endpoint src @ ''/status'') = Inr \<lparr>hr_code = 200, hr_body = body, hr_broken = None\<rparr>"
    and "json_valid body" and "length body \<le> status_limit"
  shows "handle_channel_status env s name = write_json (Raw_json body)"
  using source_status_complete [where http_get = "se_http_get env" and s = src and body = body] assms
  by (simp add: handle_channel_status_def)

lemma service_endpoint_not_Nil: "service_endpoint svc \<noteq> []"
  by (simp add: service_endpoint_def)

lemma request_env_get [simp]: "se_http_get (request_env env p) = se_http_get env"
  by (simp add: request_env_def Let_def)

text \<open>The listing of a registered source.\<close>

lemma listed_source:
  "src \<in> set (registered_sources s) \<Longrightarrow>
   [(''name'', J_str (so_instance src)), (''type'', J_str ''discovered''), (''endpoint'', J_str (so_endpoint src)),
    (''status_url'', J_str (status_url src))] \<in> set (channel_entries env s)"
  unfolding channel_entries_def set_append set_map by blast


definition steady_process_events :: "(string \<times> string) process_event list" where
  "steady_process_events = Network (Announce 0 0 0 (sample_alarm ''a'' 1)) # map Network steady_run"

definition status_request :: request where
  "status_request = \<lparr>hq_method = ''GET'', hq_path = ''/channels/a/status'', hq_authorization = [], hq_remote = [],
     hq_body = [], hq_broken = None\<rparr>"


section \<open>Settings without effect\<close>

text \<open>
  Everything the configuration can switch off or say about callers, audience, presets, subscriptions,
  logging, themes, the age of notes and the advertised port.
\<close>

definition switched_off :: "config \<Rightarrow> config" where
  "switched_off cfg =
     cfg\<lparr>cf_broadcast := (cf_broadcast cfg)\<lparr>bc_advertise := [], bc_caller_enabled := False,
           bc_audience := \<lparr>au_enabled = False, au_allow_mdns = []\<rparr>\<rparr>,
         cf_receive := \<lparr>rc_mdns_service = [], rc_persist = []\<rparr>,
         cf_mdns := (cf_mdns cfg)\<lparr>md_port := 0\<rparr>,
         cf_channels := (cf_channels cfg)
           \<lparr>ch_preset := map (\<lambda>p. p\<lparr>pc_enabled := Some False\<rparr>) (ch_preset (cf_channels cfg)),
            ch_custom := map (\<lambda>c. c\<lparr>cu_theme := None\<rparr>) (ch_custom (cf_channels cfg)),
            ch_notes := map (\<lambda>n. n\<lparr>nc_refresh := []\<rparr>) (ch_notes (cf_channels cfg))\<rparr>,
         cf_signal := (cf_signal cfg)\<lparr>sg_decay_linear := False\<rparr>,
         cf_logging := \<lparr>lg_level = [], lg_output = []\<rparr>, cf_extra := []\<rparr>"

lemma switched_off_simps [simp]:
  "cf_mode (switched_off cfg) = cf_mode cfg" "cf_health (switched_off cfg) = cf_health cfg"
  "bc_listen (cf_broadcast (switched_off cfg)) = bc_listen (cf_broadcast cfg)"
  "cf_features (switched_off cfg) = cf_features cfg" "cf_tv (switched_off cfg) = cf_tv cfg"
  "md_service_type (cf_mdns (switched_off cfg)) = md_service_type (cf_mdns cfg)"
  "md_isotope_types (cf_mdns (switched_off cfg)) = md_isotope_types (cf_mdns cfg)"
  "md_txt (cf_mdns (switched_off cfg)) = md_txt (cf_mdns cfg)"
  "md_refresh (cf_mdns (switched_off cfg)) = md_refresh (cf_mdns cfg)"
  "md_domains (cf_mdns (switched_off cfg)) = md_domains (cf_mdns cfg)"
  by (simp_all add: switched_off_def)

lemma switched_off_channels:
  "ch_preset (cf_channels (switched_off cfg)) = map (\<lambda>p. p\<lparr>pc_enabled := Some False\<rparr>) (ch_preset (cf_channels cfg))"
  "ch_custom (cf_channels (switched_off cfg)) = map (\<lambda>c. c\<lparr>cu_theme := None\<rparr>) (ch_custom (cf_channels cfg))"
  "ch_notes (cf_channels (switched_off cfg)) = map (\<lambda>n. n\<lparr>nc_refresh := []\<rparr>) (ch_notes (cf_channels cfg))"
  by (simp_all add: switched_off_def)

lemma themeless_fields:
  "cu_name (c\<lparr>cu_theme := x\<rparr>) = cu_name c" "cu_source (c\<lparr>cu_theme := x\<rparr>) = cu_source c"
  "cu_auth (c\<lparr>cu_theme := x\<rparr>) = cu_auth c" "cu_refresh (c\<lparr>cu_theme := x\<rparr>) = cu_refresh c"
  by simp_all

lemma themeless_channel: "new_channel (c\<lparr>cu_theme := x\<rparr>) = new_channel c"
  unfolding new_channel_def check_channel_def check_refresh_def refresh_of_def by (simp only: themeless_fields)

lemma themeless_set: "new_set (map (\<lambda>c. c\<lparr>cu_theme := x\<rparr>) chs) = new_set chs"
  unfolding new_set_def fold_map comp_def themeless_channel by (simp only: themeless_fields)

lemma find_map_name:
  "map_option nc_source (find (\<lambda>n. nc_name n = name) (map (\<lambda>n. n\<lparr>nc_refresh := []\<rparr>) ns))
   = map_option nc_source (find (\<lambda>n. nc_name n = name) ns)"
  by (induction ns) auto

abbreviation off :: "server \<Rightarrow> server" where
  "off s \<equiv> s\<lparr>tn_cfg := switched_off (tn_cfg s)\<rparr>"

lemma off_parts:
  "channel_source (off s) = channel_source s" "registered_sources (off s) = registered_sources s"
  "server_feature_sources env (off s) = server_feature_sources env s" "notes_source (off s) = notes_source s"
  "custom_entry env (off s) (c\<lparr>cu_theme := x\<rparr>) = custom_entry env s c"
  by (simp_all add: channel_source_def registered_sources_def server_feature_sources_def notes_source_def fun_eq_iff
      switched_off_channels find_map_name custom_entry_def)

lemma off_listing:
  "channel_entries env (off s) = channel_entries env s" "channel_count (off s) = channel_count s"
  "llms_channels env (off s) = llms_channels env s"
  by (simp_all add: channel_entries_def channel_count_def llms_channels_def Let_def switched_off_channels off_parts comp_def
      split: option.split)

lemma off_documents:
  "handle_readyz (off s) = handle_readyz s" "handle_status env (off s) = handle_status env s"
  "handle_list_channels env (off s) = handle_list_channels env s" "handle_llms env walk (off s) = handle_llms env walk s"
  "handle_channel_status env (off s) name = handle_channel_status env s name"
  by (simp_all add: handle_readyz_def handle_status_def handle_list_channels_def handle_llms_def
      handle_channel_status_def off_listing off_parts)

lemma off_handlers:
  "handle_features env (off s) = map_prod off id (handle_features env s)"
  "handle_notes env name src (off s) = map_prod off id (handle_notes env name src s)"
  "handle_custom_snapshot env ci (off s) = map_prod off id (handle_custom_snapshot env ci s)"
  "handle_custom_ingest env r ci (off s) = map_prod off id (handle_custom_ingest env r ci s)"
  "handle_audience env r name (off s) = map_prod off id (handle_audience env r name s)"
  by (simp_all add: handle_features_def handle_notes_def handle_custom_snapshot_def handle_custom_ingest_def
      handle_audience_def off_parts split: prod.split sum.split)

lemma off_shared: "handle_shared env r name action (off s) = map_prod off id (handle_shared env r name action s)"
  by (simp add: handle_shared_def off_handlers off_documents off_parts case_prod_unfold prod_eq_iff split: option.split)

lemma off_channel: "handle_channel env r (off s) = map_prod off id (handle_channel env r s)"
  by (simp add: handle_channel_def off_handlers off_shared off_parts case_prod_unfold prod_eq_iff split: option.split)

text \<open>C14: The switches switch nothing: with callers, audience reports and presets switched off, and all
  those other settings emptied, either listener answers every request as before and moves to the same
  state, and the process starts with the same browser, ports, order and channels. In particular a
  disabled caller line still accepts messages and disabled audience reports are still filed.\<close>

theorem switches_do_nothing:
  "serve_broadcast env walk r (s\<lparr>tn_cfg := switched_off (tn_cfg s)\<rparr>)
     = map_prod (\<lambda>s. s\<lparr>tn_cfg := switched_off (tn_cfg s)\<rparr>) id (serve_broadcast env walk r s)
   \<and> serve_health env r (s\<lparr>tn_cfg := switched_off (tn_cfg s)\<rparr>) = serve_health env r s
   \<and> serve_life listen_health listen_broadcast (switched_off cfg) = serve_life listen_health listen_broadcast cfg
   \<and> new_server (switched_off cfg) ver srcs t = (new_server cfg ver srcs t)\<lparr>tn_cfg := switched_off cfg\<rparr>"
proof (intro conjI)
  show "serve_broadcast env walk r (off s) = map_prod off id (serve_broadcast env walk r s)"
    by (simp add: serve_broadcast_def off_channel off_documents split: option.split route.split)
  show "serve_health env r (off s) = serve_health env r s"
    by (simp add: serve_health_def off_documents split: option.split route.split)
  have options: "serve_options (switched_off cfg) = serve_options cfg" "advertised (switched_off cfg) = advertised cfg"
    "cable_dir (switched_off cfg) = cable_dir cfg"
    by (simp_all add: serve_options_def browse_types_def service_types_def refresh_duration_def advertised_def cable_dir_def
        fun_eq_iff)
  show "serve_life listen_health listen_broadcast (switched_off cfg) = serve_life listen_health listen_broadcast cfg"
    unfolding serve_life_def broadcast_life_def receive_life_def deferred_def by (simp only: options switched_off_simps)
  show "new_server (switched_off cfg) ver srcs t = (new_server cfg ver srcs t)\<lparr>tn_cfg := switched_off cfg\<rparr>"
    by (simp add: new_server_def switched_off_channels themeless_set feature_refresh_duration_def)
qed

text \<open>Nothing checks the mode: whatever it is, a process that does not broadcast receives.\<close>

lemma other_modes_receive:
  "cf_mode cfg \<noteq> mode_broadcast \<Longrightarrow> serve_life lh lb cfg = serve_life lh lb (cfg\<lparr>cf_mode := mode_receive\<rparr>)"
  by (simp add: serve_life_def receive_life_def deferred_def cable_dir_def serve_options_def refresh_duration_def
      mode_broadcast_def mode_receive_def split: sum.split)

section \<open>The command\<close>

text \<open>
  \<open>tuner serve\<close> from its arguments: the configuration is read and the mode flag laid over it, what is
  wrong with the channels is reported, and the process lives. A configuration that cannot be read is
  the only failure before the ports are tried.
\<close>

datatype serve_outcome =
    Refused cli_result
  | Lived config "startup_notice list" "life_action list"

definition cmd_serve :: "cli_env \<Rightarrow> 'u url_codec \<Rightarrow> (string \<Rightarrow> string option) \<Rightarrow> (string \<Rightarrow> string option) \<Rightarrow>
    string list \<Rightarrow> serve_outcome" where
  "cmd_serve env U listen_health listen_broadcast args =
     (case load_for env args of
        Inl e \<Rightarrow> Refused (load_failed env e)
      | Inr loaded \<Rightarrow>
          (let cfg = serve_config loaded (flag_value args ''mode'' [])
           in Lived cfg (startup_notices U cfg) (serve_life listen_health listen_broadcast cfg)))"

text \<open>
  A mode given on the command line that is not the broadcast mode, a misspelt one too, silences the
  notices and starts the process as a receiver, whatever the file says.
\<close>

lemma mode_flag_wins:
  assumes "load_for env args = Inr loaded" and "flag_value args ''mode'' [] = m" and "m \<noteq> []" and "m \<noteq> mode_broadcast"
  shows "cmd_serve env U lh lb args
    = Lived (loaded\<lparr>cf_mode := m\<rparr>) [] (serve_life lh lb (loaded\<lparr>cf_mode := mode_receive\<rparr>))"
proof -
  have "serve_life lh lb (loaded\<lparr>cf_mode := m\<rparr>) = serve_life lh lb (loaded\<lparr>cf_mode := mode_receive\<rparr>)"
    using other_modes_receive [of "loaded\<lparr>cf_mode := m\<rparr>" lh lb] assms(4) by simp
  with assms show ?thesis by (simp add: cmd_serve_def serve_config_def startup_notices_def)
qed

text \<open>Without the flag the file's mode stands, and without a file the defaults broadcast.\<close>

lemma serve_defaults:
  assumes "flag_value args ''config'' [] = []" and "flag_value args ''mode'' [] = []"
  shows "cmd_serve env U lh lb args
    = Lived default_config (startup_notices U default_config) (serve_life lh lb default_config)"
  using assms by (simp add: cmd_serve_def load_for_def load_config_def serve_config_def)

end
