(* ===== verification/Spec2Isabelle.thy ===== *)
theory Spec2Isabelle
  imports Prelude GoStrings GoNet GoFloat GoTime GoJson GoIo Cache Mdns ChannelSource Discovery
    Tv Signal Config Notes Custom Mcp FeatureMerge FeatureBrowser FeatureSources Render SourceStatus
    Streams Server Llms Lezz Cli Serve BrowseLoop Lifecycle
    ViewRequests EndToEnd
begin

text \<open>
  A model of tuner, a Go service that discovers other processes over mDNS and serves what they
  report as channels: over HTTP, as Television channel files, and on the command line.

  The program. A browser (internal/mdns) keeps a table of service records; its callbacks feed a
  registry of channel sources (internal/channelsource), one per smoke-alarm instance. An HTTP server
  (internal/server) lists the configured and the discovered channels and answers for each: notes
  feeds (internal/notes), custom channels of four kinds (internal/custom), discovered sources, and
  the certification view merged over adhd instances (internal/featurebrowser), which it asks over
  MCP (internal/mcpclient). A subscriber of the registry keeps one Television channel file per source
  (internal/tv). The command line (cmd/tuner) starts the process or runs one of the parts once;
  internal/signal turns a status document into alerts and bars, internal/config holds the
  configuration, internal/llms writes a summary for agents, internal/lezzdemo seeds the browser from
  a local demo cluster.

  The language. Prelude has Go's maps as association lists in their iteration order (\<open>gm_get\<close>,
  \<open>gm_put\<close>, \<open>gm_del\<close>), \<open>sort.Slice\<close> with the contract of its comparison as a locale, time and
  64-bit durations with their wrap-around and saturation. GoStrings has strings as bytes, UTF-8
  runes, trimming, splitting and decimal numbers; GoNet has host-port pairs and IP addresses; GoFloat has
  rounding to doubles over the rationals; GoTime parses durations exactly; GoJson recognises JSON;
  GoIo has bounded bodies and scanned lines. A machine integer is an \<open>int\<close> with the wrap-around
  written out where the code can reach it. Cache has the locale of a value kept for a time, which the
  notes store, the pulled custom channels and the certification view interpret.

  The components, each theory a group of definitions named after the functions they model:
  Mdns (Service, Endpoint, Browser.Add, expire, foldEndpoints, the advertiser's pure parts);
  ChannelSource (Registry.Observe, Retire, List, Subscribe, and the two-lock delivery);
  Discovery (the callbacks of cmdServe, as an instance of the locale of a sink of records);
  Tv (GenerateTOML, ChannelFile, WriteChannel, RemoveChannel, WatchDiscovered, the presets);
  Signal (Strength, VizBar, DecodeStatus); Config (every record, Load, the derived durations);
  Notes (Read, the four feed shapes, Store.Get); Custom (New, Validate, snapshot, Ingest,
  ExposureProblems); Mcp (Client and its calls); FeatureMerge (merge and its listings);
  FeatureBrowser (the contract run against one source, View, Verify); FeatureSources (where sources come
  from); Render (render.go); SourceStatus (Source.Status); Streams (the four event streams); Server (the
  state, routes and handlers); Llms (the feature files and llms.txt); Lezz (the demo registry); Cli
  (flags, dispatch, bindWithRetry and the subcommands); Serve (the serving process as one state);
  BrowseLoop (Browser.Start: the browses, the refreshes and the checks with their callbacks outside
  the lock); ViewRequests (overlapping requests for the certification view and the goroutines of a
  fetch); Lifecycle (the order in which cmdServe starts and stops, and the advertiser); EndToEnd
  (what the network gets from the listeners, which settings have no effect, and cmdServe from its
  arguments on).

  What the lemmas show. Per component: a well-formedness invariant that every operation keeps
  (\<open>table_ok\<close>, \<open>registry_ok\<close>, \<open>server_ok\<close>, \<open>process_ok\<close>), what each operation does on every branch, and
  the contracts between components. Across them: in every run of the serving process the listed
  sources are backed by live records and mirrored in the cable directory (Serve); a subscriber's
  replay is the registry and every event is delivered once under every interleaving (ChannelSource);
  the merged view federates its sources (FeatureMerge), and a rung is never above the evidence
  (FeatureBrowser); webhooks are written by authorised pushes only, and the startup notices agree with
  the guard (Server); the renderer offers what Verify does (Render); round trips of feature files, event
  streams and TXT records; an alarm that announces itself and is heard in time is a channel that
  answers, at the configured settings (EndToEnd); overlapping requests answer from a fetch within the
  view's life (ViewRequests); and the places where the code does not do what it says, each stated as
  a theorem about a concrete run.

  Bounds and fuel. Loops are structural recursion or folds over finite inputs; the two with another
  measure (trimming, runes) have a termination proof. The one fuel is the eight groups of an IPv6
  address, as in \<open>netip\<close>. Byte limits are those of the code: \<open>max_body\<close> (1 MiB), \<open>status_limit\<close>,
  \<open>mcp_max_body\<close> and the scanner's 64 KiB.

  What is an argument. The clock (each reading of it), the network, files, commands, the terminal,
  \<open>net/url\<close>, the JSON, XML and YAML decoders and encoders, the wording of errors, the order of a map.
  Hypotheses about them are named in the theorems that use them, and each has a witness.

  Not modelled. The zeroconf library: its effect is the sequence of entries it delivers. Concurrency
  of requests in general: a handler is one step, as under the server's locks; interleaved are the
  delivery of registry events, the callbacks of the browser, the requests for the certification view
  and the shutdown of the advertiser. Logging, signals, the timeouts of a graceful shutdown. The Rust
  renderer under viz/, a separate program that reads alerts from standard input. The redirect of
  \<open>net/http\<close> for a path that is not in canonical form.
\<close>

end
